(* ===== verification/Prelude.thy ===== *)
theory Prelude
  imports Main "HOL-Library.Word" "HOL-Library.AList" "HOL-Library.Multiset" "HOL-Library.Monad_Syntax"
begin

text \<open>
  Shared ground of the development: the Go types and the few pieces of the Go standard
  library the program uses (big-endian 16-bit reads and writes, the formats \<open>%02x\<close> and \<open>%d\<close>,
  \<open>time.Time\<close> and \<open>time.Duration\<close>, maps), and the generic lemmas about them.

  Conventions. A \<open>byte\<close> is an \<^typ>\<open>8 word\<close>, \<open>uint16\<close>, \<open>uint32\<close> and \<open>uint64\<close> are words of
  their width, Go's 64-bit \<open>int\<close> is an \<^typ>\<open>int\<close> (with \<open>i64\<close> written out where the code can
  wrap). A Go map is an association list with \<^const>\<open>map_of\<close> as its lookup. A function that can
  panic at run time returns an \<open>option\<close> with \<^const>\<open>None\<close> for the panic; a function that returns
  a Go \<open>error\<close> returns a sum with the error on the left.
\<close>

unbundle bit_operations_syntax

named_theorems codec_simps \<open>reading back what the frame builders wrote\<close>
named_theorems node_simps \<open>what the operations leave of the node's fields\<close>

type_synonym byte = "8 word"
type_synonym u16 = "16 word"
type_synonym u32 = "32 word"
type_synonym u64 = "64 word"
type_synonym bytes = "byte list"
type_synonym 'v gomap = "(string \<times> 'v) list"

section \<open>64-bit integers and time\<close>

text \<open>Two's complement wrap-around of Go's 64-bit \<open>int\<close> and \<open>int64\<close>.\<close>

definition i64 :: "int \<Rightarrow> int" where
  "i64 x = (x + 2 ^ 63) mod 2 ^ 64 - 2 ^ 63"

lemma i64_id: "- (2 ^ 63) \<le> x \<Longrightarrow> x < 2 ^ 63 \<Longrightarrow> i64 x = x"
  by (simp add: i64_def)

lemma i64_range: "- (2 ^ 63) \<le> i64 x \<and> i64 x < 2 ^ 63"
proof -
  have "0 \<le> (x + 2 ^ 63) mod 2 ^ 64" and "(x + 2 ^ 63) mod 2 ^ 64 < (2 ^ 64 :: int)"
    by simp_all
  then show ?thesis by (simp add: i64_def)
qed

text \<open>
  \<open>time.Time\<close> is an instant in nanoseconds. \<open>Time.Sub\<close> gives a \<open>time.Duration\<close> (an \<open>int64\<close> of
  nanoseconds) and saturates; \<open>time.Duration(ms) * time.Millisecond\<close> wraps.
\<close>

type_synonym time = int

definition minDuration :: int where "minDuration = - (2 ^ 63)"
definition maxDuration :: int where "maxDuration = 2 ^ 63 - 1"

definition time_Sub :: "time \<Rightarrow> time \<Rightarrow> int" where
  "time_Sub t u = max minDuration (min maxDuration (t - u))"

definition ms_dur :: "int \<Rightarrow> int" where
  "ms_dur ms = i64 (ms * 1000000)"

text \<open>The millisecond counts that \<open>ms_dur\<close> turns into a duration without wrapping.\<close>

definition ms_ok :: "int \<Rightarrow> bool" where
  "ms_ok ms \<longleftrightarrow> 0 < ms \<and> ms \<le> 9223372036854"

lemma ms_dur_ok: "ms_ok ms \<Longrightarrow> ms_dur ms = ms * 1000000"
  by (simp add: ms_ok_def ms_dur_def i64_def)

lemma ms_dur_bounds:
  assumes "ms_ok ms"
  shows "0 < ms_dur ms" and "ms_dur ms < maxDuration"
  using assms by (simp_all add: ms_dur_ok[OF assms] ms_ok_def maxDuration_def)

lemma time_Sub_mono: "t \<le> t' \<Longrightarrow> time_Sub t u \<le> time_Sub t' u"
  by (simp add: time_Sub_def)

lemma time_Sub_le_iff:
  assumes "minDuration \<le> d" and "d < maxDuration"
  shows "time_Sub t u \<le> d \<longleftrightarrow> t - u \<le> d"
  using assms by (auto simp: time_Sub_def min_def max_def)

lemma time_Sub_self [simp]: "time_Sub t t = 0"
  by (simp add: time_Sub_def minDuration_def maxDuration_def)

section \<open>Big-endian 16-bit fields\<close>

text \<open>\<open>binary.BigEndian.Uint16\<close> and \<open>PutUint16\<close>.\<close>

definition Uint16 :: "byte \<Rightarrow> byte \<Rightarrow> u16" where
  "Uint16 hi lo = push_bit 8 (ucast hi) OR ucast lo"

definition get16 :: "bytes \<Rightarrow> nat \<Rightarrow> u16" where
  "get16 b i = Uint16 (b ! i) (b ! (i + 1))"

definition put16 :: "u16 \<Rightarrow> bytes" where
  "put16 v = [ucast (drop_bit 8 v), ucast v]"

text \<open>\<open>b[lo:hi]\<close> for \<open>lo \<le> hi \<le> len(b)\<close>; callers check the bounds the way the code does.\<close>

definition gslice :: "nat \<Rightarrow> nat \<Rightarrow> 'a list \<Rightarrow> 'a list" where
  "gslice lo hi b = take (hi - lo) (drop lo b)"

text \<open>\<open>net.IP.To4\<close>: an address of 4 bytes, or one of 16 that is an IPv4 address in IPv6 form.\<close>

definition To4 :: "bytes \<Rightarrow> bytes option" where
  "To4 ip =
     (if length ip = 4 then Some ip
      else if length ip = 16 \<and> take 10 ip = replicate 10 0 \<and> ip ! 10 = 0xff \<and> ip ! 11 = 0xff
      then Some (gslice 12 16 ip) else None)"

lemma length_gslice [simp]: "hi \<le> length b \<Longrightarrow> length (gslice lo hi b) = hi - lo"
  by (simp add: gslice_def)

lemma nth_gslice: "lo + i < hi \<Longrightarrow> hi \<le> length b \<Longrightarrow> gslice lo hi b ! i = b ! (lo + i)"
  by (simp add: gslice_def)

lemma gslice_to_end: "hi = length b \<Longrightarrow> gslice lo hi b = drop lo b"
  by (simp add: gslice_def)

lemma gslice_split:
  assumes "lo \<le> mid" "mid \<le> hi"
  shows "gslice lo mid b @ gslice mid hi b = gslice lo hi b"
proof -
  have "take (mid - lo) (drop lo b) @ take (hi - mid) (drop (mid - lo) (drop lo b))
      = take ((mid - lo) + (hi - mid)) (drop lo b)"
    by (simp only: take_add)
  then show ?thesis using assms by (simp add: gslice_def)
qed

lemma gslice_0: "gslice 0 n b = take n b"
  by (simp add: gslice_def)

lemma length_put16 [simp]: "length (put16 v) = 2"
  by (simp add: put16_def)

lemma bit_Uint16:
  "bit (Uint16 h l) n \<longleftrightarrow> (if n < 8 then bit l n else n < 16 \<and> bit h (n - 8))"
proof -
  have "\<not> bit l n" if "8 \<le> n" using that by (simp add: bit_imp_le_length impossible_bit)
  then show ?thesis by (auto simp: Uint16_def bit_simps)
qed

lemma Uint16_put16 [codec_simps]: "Uint16 (ucast (drop_bit 8 v)) (ucast (v :: u16)) = v"
  by (rule bit_word_eqI) (auto simp: bit_Uint16 bit_simps)

lemma put16_Uint16 [codec_simps]: "put16 (Uint16 h l) = [h, l]"
  unfolding put16_def
  by (simp, intro conjI; rule bit_word_eqI) (auto simp: bit_Uint16 bit_simps)

lemma Uint16_inject: "Uint16 h l = Uint16 h' l' \<longleftrightarrow> h = h' \<and> l = l'"
  by (metis put16_Uint16 list.inject)

lemma get16_put16_append [codec_simps]:
  "length xs = i \<Longrightarrow> get16 (xs @ put16 v @ ys) i = v"
  by (simp add: get16_def put16_def nth_append Uint16_put16)

lemma get16_append1 [codec_simps]: "i + 1 < length xs \<Longrightarrow> get16 (xs @ ys) i = get16 xs i"
  by (simp add: get16_def nth_append)

lemma get16_append2 [codec_simps]:
  "length xs \<le> i \<Longrightarrow> get16 (xs @ ys) i = get16 ys (i - length xs)"
  by (simp add: get16_def nth_append Suc_diff_le)

lemma get16_take: "i + 1 < n \<Longrightarrow> get16 (take n xs) i = get16 xs i"
  by (simp add: get16_def)

lemma get16_drop: "n + i + 1 < length xs \<Longrightarrow> get16 (drop n xs) i = get16 xs (n + i)"
  by (simp add: get16_def add.assoc)

lemma put16_get16: "i + 1 < length b \<Longrightarrow> put16 (get16 b i) = gslice i (i + 2) b"
proof -
  assume a: "i + 1 < length b"
  have "drop i b = b ! i # b ! Suc i # drop (i + 2) b"
    using a by (metis Cons_nth_drop_Suc Suc_eq_plus1 add_2_eq_Suc' add_lessD1)
  then show ?thesis by (simp add: get16_def put16_Uint16 gslice_def)
qed

lemma split16:
  assumes "n + 1 < length b"
  shows "b = take n b @ put16 (get16 b n) @ drop (n + 2) b"
proof -
  have "take 2 (drop n b) @ drop 2 (drop n b) = drop n b"
    by (rule append_take_drop_id)
  then have "put16 (get16 b n) @ drop (n + 2) b = drop n b"
    using assms by (simp add: put16_get16 gslice_def add.commute)
  then show ?thesis by simp
qed

lemma uint_u16_bounds: "0 \<le> uint (v :: u16)" "uint (v :: u16) < 65536"
  using uint_lt2p[of v] by auto

lemma word_of_uint_u16 [simp]: "word_of_int (uint (v :: u16)) = v"
  by simp

section \<open>Formatting: \<open>%02x\<close> and \<open>%d\<close>\<close>

definition hexdigit :: "nat \<Rightarrow> char" where
  "hexdigit n = ''0123456789abcdef'' ! n"

definition hex02 :: "byte \<Rightarrow> string" where
  "hex02 b = [hexdigit (unat b div 16), hexdigit (unat b mod 16)]"

lemma length_hex02 [simp]: "length (hex02 b) = 2"
  by (simp add: hex02_def)

lemma distinct_hexdigits: "distinct ''0123456789abcdef''"
  by simp

lemma hexdigit_inject: "m < 16 \<Longrightarrow> n < 16 \<Longrightarrow> hexdigit m = hexdigit n \<longleftrightarrow> m = n"
  unfolding hexdigit_def by (subst nth_eq_iff_index_eq[OF distinct_hexdigits]) simp_all

lemma unat_byte_less: "unat (x :: byte) < 256"
  by (rule order_less_le_trans[OF unsigned_less]) simp

lemma hex02_inject [simp]: "hex02 a = hex02 b \<longleftrightarrow> a = b"
proof
  assume "hex02 a = hex02 b"
  moreover have "unat x div 16 < 16" "unat x mod 16 < 16" for x :: byte
    using unat_byte_less[of x] by (simp_all add: less_mult_imp_div_less)
  ultimately have "unat a div 16 = unat b div 16 \<and> unat a mod 16 = unat b mod 16"
    by (simp add: hex02_def hexdigit_inject)
  then have "unat a = unat b" by (metis div_mult_mod_eq)
  then show "a = b" by (simp add: unsigned_word_eqI)
qed simp

text \<open>The format \<open>"%02x:%02x:%02x:%02x:%02x:%02x"\<close>.\<close>

definition fmtMAC :: "byte \<Rightarrow> byte \<Rightarrow> byte \<Rightarrow> byte \<Rightarrow> byte \<Rightarrow> byte \<Rightarrow> string" where
  "fmtMAC a b c d e f = hex02 a @ '':'' @ hex02 b @ '':'' @ hex02 c @ '':'' @
     hex02 d @ '':'' @ hex02 e @ '':'' @ hex02 f"

lemma length_fmtMAC [simp]: "length (fmtMAC a b c d e f) = 17"
  by (simp add: fmtMAC_def)

lemma fmtMAC_inject [simp]:
  "fmtMAC a b c d e f = fmtMAC a' b' c' d' e' f' \<longleftrightarrow>
     a = a' \<and> b = b' \<and> c = c' \<and> d = d' \<and> e = e' \<and> f = f'"
  by (auto simp: fmtMAC_def)

lemma fmtMAC_nonempty [simp]: "fmtMAC a b c d e f \<noteq> []"
  by (simp add: fmtMAC_def)

text \<open>Decimal digits of \<open>fmt.Sprintf("%d", n)\<close>.\<close>

definition decdigit :: "nat \<Rightarrow> char" where
  "decdigit n = ''0123456789'' ! n"

fun show_nat :: "nat \<Rightarrow> string" where
  "show_nat n = (if n < 10 then [decdigit n] else show_nat (n div 10) @ [decdigit (n mod 10)])"

declare show_nat.simps [simp del]

definition show_int :: "int \<Rightarrow> string" where
  "show_int i = (if i < 0 then CHR ''-'' # show_nat (nat (- i)) else show_nat (nat i))"

lemma distinct_decdigits: "distinct ''0123456789''"
  by simp

lemma decdigit_inject: "m < 10 \<Longrightarrow> n < 10 \<Longrightarrow> decdigit m = decdigit n \<longleftrightarrow> m = n"
  unfolding decdigit_def by (subst nth_eq_iff_index_eq[OF distinct_decdigits]) simp_all

lemma decdigit_in: "n < 10 \<Longrightarrow> decdigit n \<in> set ''0123456789''"
  unfolding decdigit_def by (rule nth_mem) simp

lemma show_nat_nonempty [simp]: "show_nat n \<noteq> []"
  by (subst show_nat.simps) simp

lemma show_nat_digits: "set (show_nat n) \<subseteq> set ''0123456789''"
proof (induction n rule: show_nat.induct)
  case (1 n)
  show ?case
  proof (cases "n < 10")
    case True
    then show ?thesis using decdigit_in[of n] by (subst show_nat.simps) auto
  next
    case False
    then show ?thesis using 1 decdigit_in[of "n mod 10"]
      by (subst show_nat.simps) (simp del: set_simps add: set_simps(2)[of _ "[]"] set_simps(1))
  qed
qed

lemma show_nat_inject: "show_nat m = show_nat n \<Longrightarrow> m = n"
proof (induction m arbitrary: n rule: show_nat.induct)
  case (1 m)
  have last_eq: "last (show_nat k) = decdigit (k mod 10)" for k
    by (subst show_nat.simps) simp
  have butlast_eq: "butlast (show_nat k) = (if k < 10 then [] else show_nat (k div 10))" for k
    by (subst show_nat.simps) simp
  have "decdigit (m mod 10) = decdigit (n mod 10)"
    using "1.prems" last_eq by metis
  then have lo: "m mod 10 = n mod 10"
    by (simp add: decdigit_inject)
  have bl: "(if m < 10 then [] else show_nat (m div 10)) =
      (if n < 10 then [] else show_nat (n div 10))"
    using "1.prems" butlast_eq by metis
  show ?case
  proof (cases "m < 10")
    case True
    with bl have "n < 10" by (metis show_nat_nonempty)
    with True lo show ?thesis by simp
  next
    case False
    with bl have "\<not> n < 10" "show_nat (m div 10) = show_nat (n div 10)"
      by (auto split: if_splits)
    with "1.IH" False lo show ?thesis by (metis div_mult_mod_eq)
  qed
qed

lemma show_int_inject: "show_int i = show_int j \<Longrightarrow> i = j"
proof -
  have no_minus: "show_nat k \<noteq> CHR ''-'' # xs" for k xs
    using show_nat_digits[of k] by auto
  assume "show_int i = show_int j"
  then show ?thesis
    using no_minus no_minus[symmetric] by (auto simp: show_int_def split: if_splits dest!: show_nat_inject)
qed

lemma show_int_no_bar: "CHR ''|'' \<notin> set (show_int i)"
  using show_nat_digits by (auto simp: show_int_def)

section \<open>Go maps as association lists\<close>

abbreviation gm_get :: "'v gomap \<Rightarrow> string \<Rightarrow> 'v option" where
  "gm_get \<equiv> map_of"

abbreviation gm_put :: "string \<Rightarrow> 'v \<Rightarrow> 'v gomap \<Rightarrow> 'v gomap" where
  "gm_put \<equiv> AList.update"

abbreviation gm_ok :: "'v gomap \<Rightarrow> bool" where
  "gm_ok m \<equiv> distinct (map fst m)"

lemma gm_get_put [simp]: "gm_get (gm_put k v m) k' = (if k' = k then Some v else gm_get m k')"
  by (simp add: update_conv')

lemma gm_ok_put: "gm_ok m \<Longrightarrow> gm_ok (gm_put k v m)"
  by (rule distinct_update)

lemma gm_get_filter:
  "gm_ok m \<Longrightarrow> gm_get (filter (\<lambda>(k, v). P k v) m) k =
     (case gm_get m k of None \<Rightarrow> None | Some v \<Rightarrow> if P k v then Some v else None)"
  by (induction m) (auto split: option.splits dest: map_of_SomeD simp: image_iff map_of_eq_None_iff)

lemma gm_ok_filter: "gm_ok m \<Longrightarrow> gm_ok (filter P m)"
  by (induction m) auto

lemma length_gm_put:
  "length (gm_put k v m) = (if k \<in> fst ` set m then length m else Suc (length m))"
  by (induction m) auto

lemma gm_put_new: "k \<notin> fst ` set m \<Longrightarrow> gm_put k v m = m @ [(k, v)]"
  by (induction m) auto

section \<open>Durations\<close>

text \<open>The digits behind the decimal point, without the zeros at their end.\<close>

definition fmtFrac :: "nat \<Rightarrow> nat \<Rightarrow> string" where
  "fmtFrac prec v =
     (let ds = show_int (int (v mod 10 ^ prec));
          ds = replicate (prec - length ds) (CHR ''0'') @ ds;
          ds = rev (dropWhile (\<lambda>c. c = CHR ''0'') (rev ds))
      in if ds = [] then [] else CHR ''.'' # ds)"

text \<open>\<open>time.Duration.String\<close>; the micro sign is two bytes in UTF-8.\<close>

definition dur_String :: "int \<Rightarrow> string" where
  "dur_String d =
     (let u = nat \<bar>d\<bar>;
          unit = (\<lambda>prec suffix. show_int (int (u div 10 ^ prec)) @ fmtFrac prec u @ suffix);
          body = (if u = 0 then ''0s''
                  else if u < 1000 then unit 0 ''ns''
                  else if u < 1000000 then unit 3 [char_of (0xC2 :: nat), char_of (0xB5 :: nat), CHR ''s'']
                  else if u < 1000000000 then unit 6 ''ms''
                  else let s = u div 1000000000; m = s div 60; h = m div 60
                       in (if h > 0 then show_int (int h) @ ''h'' else '''')
                          @ (if m > 0 then show_int (int (m mod 60)) @ ''m'' else '''')
                          @ show_int (int (s mod 60)) @ fmtFrac 9 u @ ''s'')
      in (if d < 0 then ''-'' else '''') @ body)"

text \<open>\<open>Duration.Round(time.Second)\<close> of a duration that is not negative: half a second rounds up, and a sum that
  overflows is the largest duration.\<close>

definition round_second :: "int \<Rightarrow> int" where
  "round_second d =
     (let r = d mod 1000000000
      in if 2 * r < 1000000000 then d - r
         else if d + (1000000000 - r) \<le> maxDuration then d + (1000000000 - r) else maxDuration)"

text \<open>\<open>strings.Join\<close>.\<close>

fun join :: "'a list \<Rightarrow> 'a list list \<Rightarrow> 'a list" where
  "join sep [] = []"
| "join sep [x] = x"
| "join sep (x # xs) = x @ sep @ join sep xs"

end
