(* ===== verification/Engine.thy ===== *)
theory Engine
  imports Prelude
begin

text \<open>
  \<open>internal/engine/engine.go\<close>: per-source sequence numbers, classification of Ethernet frames
  (VLAN tag, EtherType, MAC addresses) and the PRP redundancy control trailer (RCT). A frame is
  the list of its bytes; the frames of the daemon are made with \<open>make([]byte, nr)\<close>, so their
  capacity is their length and a slice past the length panics.
\<close>

unbundle bit_operations_syntax

text \<open>The errors \<open>DecodeRCT\<close> and the HSR functions of the package return.\<close>

datatype engine_error =
    FrameTooShortForRCT nat
  | MissingPRPSuffix
  | LSDUMismatch int nat
  | FrameTooShort nat
  | FrameTooShortForVLAN nat
  | NotHSRFrame u16
  | FrameTooShortForHSRTag nat
  | HSRLSDUOutOfRange nat nat

definition RCTLen :: nat where "RCTLen = 6"
definition PRPSuffix :: u16 where "PRPSuffix = 0x88FB"
definition ethMinLen :: nat where "ethMinLen = 60"
definition vlanEthMinLen :: nat where "vlanEthMinLen = 64"

lemmas engine_consts = RCTLen_def PRPSuffix_def ethMinLen_def vlanEthMinLen_def

section \<open>Sequence numbers\<close>

record SequenceManager =
  sm_start :: u16
  sm_seqs :: "u16 gomap"

definition NewSequenceManager :: SequenceManager where
  "NewSequenceManager = \<lparr>sm_start = 0, sm_seqs = []\<rparr>"

definition NewSequenceManagerWithStart :: "u16 \<Rightarrow> SequenceManager" where
  "NewSequenceManagerWithStart start = \<lparr>sm_start = start, sm_seqs = []\<rparr>"

definition sm_Next :: "SequenceManager \<Rightarrow> string \<Rightarrow> u16 \<times> SequenceManager" where
  "sm_Next s srcMAC =
     (let seq = (case gm_get (sm_seqs s) srcMAC of None \<Rightarrow> sm_start s | Some q \<Rightarrow> q)
      in (seq, s\<lparr>sm_seqs := gm_put srcMAC (seq + 1) (sm_seqs s)\<rparr>))"

definition sm_Reset :: "SequenceManager \<Rightarrow> string \<Rightarrow> SequenceManager" where
  "sm_Reset s srcMAC = s\<lparr>sm_seqs := AList.delete srcMAC (sm_seqs s)\<rparr>"

text \<open>The number the manager would hand out next for a source.\<close>

definition sm_peek :: "SequenceManager \<Rightarrow> string \<Rightarrow> u16" where
  "sm_peek s m = (case gm_get (sm_seqs s) m of None \<Rightarrow> sm_start s | Some q \<Rightarrow> q)"

text \<open>The numbers handed out for a list of requests, in order.\<close>

fun sm_issue :: "SequenceManager \<Rightarrow> string list \<Rightarrow> u16 list" where
  "sm_issue s [] = []"
| "sm_issue s (m # ms) = (case sm_Next s m of (q, s') \<Rightarrow> q # sm_issue s' ms)"

lemma sm_Next_fst: "fst (sm_Next s m) = sm_peek s m"
  by (simp add: sm_Next_def sm_peek_def Let_def)

lemma sm_Next_snd_peek:
  "sm_peek (snd (sm_Next s m)) m' = (if m' = m then sm_peek s m + 1 else sm_peek s m')"
  by (simp add: sm_Next_def sm_peek_def Let_def split: option.split)

lemma sm_peek_new [simp]: "sm_peek (NewSequenceManagerWithStart st) m = st"
  by (simp add: sm_peek_def NewSequenceManagerWithStart_def)

lemma sm_peek_reset: "sm_peek (sm_Reset s m) m' = (if m' = m then sm_start s else sm_peek s m')"
  by (simp add: sm_peek_def sm_Reset_def delete_conv' split: option.split)

lemma length_sm_issue [simp]: "length (sm_issue s ms) = length ms"
  by (induction ms arbitrary: s) (simp_all add: case_prod_beta)

lemma sm_issue_nth:
  "i < length ms \<Longrightarrow> sm_issue s ms ! i = sm_peek s (ms ! i) + of_nat (count_list (take i ms) (ms ! i))"
proof (induction ms arbitrary: s i)
  case Nil
  then show ?case by simp
next
  case (Cons m ms)
  show ?case
  proof (cases i)
    case 0
    then show ?thesis by (simp add: case_prod_beta sm_Next_fst)
  next
    case (Suc j)
    with Cons show ?thesis by (simp add: case_prod_beta sm_Next_snd_peek algebra_simps)
  qed
qed

section \<open>Classification of frames\<close>

definition IsVLANFrame :: "bytes \<Rightarrow> bool" where
  "IsVLANFrame frame =
     (if length frame < 14 then False
      else let et = get16 frame 12 in et = 0x8100 \<or> et = 0x88a8)"

definition GetVLANID :: "bytes \<Rightarrow> (int \<times> bool) option" where
  "GetVLANID frame =
     (if \<not> IsVLANFrame frame then Some (0, False)
      else if length frame < 16 then None \<comment> \<open>\<open>frame[14:16]\<close> out of range\<close>
      else Some (uint (get16 frame 14 AND 0x0FFF), True))"

definition IsMulticastMAC :: "bytes \<Rightarrow> bool" where
  "IsMulticastMAC frame \<longleftrightarrow> length frame > 0 \<and> frame ! 0 AND 0x01 = 1"

definition GetSrcMAC :: "bytes \<Rightarrow> string" where
  "GetSrcMAC frame =
     (if length frame < 12 then ''''
      else fmtMAC (frame ! 6) (frame ! 7) (frame ! 8) (frame ! 9) (frame ! 10) (frame ! 11))"

definition GetDstMAC :: "bytes \<Rightarrow> string" where
  "GetDstMAC frame =
     (if length frame < 6 then ''''
      else fmtMAC (frame ! 0) (frame ! 1) (frame ! 2) (frame ! 3) (frame ! 4) (frame ! 5))"

function GetEtherType_loop :: "bytes \<Rightarrow> nat \<Rightarrow> u16" where
  "GetEtherType_loop frame off =
     (if length frame < off + 2 then 0
      else let et = get16 frame off in
        if et = 0x8100 \<or> et = 0x88a8
        then (if length frame < off + 4 + 2 then 0 else GetEtherType_loop frame (off + 4))
        else et)"
  by pat_completeness auto
termination
  by (relation "measure (\<lambda>(frame, off). length frame - off)") auto

declare GetEtherType_loop.simps [simp del]

definition GetEtherType :: "bytes \<Rightarrow> u16" where
  "GetEtherType frame = GetEtherType_loop frame 12"

definition IsSupervisionFrame :: "bytes \<Rightarrow> bool" where
  "IsSupervisionFrame frame \<longleftrightarrow> GetEtherType frame = 0x88fb"

section \<open>The redundancy control trailer\<close>

definition rct_minSize :: "bytes \<Rightarrow> nat" where
  "rct_minSize frame = (if IsVLANFrame frame then vlanEthMinLen else ethMinLen)"

text \<open>\<open>padded := make([]byte, max(len(frame), minSize)); copy(padded, frame)\<close>\<close>

definition rct_padded :: "bytes \<Rightarrow> bytes" where
  "rct_padded frame =
     frame @ replicate (max (length frame) (rct_minSize frame) - length frame) 0"

definition wireLanID :: "int \<Rightarrow> u16" where
  "wireLanID lanID = word_of_int (lanID AND 0x0F) OR 0xA"

definition EncodeRCT :: "bytes \<Rightarrow> u16 \<Rightarrow> int \<Rightarrow> bytes" where
  "EncodeRCT frame seq lanID =
     (let vlan = IsVLANFrame frame;
          padded = rct_padded frame;
          lsdu = length padded + RCTLen - 14;
          lsdu = (if vlan then lsdu - 4 else lsdu);
          packed = push_bit 12 (wireLanID lanID) OR (of_nat lsdu AND 0x0FFF)
      in padded @ put16 seq @ put16 packed @ put16 PRPSuffix)"

definition DecodeRCT :: "bytes \<Rightarrow> engine_error + (int \<times> int \<times> bytes)" where
  "DecodeRCT frame =
     (if length frame < 14 + RCTLen then Inl (FrameTooShortForRCT (length frame))
      else let off = length frame - RCTLen in
        if get16 frame (off + 4) \<noteq> PRPSuffix then Inl MissingPRPSuffix
        else let seq = uint (get16 frame off);
                 packed = get16 frame (off + 2);
                 wire = uint (drop_bit 12 packed AND 0x0F);
                 lanID = wire AND 0x01;
                 storedLSDU = uint (packed AND 0x0FFF);
                 expected = length frame - 14;
                 expected = (if IsVLANFrame frame then expected - 4 else expected)
             in if storedLSDU \<noteq> int expected then Inl (LSDUMismatch storedLSDU expected)
                else Inr (lanID, seq, take off frame))"

definition IsPRPFrame :: "bytes \<Rightarrow> bool" where
  "IsPRPFrame frame =
     (case DecodeRCT frame of Inl _ \<Rightarrow> False | Inr (lanID, _, _) \<Rightarrow> lanID = 0 \<or> lanID = 1)"

section \<open>Reading a trailer back\<close>

text \<open>The LSDU size a frame's trailer stands for, before it is cut to 12 bits.\<close>

definition rct_lsdu :: "bytes \<Rightarrow> nat" where
  "rct_lsdu frame = length (rct_padded frame) + RCTLen - (if IsVLANFrame frame then 18 else 14)"

lemma mask12: "(0x0FFF :: u16) = mask 12"
  by (simp add: mask_eq_exp_minus_1)

lemma mask4: "(0x0F :: u16) = mask 4"
  by (simp add: mask_eq_exp_minus_1)

lemma bit_0xA: "bit (0xA :: u16) n \<longleftrightarrow> n = 1 \<or> n = 3"
proof -
  have "(0xA :: u16) = push_bit 1 1 OR push_bit 3 1" by simp
  then show ?thesis by (auto simp only: bit_simps) (auto simp: bit_simps)
qed

text \<open>Unpacking the two fields of a 16-bit word with a 4-bit head and a 12-bit tail.\<close>

lemma pack_high: "drop_bit 12 (push_bit 12 w OR (x AND 0x0FFF)) = w AND (0x0F :: u16)"
  unfolding mask12 mask4 by (rule bit_word_eqI) (auto simp: bit_simps)

lemma pack_low: "(push_bit 12 w OR (x AND 0x0FFF)) AND 0x0FFF = x AND (0x0FFF :: u16)"
  unfolding mask12 by (rule bit_word_eqI) (auto simp: bit_simps)

lemma uint_and_mask12: "uint (of_nat n AND (0x0FFF :: u16)) = int (n mod 4096)"
proof -
  have "uint (of_nat n AND (0x0FFF :: u16)) = take_bit 12 (uint (of_nat n :: u16))"
    unfolding mask12 take_bit_eq_mask[symmetric] by (simp add: unsigned_take_bit_eq)
  also have "\<dots> = take_bit 12 (int n)"
    by (simp add: unsigned_of_nat take_bit_of_nat)
  finally show ?thesis by (simp add: take_bit_eq_mod zmod_int)
qed

lemma wire_lan_bit: "uint ((wireLanID l AND 0x0F) AND (0x0F :: u16)) AND 0x01 = l AND 1"
proof (rule bit_eqI)
  fix n
  show "bit (uint ((wireLanID l AND 0x0F) AND (0x0F :: u16)) AND 0x01) n = bit (l AND 1) n"
    unfolding wireLanID_def
    by (cases n) (auto simp: bit_simps bit_0xA)
qed

lemma length_rct_padded: "length (rct_padded f) = max (length f) (rct_minSize f)"
  by (simp add: rct_padded_def)

lemma rct_padded_take: "take (length f) (rct_padded f) = f"
  by (simp add: rct_padded_def)

lemma rct_padded_ge: "60 \<le> length (rct_padded f)" "IsVLANFrame f \<Longrightarrow> 64 \<le> length (rct_padded f)"
  by (auto simp: length_rct_padded rct_minSize_def engine_consts)

lemma IsVLANFrame_append:
  "14 \<le> length f \<Longrightarrow> IsVLANFrame (f @ g) = IsVLANFrame f"
  by (simp add: IsVLANFrame_def codec_simps)

lemma IsVLANFrame_padded: "14 \<le> length f \<Longrightarrow> IsVLANFrame (rct_padded f) = IsVLANFrame f"
  by (simp add: rct_padded_def IsVLANFrame_append)

lemma IsVLANFrame_14: "IsVLANFrame f \<Longrightarrow> 14 \<le> length f"
  by (simp add: IsVLANFrame_def split: if_splits)

lemma EncodeRCT_eq:
  "EncodeRCT f seq l = rct_padded f @ put16 seq @
     put16 (push_bit 12 (wireLanID l) OR (of_nat (rct_lsdu f) AND 0x0FFF)) @ put16 PRPSuffix"
  using rct_padded_ge[of f] by (simp add: EncodeRCT_def rct_lsdu_def Let_def RCTLen_def)

lemma length_EncodeRCT: "length (EncodeRCT f seq l) = length (rct_padded f) + 6"
  by (simp add: EncodeRCT_eq)

lemma IsVLANFrame_EncodeRCT: "14 \<le> length f \<Longrightarrow> IsVLANFrame (EncodeRCT f seq l) = IsVLANFrame f"
  using rct_padded_ge(1)[of f] by (simp add: EncodeRCT_eq IsVLANFrame_append IsVLANFrame_padded)

text \<open>Every frame of at least six bytes is a body and three 16-bit words.\<close>

lemma trailer_view:
  assumes "6 \<le> length f"
  obtains p a b c where "f = p @ put16 a @ put16 b @ put16 c"
proof -
  have "length (drop (length f - 6) f) = Suc (Suc (Suc (Suc (Suc (Suc 0)))))" using assms by simp
  then obtain x0 x1 x2 x3 x4 x5 where "drop (length f - 6) f = [x0, x1, x2, x3, x4, x5]"
    unfolding length_Suc_conv by auto
  then have "f = take (length f - 6) f @ put16 (Uint16 x0 x1) @ put16 (Uint16 x2 x3) @ put16 (Uint16 x4 x5)"
    by (metis append_take_drop_id put16_Uint16 append_Cons append_Nil)
  then show thesis by (rule that)
qed

lemma get16_put16_0: "get16 (put16 v @ ys) 0 = v" "get16 (put16 v) 0 = v"
  by (simp_all add: get16_def put16_def Uint16_put16)

lemma lan_bit_of_nibble: "uint (drop_bit 12 v AND (0x0F :: u16)) AND 1 = uint (drop_bit 12 v) AND 1"
  unfolding mask4 by (rule bit_eqI) (auto simp: bit_simps)

lemma DecodeRCT_view:
  "DecodeRCT (p @ put16 a @ put16 b @ put16 c) =
    (if length p < 14 then Inl (FrameTooShortForRCT (length p + 6))
     else if c \<noteq> PRPSuffix then Inl MissingPRPSuffix
     else let expected = length p + 6 - (if IsVLANFrame p then 18 else 14) in
       if uint (b AND 0x0FFF) \<noteq> int expected then Inl (LSDUMismatch (uint (b AND 0x0FFF)) expected)
       else Inr (uint (drop_bit 12 b) AND 1, uint a, p))"
proof (cases "length p < 14")
  case True
  then show ?thesis by (simp add: DecodeRCT_def RCTLen_def)
next
  case False
  define F where "F = p @ put16 a @ put16 b @ put16 c"
  have "get16 F (length p) = a" "get16 F (Suc (Suc (length p))) = b" "get16 F (length p + 4) = c"
    by (simp_all add: F_def get16_append2 get16_put16_0)
  moreover have "IsVLANFrame F = IsVLANFrame p"
    using False by (simp add: F_def IsVLANFrame_append)
  moreover have "length F = length p + 6" "take (length p) F = p"
    by (simp_all add: F_def)
  ultimately show ?thesis
    using False unfolding F_def[symmetric]
    by (simp add: DecodeRCT_def RCTLen_def Let_def lan_bit_of_nibble)
qed

text \<open>
  What the receiver makes of a frame the sender tagged: the lane bit, the sequence number and the
  padded frame, or a size mismatch when the frame is too long for the 12-bit LSDU field.
\<close>

lemma DecodeRCT_EncodeRCT:
  assumes "14 \<le> length f"
  shows "DecodeRCT (EncodeRCT f seq l) =
    (if rct_lsdu f < 4096 then Inr (l AND 1, uint seq, rct_padded f)
     else Inl (LSDUMismatch (int (rct_lsdu f mod 4096)) (rct_lsdu f)))"
proof -
  have lan: "uint (wireLanID l AND (0x0F :: u16)) AND 1 = l AND 1"
    using wire_lan_bit[of l] by (simp add: and.assoc)
  have "length (rct_padded f) + 6 - (if IsVLANFrame (rct_padded f) then 18 else 14) = rct_lsdu f"
    using assms by (simp add: rct_lsdu_def RCTLen_def IsVLANFrame_padded)
  moreover have "n mod 4096 = n \<longleftrightarrow> n < 4096" for n :: nat
    by (metis mod_less mod_less_divisor zero_less_numeral)
  ultimately show ?thesis
    using rct_padded_ge(1)[of f] lan
    by (simp add: EncodeRCT_eq DecodeRCT_view pack_low pack_high uint_and_mask12 Let_def
        del: drop_bit_or)
qed

text \<open>The converse: what the receiver accepts is a body with a matching trailer.\<close>

lemma DecodeRCT_InrE:
  assumes "DecodeRCT f = Inr (l, s, p)"
  obtains b where "f = p @ put16 (word_of_int s) @ put16 b @ put16 PRPSuffix"
    and "14 \<le> length p" and "0 \<le> s" and "s < 65536"
    and "l = uint (drop_bit 12 b) AND 1"
    and "uint (b AND 0x0FFF) = int (length p + 6 - (if IsVLANFrame p then 18 else 14))"
proof -
  have "6 \<le> length f" using assms by (auto simp: DecodeRCT_def RCTLen_def split: if_splits)
  then obtain p' a b c where f: "f = p' @ put16 a @ put16 b @ put16 c"
    by (rule trailer_view)
  show thesis
    using assms uint_u16_bounds[of a]
    by (auto simp: f DecodeRCT_view Let_def split: if_splits intro!: that[of b])
qed

lemma DecodeRCT_lan01: "DecodeRCT f = Inr (l, s, p) \<Longrightarrow> l = 0 \<or> l = 1"
  by (erule DecodeRCT_InrE) (simp add: and_one_eq, linarith)

lemma IsPRPFrame_iff: "IsPRPFrame f \<longleftrightarrow> (\<exists>x. DecodeRCT f = Inr x)"
  by (auto simp: IsPRPFrame_def split: sum.splits dest: DecodeRCT_lan01)

section \<open>The header of a frame with something appended\<close>

lemma GetEtherType_loop_append:
  "GetEtherType_loop f off \<noteq> 0 \<Longrightarrow> GetEtherType_loop (f @ g) off = GetEtherType_loop f off"
proof (induction f off rule: GetEtherType_loop.induct)
  case (1 frame off)
  then show ?case
    by (cases "length frame < off + 2")
      (simp_all add: GetEtherType_loop.simps[of frame off] GetEtherType_loop.simps[of "frame @ g" off]
        get16_append1 Let_def split: if_splits)
qed

lemma GetEtherType_append: "GetEtherType f \<noteq> 0 \<Longrightarrow> GetEtherType (f @ g) = GetEtherType f"
  unfolding GetEtherType_def by (rule GetEtherType_loop_append)

lemma GetSrcMAC_append: "12 \<le> length f \<Longrightarrow> GetSrcMAC (f @ g) = GetSrcMAC f"
  by (simp add: GetSrcMAC_def nth_append)

lemma EncodeRCT_extends: "\<exists>g. EncodeRCT f seq l = f @ g"
  by (simp add: EncodeRCT_eq rct_padded_def)

lemma EncodeRCT_header:
  "GetEtherType f \<noteq> 0 \<Longrightarrow> GetEtherType (EncodeRCT f seq l) = GetEtherType f"
  "12 \<le> length f \<Longrightarrow> GetSrcMAC (EncodeRCT f seq l) = GetSrcMAC f"
  using EncodeRCT_extends[of f seq l] by (auto simp: GetEtherType_append GetSrcMAC_append)

text \<open>No two frames share source and sequence number while fewer than 65536 are under way.\<close>

lemma sm_issue_distinct:
  assumes "length ms \<le> 65536" and "i < length ms" and "j < length ms" and "ms ! i = ms ! j"
    and "sm_issue s ms ! i = sm_issue s ms ! j"
  shows "i = j"
proof -
  have lt: False if "i < j" "j < length ms" "ms ! i = ms ! j" "sm_issue s ms ! i = sm_issue s ms ! j" for i j
  proof -
    let ?ci = "count_list (take i ms) (ms ! i)" and ?cj = "count_list (take j ms) (ms ! i)"
    have "take j ms = take i ms @ ms ! i # take (j - Suc i) (drop (Suc i) ms)"
      using that(1,2) id_take_nth_drop[of i "take j ms"] by (simp add: drop_take min_def)
    then have "?ci < ?cj" by simp
    moreover have "?cj < 65536"
      using count_le_length[of "take j ms" "ms ! i"] that(2) assms(1) by simp
    moreover have "(of_nat ?ci :: u16) = of_nat ?cj"
      using that sm_issue_nth[of i ms s] sm_issue_nth[of j ms s] by simp
    ultimately show False by (simp add: word_unat_eq_iff unsigned_of_nat take_bit_nat_eq_self)
  qed
  show ?thesis using lt[of i j] lt[of j i] assms(2-5) by (metis linorder_neqE_nat)
qed

section \<open>Properties\<close>

text \<open>
  C25. RCT round trip: decoding what \<open>EncodeRCT\<close> built from a frame of at least an Ethernet header
  yields the lane, the sequence number and the padded frame when the size fits the 12-bit field,
  and a size mismatch when it does not; the padded frame starts with the frame.
\<close>

theorem rct_round_trip:
  assumes "14 \<le> length f"
  shows "DecodeRCT (EncodeRCT f seq l) =
      (if rct_lsdu f < 4096 then Inr (l AND 1, uint seq, rct_padded f)
       else Inl (LSDUMismatch (int (rct_lsdu f mod 4096)) (rct_lsdu f)))
    \<and> take (length f) (rct_padded f) = f \<and> length (rct_padded f) = max (length f) (if IsVLANFrame f then 64 else 60)"
  using DecodeRCT_EncodeRCT[OF assms] by (simp add: rct_padded_take length_rct_padded rct_minSize_def engine_consts)

lemma rct_round_trip_witness:
  "DecodeRCT (EncodeRCT [1, 2, 3, 4, 5, 6, 7, 8, 9, 10, 11, 12, 0x81, 0, 0, 5, 8, 0, 42] 65535 1)
    = Inr (1, 65535, rct_padded [1, 2, 3, 4, 5, 6, 7, 8, 9, 10, 11, 12, 0x81, 0, 0, 5, 8, 0, 42])"
proof -
  let ?f = "[1, 2, 3, 4, 5, 6, 7, 8, 9, 10, 11, 12, 0x81, 0, 0, 5, 8, 0, 42] :: bytes"
  have "rct_lsdu ?f < 4096" by code_simp
  then show ?thesis using rct_round_trip[of ?f 65535 1] by simp
qed

text \<open>
  C26. What counts as a PRP frame: \<open>DecodeRCT\<close> accepts a frame exactly when it is a body of at least
  14 bytes followed by a 6-byte trailer that ends in 0x88FB and whose 12-bit size equals the LSDU
  size; the reported lane is the lowest bit of the lane nibble, whose other bits are not looked at.
\<close>

theorem rct_accepts_exactly:
  "DecodeRCT f = Inr (l, s, p) \<longleftrightarrow>
    (\<exists>b :: u16. f = p @ put16 (word_of_int s) @ put16 b @ put16 0x88FB \<and> 14 \<le> length p \<and> 0 \<le> s \<and> s < 65536
      \<and> l = uint (drop_bit 12 b) AND 1
      \<and> uint (b AND 0x0FFF) = int (length p + 6 - (if IsVLANFrame p then 18 else 14)))"
proof
  assume "DecodeRCT f = Inr (l, s, p)"
  then show "\<exists>b :: u16. f = p @ put16 (word_of_int s) @ put16 b @ put16 0x88FB \<and> 14 \<le> length p \<and> 0 \<le> s \<and> s < 65536
      \<and> l = uint (drop_bit 12 b) AND 1
      \<and> uint (b AND 0x0FFF) = int (length p + 6 - (if IsVLANFrame p then 18 else 14))"
    by (rule DecodeRCT_InrE) (auto simp: PRPSuffix_def)
next
  assume "\<exists>b :: u16. f = p @ put16 (word_of_int s) @ put16 b @ put16 0x88FB \<and> 14 \<le> length p \<and> 0 \<le> s \<and> s < 65536
      \<and> l = uint (drop_bit 12 b) AND 1
      \<and> uint (b AND 0x0FFF) = int (length p + 6 - (if IsVLANFrame p then 18 else 14))"
  then show "DecodeRCT f = Inr (l, s, p)"
    by (auto simp: DecodeRCT_view PRPSuffix_def Let_def unsigned_of_int take_bit_int_eq_self)
qed

text \<open>
  C27. Sequence numbers: the \<open>i\<close>-th request of a manager gets the start value plus the number of
  earlier requests of the same source, modulo 65536, whatever other sources ask in between; no
  number of a source repeats within 65536 requests.
\<close>

theorem sequence_numbers:
  assumes "i < length ms"
  shows "sm_issue (NewSequenceManagerWithStart st) ms ! i = st + of_nat (count_list (take i ms) (ms ! i))
    \<and> (\<forall>j < length ms. length ms \<le> 65536 \<and> ms ! j = ms ! i
        \<and> sm_issue (NewSequenceManagerWithStart st) ms ! j = sm_issue (NewSequenceManagerWithStart st) ms ! i \<longrightarrow> j = i)"
  using sm_issue_nth[OF assms, of "NewSequenceManagerWithStart st"] sm_issue_distinct[of ms _ i "NewSequenceManagerWithStart st"] assms
  by (metis sm_peek_new)

lemma sequence_numbers_witness:
  "sm_issue (NewSequenceManagerWithStart 65535) [''a'', ''b'', ''a''] ! 2 = 0"
  using sequence_numbers[of 2 "[''a'', ''b'', ''a'']" 65535] by simp

end
