(* ===== verification/NodeTable.thy ===== *)
theory NodeTable
  imports Prelude
begin

text \<open>
  \<open>internal/nodetable/nodetable.go\<close>: the duplicate-detection table. The table's clock is an
  argument of the operations that read it. \<open>InsertWithExpiry\<close> ranges over a Go map, whose order
  is not specified: the order is the argument \<open>rng\<close>, any function that permutes the entries
  (\<open>map_range\<close>).

  The locale \<open>dup_window\<close> states what the frame handlers rely on, and what the handlers gain
  from it (a pair is accepted at most once within its window) is proved there once; the table
  is interpreted as an instance at the end.
\<close>

record Entry =
  e_SrcMAC :: string
  e_SeqNo :: int
  e_LANID :: int
  e_LastSeen :: time
  e_ExpiryMs :: int

record Table =
  t_entries :: "Entry gomap"
  t_maxSize :: int

type_synonym range_order = "Entry gomap \<Rightarrow> Entry gomap"

definition map_range :: "range_order \<Rightarrow> bool" where
  "map_range rng \<longleftrightarrow> (\<forall>es. mset (rng es) = mset es)"

definition NewTable :: "int \<Rightarrow> Table" where
  "NewTable maxSize = \<lparr>t_entries = [], t_maxSize = maxSize\<rparr>"

definition key :: "string \<Rightarrow> int \<Rightarrow> string" where
  "key srcMAC seq = srcMAC @ ''|'' @ show_int seq"

text \<open>The loop of \<open>InsertWithExpiry\<close> that looks for the oldest entry.\<close>

fun oldest_scan :: "string \<Rightarrow> time \<Rightarrow> Entry gomap \<Rightarrow> string" where
  "oldest_scan oldestKey oldest [] = oldestKey"
| "oldest_scan oldestKey oldest ((k, e) # es) =
     (if oldestKey = '''' \<or> e_LastSeen e < oldest then oldest_scan k (e_LastSeen e) es
      else oldest_scan oldestKey oldest es)"

definition InsertWithExpiry ::
    "range_order \<Rightarrow> time \<Rightarrow> Table \<Rightarrow> string \<Rightarrow> int \<Rightarrow> int \<Rightarrow> int \<Rightarrow> Table" where
  "InsertWithExpiry rng now t srcMAC seq lanID expiryMs =
     (let es = gm_put (key srcMAC seq)
                 \<lparr>e_SrcMAC = srcMAC, e_SeqNo = seq, e_LANID = lanID, e_LastSeen = now,
                  e_ExpiryMs = expiryMs\<rparr> (t_entries t)
      in if t_maxSize t > 0 \<and> int (length es) > t_maxSize t
         then t\<lparr>t_entries := AList.delete (oldest_scan '''' 0 (rng es)) es\<rparr>
         else t\<lparr>t_entries := es\<rparr>)"

definition entry_expired :: "time \<Rightarrow> Entry \<Rightarrow> bool" where
  "entry_expired now e \<longleftrightarrow> time_Sub now (e_LastSeen e) > ms_dur (e_ExpiryMs e)"

definition Find :: "time \<Rightarrow> Table \<Rightarrow> string \<Rightarrow> int \<Rightarrow> bool" where
  "Find now t srcMAC seq =
     (case gm_get (t_entries t) (key srcMAC seq) of
        None \<Rightarrow> False
      | Some entry \<Rightarrow> if entry_expired now entry then False else True)"

definition FlushFor :: "Table \<Rightarrow> string \<Rightarrow> int \<times> Table" where
  "FlushFor t srcMAC =
     (int (length (filter (\<lambda>(k, e). e_SrcMAC e = srcMAC) (t_entries t))),
      t\<lparr>t_entries := filter (\<lambda>(k, e). e_SrcMAC e \<noteq> srcMAC) (t_entries t)\<rparr>)"

definition Cleanup :: "time \<Rightarrow> Table \<Rightarrow> int \<times> Table" where
  "Cleanup now t =
     (int (length (filter (\<lambda>(k, e). entry_expired now e) (t_entries t))),
      t\<lparr>t_entries := filter (\<lambda>(k, e). \<not> entry_expired now e) (t_entries t)\<rparr>)"

definition Size :: "Table \<Rightarrow> int" where
  "Size t = int (length (t_entries t))"

section \<open>Keys\<close>

lemma key_inject: "key m s = key m' s' \<longleftrightarrow> m = m' \<and> s = s'"
proof
  assume eq: "key m s = key m' s'"
  have "takeWhile (\<lambda>c. c \<noteq> CHR ''|'') (rev (key m s)) = rev (show_int s)" for m s
    using show_int_no_bar[of s] by (simp add: key_def takeWhile_tail) (metis set_rev takeWhile_eq_all_conv takeWhile_tail)
  with eq have "show_int s = show_int s'" by (metis rev_rev_ident)
  then have "s = s'" by (rule show_int_inject)
  with eq show "m = m' \<and> s = s'" by (simp add: key_def)
qed simp

lemma key_nonempty [simp]: "key m s \<noteq> []"
  by (simp add: key_def)

section \<open>Invariant\<close>

text \<open>
  Keys are distinct and are the keys of their entries; the table holds at most \<open>maxSize\<close> of them.
\<close>

definition table_ok :: "Table \<Rightarrow> bool" where
  "table_ok t \<longleftrightarrow> gm_ok (t_entries t)
     \<and> (\<forall>(k, e) \<in> set (t_entries t). k = key (e_SrcMAC e) (e_SeqNo e))
     \<and> 0 < t_maxSize t \<and> int (length (t_entries t)) \<le> t_maxSize t"

lemma table_okD:
  assumes "table_ok t"
  shows "gm_ok (t_entries t)"
    and "(k, e) \<in> set (t_entries t) \<Longrightarrow> k = key (e_SrcMAC e) (e_SeqNo e)"
    and "0 < t_maxSize t" and "int (length (t_entries t)) \<le> t_maxSize t"
  using assms by (auto simp: table_ok_def)

lemma table_ok_new: "0 < n \<Longrightarrow> table_ok (NewTable n)"
  by (simp add: table_ok_def NewTable_def)

lemma table_ok_filter: "table_ok t \<Longrightarrow> table_ok (t\<lparr>t_entries := filter P (t_entries t)\<rparr>)"
  using length_filter_le[of P "t_entries t"]
  by (auto simp: table_ok_def gm_ok_filter simp del: length_filter_le)

lemma table_ok_Cleanup: "table_ok t \<Longrightarrow> table_ok (snd (Cleanup now t))"
  by (simp add: Cleanup_def table_ok_filter)

lemma table_ok_FlushFor: "table_ok t \<Longrightarrow> table_ok (snd (FlushFor t m))"
  by (simp add: FlushFor_def table_ok_filter)

section \<open>Eviction\<close>

text \<open>The scan returns a key of an entry no other entry is older than.\<close>

lemma oldest_scan_min:
  assumes "ok \<noteq> ''''" and "\<forall>(k, e) \<in> set es. k \<noteq> ''''"
  shows "(oldest_scan ok ot es = ok \<and> (\<forall>(k, e) \<in> set es. ot \<le> e_LastSeen e)) \<or>
    (\<exists>e. (oldest_scan ok ot es, e) \<in> set es \<and> e_LastSeen e < ot \<and>
         (\<forall>(k', e') \<in> set es. e_LastSeen e \<le> e_LastSeen e'))"
  using assms
proof (induction es arbitrary: ok ot)
  case Nil
  then show ?case by simp
next
  case (Cons ke es)
  obtain k e where ke: "ke = (k, e)" by force
  show ?case
  proof (cases "e_LastSeen e < ot")
    case True
    have "k \<noteq> ''''" "\<forall>(k, e) \<in> set es. k \<noteq> ''''" using Cons.prems ke by auto
    from Cons.IH[OF this, of "e_LastSeen e"] show ?thesis
    proof (elim disjE exE conjE)
      assume "oldest_scan k (e_LastSeen e) es = k" "\<forall>(k, e') \<in> set es. e_LastSeen e \<le> e_LastSeen e'"
      with True ke show ?thesis by (intro disjI2 exI[of _ e]) auto
    next
      fix e0
      assume *: "(oldest_scan k (e_LastSeen e) es, e0) \<in> set es" "e_LastSeen e0 < e_LastSeen e"
        "\<forall>(k', e') \<in> set es. e_LastSeen e0 \<le> e_LastSeen e'"
      with True ke show ?thesis by (intro disjI2 exI[of _ e0]) auto
    qed
  next
    case False
    have scan: "oldest_scan ok ot (ke # es) = oldest_scan ok ot es" using False ke Cons.prems by simp
    have "\<forall>(k, e) \<in> set es. k \<noteq> ''''" using Cons.prems by simp
    from Cons.IH[OF Cons.prems(1) this, of ot] show ?thesis
    proof (elim disjE exE conjE)
      assume "oldest_scan ok ot es = ok" "\<forall>(k, e) \<in> set es. ot \<le> e_LastSeen e"
      with False ke scan show ?thesis by (intro disjI1) auto
    next
      fix e0
      assume "(oldest_scan ok ot es, e0) \<in> set es" "e_LastSeen e0 < ot"
        "\<forall>(k', e') \<in> set es. e_LastSeen e0 \<le> e_LastSeen e'"
      with False ke scan show ?thesis by (intro disjI2 exI[of _ e0]) auto
    qed
  qed
qed

lemma oldest_scan_evicts:
  assumes "map_range rng" and "gm_ok es" and "es \<noteq> []" and "\<forall>(k, e) \<in> set es. k \<noteq> ''''"
  obtains e where "gm_get es (oldest_scan '''' 0 (rng es)) = Some e"
    and "\<forall>(k', e') \<in> set es. e_LastSeen e \<le> e_LastSeen e'"
proof -
  have set: "set (rng es) = set es" using assms(1) by (metis map_range_def set_mset_mset)
  with assms(3) have "rng es \<noteq> []" by auto
  then obtain k e r where r: "rng es = (k, e) # r" by (metis list.exhaust surj_pair)
  with assms(4) set have "k \<noteq> ''''" "\<forall>(k, e) \<in> set r. k \<noteq> ''''" by auto
  from oldest_scan_min[OF this, of "e_LastSeen e"]
  have "\<exists>e0. (oldest_scan k (e_LastSeen e) r, e0) \<in> set (rng es) \<and>
      (\<forall>(k', e') \<in> set (rng es). e_LastSeen e0 \<le> e_LastSeen e')"
  proof (elim disjE exE conjE)
    fix e0
    assume "(oldest_scan k (e_LastSeen e) r, e0) \<in> set r" "e_LastSeen e0 < e_LastSeen e"
      "\<forall>(k', e') \<in> set r. e_LastSeen e0 \<le> e_LastSeen e'"
    then show ?thesis by (intro exI[of _ e0]) (auto simp: r)
  qed (auto simp: r)
  then obtain e0 where "(oldest_scan k (e_LastSeen e) r, e0) \<in> set (rng es)"
    "\<forall>(k', e') \<in> set (rng es). e_LastSeen e0 \<le> e_LastSeen e'" by blast
  with r set have "(oldest_scan '''' 0 (rng es), e0) \<in> set es"
    "\<forall>(k', e') \<in> set es. e_LastSeen e0 \<le> e_LastSeen e'" by auto
  with assms(2) show thesis by (intro that) (auto simp: map_of_eq_Some_iff)
qed

lemma length_delete_present:
  assumes "gm_ok es" and "gm_get es k = Some e"
  shows "length (AList.delete k es) = length es - 1"
proof -
  have "k \<in> set (map fst es)" using assms(2) by (force dest: map_of_SomeD)
  then have "length (removeAll k (map fst es)) = length es - 1"
    using assms(1) by (simp add: distinct_remove1_removeAll[symmetric] length_remove1)
  then show ?thesis by (metis delete_keys length_map)
qed

section \<open>Insertion\<close>

definition new_entry :: "time \<Rightarrow> string \<Rightarrow> int \<Rightarrow> int \<Rightarrow> int \<Rightarrow> Entry" where
  "new_entry now m s lan ms =
     \<lparr>e_SrcMAC = m, e_SeqNo = s, e_LANID = lan, e_LastSeen = now, e_ExpiryMs = ms\<rparr>"

definition put_entry :: "time \<Rightarrow> Table \<Rightarrow> string \<Rightarrow> int \<Rightarrow> int \<Rightarrow> int \<Rightarrow> Entry gomap" where
  "put_entry now t m s lan ms = gm_put (key m s) (new_entry now m s lan ms) (t_entries t)"

lemma put_entry_props:
  assumes "table_ok t"
  shows "gm_ok (put_entry now t m s lan ms)"
    and "\<forall>(k, e) \<in> set (put_entry now t m s lan ms). k = key (e_SrcMAC e) (e_SeqNo e)"
    and "put_entry now t m s lan ms \<noteq> []"
    and "int (length (put_entry now t m s lan ms)) \<le> t_maxSize t + 1"
proof -
  show ok: "gm_ok (put_entry now t m s lan ms)"
    unfolding put_entry_def by (rule gm_ok_put) (rule table_okD(1)[OF assms])
  show "\<forall>(k, e) \<in> set (put_entry now t m s lan ms). k = key (e_SrcMAC e) (e_SeqNo e)"
  proof clarify
    fix k e assume "(k, e) \<in> set (put_entry now t m s lan ms)"
    then have "gm_get (put_entry now t m s lan ms) k = Some e" using ok by simp
    then show "k = key (e_SrcMAC e) (e_SeqNo e)"
      using table_okD(2)[OF assms] unfolding put_entry_def
      by (auto simp: new_entry_def split: if_splits dest: map_of_SomeD)
  qed
  show "put_entry now t m s lan ms \<noteq> []"
    unfolding put_entry_def by (metis length_gm_put length_greater_0_conv image_empty empty_iff list.set(1)
      zero_less_Suc)
  show "int (length (put_entry now t m s lan ms)) \<le> t_maxSize t + 1"
    using table_okD(4)[OF assms] by (simp add: put_entry_def length_gm_put)
qed

text \<open>
  An insertion stores the pair and, only when the table would pass its size, drops one entry that
  no entry is older than.
\<close>

lemma InsertWithExpiry_cases:
  assumes "table_ok t" and "map_range rng"
  obtains (room) "int (length (put_entry now t m s lan ms)) \<le> t_maxSize t"
      "InsertWithExpiry rng now t m s lan ms = t\<lparr>t_entries := put_entry now t m s lan ms\<rparr>"
  | (evict) k e where "int (length (put_entry now t m s lan ms)) = t_maxSize t + 1"
      "gm_get (put_entry now t m s lan ms) k = Some e"
      "\<forall>(k', e') \<in> set (put_entry now t m s lan ms). e_LastSeen e \<le> e_LastSeen e'"
      "InsertWithExpiry rng now t m s lan ms
        = t\<lparr>t_entries := AList.delete k (put_entry now t m s lan ms)\<rparr>"
proof (cases "int (length (put_entry now t m s lan ms)) \<le> t_maxSize t")
  case True
  then have "InsertWithExpiry rng now t m s lan ms = t\<lparr>t_entries := put_entry now t m s lan ms\<rparr>"
    by (simp add: InsertWithExpiry_def put_entry_def new_entry_def Let_def)
  with True show thesis by (rule room)
next
  case False
  let ?es = "put_entry now t m s lan ms"
  note props = put_entry_props[OF assms(1), of now m s lan ms]
  have "\<forall>(k, e) \<in> set ?es. k \<noteq> ''''"
  proof (clarify)
    fix e assume "('''', e) \<in> set ?es"
    with props(2) have "'''' = key (e_SrcMAC e) (e_SeqNo e)" by blast
    then show False by (simp add: key_def)
  qed
  then obtain e where e: "gm_get ?es (oldest_scan '''' 0 (rng ?es)) = Some e"
    "\<forall>(k', e') \<in> set ?es. e_LastSeen e \<le> e_LastSeen e'"
    by (rule oldest_scan_evicts[OF assms(2) props(1,3)])
  have "InsertWithExpiry rng now t m s lan ms
      = t\<lparr>t_entries := AList.delete (oldest_scan '''' 0 (rng ?es)) ?es\<rparr>"
    using False table_okD(3)[OF assms(1)]
    by (simp add: InsertWithExpiry_def put_entry_def new_entry_def Let_def)
  moreover have "int (length ?es) = t_maxSize t + 1" using False props(4) by simp
  ultimately show thesis by (rule evict[OF _ e, rotated])
qed

lemma table_ok_Insert:
  assumes "table_ok t" and "map_range rng"
  shows "table_ok (InsertWithExpiry rng now t m s lan ms)"
  using assms
proof (cases rule: InsertWithExpiry_cases[where now = now and m = m and s = s and lan = lan and ms = ms])
  case room
  then show ?thesis
    using put_entry_props[OF assms(1)] table_okD(3)[OF assms(1)] by (simp add: table_ok_def)
next
  case (evict k e)
  then have "int (length (AList.delete k (put_entry now t m s lan ms))) = t_maxSize t"
    using length_delete_present[OF put_entry_props(1)[OF assms(1)] evict(2)] table_okD(3)[OF assms(1)]
    by simp
  then show ?thesis
    using put_entry_props[OF assms(1), of now m s lan ms] table_okD(3)[OF assms(1)] evict(4)
    by (auto simp: table_ok_def gm_ok_filter AList.delete_eq)
qed

section \<open>Lookups\<close>

lemma entry_expired_iff:
  "ms_ok (e_ExpiryMs e) \<Longrightarrow> entry_expired now e \<longleftrightarrow> now - e_LastSeen e > ms_dur (e_ExpiryMs e)"
  using ms_dur_bounds[of "e_ExpiryMs e"] time_Sub_le_iff[of "ms_dur (e_ExpiryMs e)" now "e_LastSeen e"]
  by (auto simp: entry_expired_def minDuration_def)

lemma entry_expired_mono: "now \<le> now' \<Longrightarrow> entry_expired now e \<Longrightarrow> entry_expired now' e"
  using time_Sub_mono[of now now' "e_LastSeen e"] by (simp add: entry_expired_def)

lemma Find_iff:
  "Find now t m s \<longleftrightarrow> (\<exists>e. gm_get (t_entries t) (key m s) = Some e \<and> \<not> entry_expired now e)"
  by (simp add: Find_def split: option.split)

lemma Find_FlushFor:
  assumes "table_ok t"
  shows "Find now (snd (FlushFor t m)) m' s \<longleftrightarrow> m' \<noteq> m \<and> Find now t m' s"
proof -
  have "e_SrcMAC e = m'" if "gm_get (t_entries t) (key m' s) = Some e" for e
    using table_okD(2)[OF assms map_of_SomeD[OF that]] by (simp add: key_inject)
  then show ?thesis
    using gm_get_filter[OF table_okD(1)[OF assms], of "\<lambda>k e. e_SrcMAC e \<noteq> m" "key m' s"]
    by (auto simp: Find_iff FlushFor_def split: option.splits)
qed

lemma Find_Cleanup:
  assumes "table_ok t" and "now \<le> now'"
  shows "Find now' (snd (Cleanup now t)) m s \<longleftrightarrow> Find now' t m s"
  using gm_get_filter[OF table_okD(1)[OF assms(1)], of "\<lambda>k e. \<not> entry_expired now e" "key m s"]
    entry_expired_mono[OF assms(2)]
  by (auto simp: Find_iff Cleanup_def split: option.splits)

section \<open>How long a recorded pair survives\<close>

text \<open>
  The entries other than \<open>k\<close> that are at least as recent as \<open>t0\<close>: only they can push the entry
  of \<open>k\<close>, recorded at \<open>t0\<close>, out of the table.
\<close>

definition newer :: "Entry gomap \<Rightarrow> string \<Rightarrow> time \<Rightarrow> nat" where
  "newer es k t0 = length (filter (\<lambda>(k', e). k' \<noteq> k \<and> t0 \<le> e_LastSeen e) es)"

lemma newer_put_same: "newer (gm_put k e es) k t0 = newer es k t0"
  by (induction es) (auto simp: newer_def)

lemma newer_put: "newer (gm_put k' e es) k t0 \<le> Suc (newer es k t0)"
  by (induction es) (auto simp: newer_def)

lemma newer_filter: "newer (filter P es) k t0 \<le> newer es k t0"
  by (induction es) (auto simp: newer_def)

lemma newer_delete: "newer (AList.delete k' es) k t0 \<le> newer es k t0"
  unfolding AList.delete_eq by (rule newer_filter)

lemma newer_all:
  assumes "gm_ok es" and "gm_get es k = Some e" and "\<forall>(k', e') \<in> set es. t0 \<le> e_LastSeen e'"
  shows "newer es k t0 = length es - 1"
proof -
  have "filter (\<lambda>(k', e). k' \<noteq> k \<and> t0 \<le> e_LastSeen e) es = AList.delete k es"
    using assms(3) by (auto simp: AList.delete_eq intro: filter_cong)
  then show ?thesis using length_delete_present[OF assms(1,2)] by (simp add: newer_def)
qed

text \<open>The pair is recorded since \<open>t0\<close> with window \<open>w\<close>, and survives \<open>n\<close> further insertions.\<close>

definition held :: "Table \<Rightarrow> time \<Rightarrow> int \<Rightarrow> string \<Rightarrow> int \<Rightarrow> nat \<Rightarrow> bool" where
  "held t t0 w m s n \<longleftrightarrow> table_ok t \<and> int (newer (t_entries t) (key m s) t0 + n) < t_maxSize t
     \<and> (\<exists>e. gm_get (t_entries t) (key m s) = Some e \<and> e_LastSeen e = t0
          \<and> ms_ok (e_ExpiryMs e) \<and> ms_dur (e_ExpiryMs e) = w)"

text \<open>There is room to record the pair at \<open>now\<close> so that it survives \<open>n\<close> further insertions.\<close>

definition room_for :: "Table \<Rightarrow> time \<Rightarrow> string \<Rightarrow> int \<Rightarrow> nat \<Rightarrow> bool" where
  "room_for t now m s n \<longleftrightarrow> table_ok t \<and> int (newer (t_entries t) (key m s) now + n) < t_maxSize t"

text \<open>With a clock that moved since every entry was written there is room for the whole table.\<close>

lemma room_for_fresh:
  assumes "table_ok t" and "\<forall>(k, e) \<in> set (t_entries t). e_LastSeen e < now"
    and "int n < t_maxSize t"
  shows "room_for t now m s n"
proof -
  have "filter (\<lambda>(k', e). k' \<noteq> key m s \<and> now \<le> e_LastSeen e) (t_entries t) = []"
    using assms(2) by (auto simp: filter_empty_conv)
  then show ?thesis using assms(1,3) by (simp add: room_for_def newer_def)
qed

lemma evicted_not:
  assumes "table_ok t" and "map_range rng"
    and "gm_get (put_entry now t m' s' lan ms) (key m s) = Some e"
    and "int (newer (put_entry now t m' s' lan ms) (key m s) (e_LastSeen e)) < t_maxSize t"
  defines "es \<equiv> t_entries (InsertWithExpiry rng now t m' s' lan ms)"
  shows "gm_get es (key m s) = Some e \<and> newer es (key m s) u \<le> newer (put_entry now t m' s' lan ms) (key m s) u"
  using assms(1,2)
proof (cases rule: InsertWithExpiry_cases[where now = now and m = m' and s = s' and lan = lan and ms = ms])
  case room
  then show ?thesis using assms(3) by (simp add: es_def)
next
  case (evict k ke)
  have "k \<noteq> key m s"
  proof
    assume "k = key m s"
    with evict(2,3) assms(3) have "newer (put_entry now t m' s' lan ms) (key m s) (e_LastSeen e)
        = length (put_entry now t m' s' lan ms) - 1"
      by (intro newer_all[OF put_entry_props(1)[OF assms(1)] assms(3)]) simp
    with assms(4) evict(1) table_okD(3)[OF assms(1)] show False by simp
  qed
  then show ?thesis
    using evict(4) assms(3) newer_delete by (simp add: es_def delete_conv')
qed

lemma room_for_Insert:
  assumes "map_range rng" and "ms_ok ms" and "room_for t now m s n"
  shows "held (InsertWithExpiry rng now t m s lan ms) now (ms_dur ms) m s n"
proof -
  have ok: "table_ok t" using assms(3) by (simp add: room_for_def)
  have get: "gm_get (put_entry now t m s lan ms) (key m s) = Some (new_entry now m s lan ms)"
    by (simp add: put_entry_def)
  have nw: "newer (put_entry now t m s lan ms) (key m s) now = newer (t_entries t) (key m s) now"
    by (simp add: put_entry_def newer_put_same)
  from evicted_not[OF ok assms(1) get, where u = now] nw assms(3)
  show ?thesis
    using table_ok_Insert[OF ok assms(1)] assms(2)
    by (auto simp: held_def room_for_def new_entry_def InsertWithExpiry_def Let_def)
qed

lemma held_Insert_other:
  assumes "map_range rng" and "held t t0 w m s (Suc n)" and "(m', s') \<noteq> (m, s)"
  shows "held (InsertWithExpiry rng now t m' s' lan ms) t0 w m s n"
proof -
  from assms(2) obtain e where ok: "table_ok t" and e: "gm_get (t_entries t) (key m s) = Some e"
    "e_LastSeen e = t0" "ms_ok (e_ExpiryMs e)" "ms_dur (e_ExpiryMs e) = w"
    and n: "int (newer (t_entries t) (key m s) t0 + Suc n) < t_maxSize t"
    by (auto simp: held_def)
  have get: "gm_get (put_entry now t m' s' lan ms) (key m s) = Some e"
    using assms(3) e(1) by (auto simp: put_entry_def key_inject)
  have "newer (put_entry now t m' s' lan ms) (key m s) t0 \<le> Suc (newer (t_entries t) (key m s) t0)"
    by (simp add: put_entry_def newer_put)
  with evicted_not[OF ok assms(1) get, where u = t0] e n
  show ?thesis
    using table_ok_Insert[OF ok assms(1)]
    by (auto simp: held_def InsertWithExpiry_def Let_def)
qed

lemma held_Find: "held t t0 w m s n \<Longrightarrow> now - t0 \<le> w \<Longrightarrow> Find now t m s"
  by (auto simp: held_def Find_iff entry_expired_iff)

lemma held_Cleanup:
  assumes "held t t0 w m s n" and "now - t0 \<le> w"
  shows "held (snd (Cleanup now t)) t0 w m s n"
proof -
  from assms(1) obtain e where ok: "table_ok t" and e: "gm_get (t_entries t) (key m s) = Some e"
    "e_LastSeen e = t0" "ms_ok (e_ExpiryMs e)" "ms_dur (e_ExpiryMs e) = w"
    and n: "int (newer (t_entries t) (key m s) t0 + n) < t_maxSize t"
    by (auto simp: held_def)
  have "\<not> entry_expired now e" using e assms(2) by (simp add: entry_expired_iff)
  with e(1) gm_get_filter[OF table_okD(1)[OF ok], of "\<lambda>k e. \<not> entry_expired now e" "key m s"]
  have get: "gm_get (t_entries (snd (Cleanup now t))) (key m s) = Some e"
    by (simp add: Cleanup_def)
  have "newer (t_entries (snd (Cleanup now t))) (key m s) t0 \<le> newer (t_entries t) (key m s) t0"
    by (simp add: Cleanup_def newer_filter)
  with get e(2-4) n table_ok_Cleanup[OF ok] show ?thesis
    by (auto simp: held_def Cleanup_def)
qed

section \<open>The contract of a duplicate filter\<close>

text \<open>
  What the frame handlers rely on, whatever the filter is made of: each insertion has an
  environment \<open>e\<close> (the clock, the map order, the configured lifetime); a pair inserted while there
  is room is held, a held pair is found within its window and survives insertions of other pairs
  up to its slack.
\<close>

locale dup_window =
  fixes find :: "'e \<Rightarrow> 't \<Rightarrow> string \<Rightarrow> int \<Rightarrow> bool"
    and ins :: "'e \<Rightarrow> 't \<Rightarrow> string \<Rightarrow> int \<Rightarrow> 't"
    and clk :: "'e \<Rightarrow> time"
    and win :: "'e \<Rightarrow> int"
    and env_ok :: "'e \<Rightarrow> bool"
    and room :: "'t \<Rightarrow> time \<Rightarrow> string \<Rightarrow> int \<Rightarrow> nat \<Rightarrow> bool"
    and hold :: "'t \<Rightarrow> time \<Rightarrow> int \<Rightarrow> string \<Rightarrow> int \<Rightarrow> nat \<Rightarrow> bool"
  assumes ins_holds: "env_ok e \<Longrightarrow> room t (clk e) m s n \<Longrightarrow> hold (ins e t m s) (clk e) (win e) m s n"
    and hold_other: "env_ok e \<Longrightarrow> hold t t0 w m s (Suc n) \<Longrightarrow> (m', s') \<noteq> (m, s)
      \<Longrightarrow> hold (ins e t m' s') t0 w m s n"
    and hold_find: "hold t t0 w m s n \<Longrightarrow> clk e - t0 \<le> w \<Longrightarrow> find e t m s"
    and hold_weaken: "hold t t0 w m s (Suc n) \<Longrightarrow> hold t t0 w m s n"
begin

text \<open>A receiver offers each frame's pair to the filter: accepted, and recorded, iff not found.\<close>

definition offer :: "'e \<Rightarrow> 't \<Rightarrow> string \<Rightarrow> int \<Rightarrow> bool \<times> 't" where
  "offer e t m s = (if find e t m s then (False, t) else (True, ins e t m s))"

fun offers :: "'t \<Rightarrow> ('e \<times> string \<times> int) list \<Rightarrow> (bool \<times> string \<times> int) list" where
  "offers t [] = []"
| "offers t ((e, m, s) # xs) = (fst (offer e t m s), m, s) # offers (snd (offer e t m s)) xs"

lemma length_offers [simp]: "length (offers t xs) = length xs"
  by (induction t xs rule: offers.induct) auto

text \<open>
  While a pair is held, no offer of it is accepted as long as its window is open and no more other
  pairs are offered than its slack.
\<close>

lemma held_never_accepted:
  assumes "hold t t0 w m s (length (filter (\<lambda>(e, m', s'). (m', s') \<noteq> (m, s)) xs))"
    and "\<forall>(e, m', s') \<in> set xs. env_ok e \<and> clk e - t0 \<le> w"
  shows "(True, m, s) \<notin> set (offers t xs)"
  using assms
proof (induction xs arbitrary: t)
  case Nil
  then show ?case by simp
next
  case (Cons x xs)
  obtain e m' s' where x: "x = (e, m', s')" by (metis prod_cases3)
  from Cons.prems(2) x have e: "env_ok e" "clk e - t0 \<le> w"
    and rest: "\<forall>(e, m', s') \<in> set xs. env_ok e \<and> clk e - t0 \<le> w" by auto
  show ?case
  proof (cases "(m', s') = (m, s)")
    case True
    then have "find e t m s" using Cons.prems(1) e x by (auto intro: hold_find)
    then have "offer e t m s = (False, t)" by (simp add: offer_def)
    moreover have "(True, m, s) \<notin> set (offers t xs)"
      using Cons.prems(1) rest True x by (intro Cons.IH) auto
    ultimately show ?thesis using True x by simp
  next
    case False
    let ?n = "length (filter (\<lambda>(e, m', s'). (m', s') \<noteq> (m, s)) xs)"
    have h: "hold t t0 w m s (Suc ?n)" using Cons.prems(1) False x by simp
    then have "hold (snd (offer e t m' s')) t0 w m s ?n"
      using hold_other[OF e(1) h False] hold_weaken[OF h] by (simp add: offer_def)
    then have "(True, m, s) \<notin> set (offers (snd (offer e t m' s')) xs)"
      using rest by (rule Cons.IH)
    with False x show ?thesis by auto
  qed
qed

text \<open>An accepted pair is accepted exactly once in the run that starts with it.\<close>

lemma accepted_exactly_once:
  assumes "env_ok e" and "\<not> find e t m s"
    and "room t (clk e) m s (length (filter (\<lambda>(e, m', s'). (m', s') \<noteq> (m, s)) xs))"
    and "\<forall>(e', m', s') \<in> set xs. env_ok e' \<and> clk e' - clk e \<le> win e"
  shows "filter (\<lambda>x. x = (True, m, s)) (offers t ((e, m, s) # xs)) = [(True, m, s)]"
proof -
  have "(True, m, s) \<notin> set (offers (ins e t m s) xs)"
    by (rule held_never_accepted[OF ins_holds[OF assms(1,3)] assms(4)])
  then have "filter (\<lambda>x. x = (True, m, s)) (offers (ins e t m s) xs) = []"
    by (auto simp: filter_empty_conv)
  then show ?thesis using assms(2) by (simp add: offer_def)
qed

text \<open>Insertions of other pairs, as many as the slack allows, leave the pair held.\<close>

lemma hold_ins_all:
  assumes "hold t t0 w m s (length xs + n)" and "\<forall>(e, m', s') \<in> set xs. env_ok e \<and> (m', s') \<noteq> (m, s)"
  shows "hold (fold (\<lambda>(e, m', s') t. ins e t m' s') xs t) t0 w m s n"
  using assms
proof (induction xs arbitrary: t)
  case Nil
  then show ?case by simp
next
  case (Cons x xs)
  obtain e m' s' where x: "x = (e, m', s')" by (metis prod_cases3)
  then have "hold (ins e t m' s') t0 w m s (length xs + n)"
    using Cons.prems by (intro hold_other) auto
  with Cons.IH Cons.prems(2) x show ?case by simp
qed

end

text \<open>The elements of a list at their first occurrence, without those of a set.\<close>

fun first_occ :: "'p set \<Rightarrow> 'p list \<Rightarrow> 'p list" where
  "first_occ S [] = []"
| "first_occ S (x # xs) = (if x \<in> S then first_occ S xs else x # first_occ (insert x S) xs)"

lemma set_first_occ: "set (first_occ S xs) = set xs - S"
  by (induction S xs rule: first_occ.induct) auto

lemma distinct_first_occ: "distinct (first_occ S xs)"
  by (induction S xs rule: first_occ.induct) (auto simp: set_first_occ)

text \<open>
  The ideal memory of a duplicate filter: of every pair, when it was last accepted and for how long
  that lasts. It never forgets a pair to make room for another.
\<close>

definition remembered :: "(string \<times> int \<rightharpoonup> time \<times> int) \<Rightarrow> time \<Rightarrow> string \<times> int \<Rightarrow> bool" where
  "remembered M now p = (case M p of None \<Rightarrow> False | Some (t0, w) \<Rightarrow> now - t0 \<le> w)"

text \<open>
  A run of offers, each a time, the lifetime of its record and a pair, that a filter of size \<open>cap\<close> can
  serve: between an offer and a later one of the same pair within its lifetime there are fewer than
  \<open>cap\<close> offers of other pairs, counting also the earlier ones that were made at the same clock reading
  or a later one (\<open>past\<close> has the times of the offers before the run).
\<close>

fun table_room :: "nat \<Rightarrow> time list \<Rightarrow> ((time \<times> int) \<times> 'p) list \<Rightarrow> bool" where
  "table_room cap past [] = True"
| "table_room cap past (((t, w), p) # xs) =
     ((\<forall>j < length xs. snd (xs ! j) = p \<and> fst (fst (xs ! j)) - t \<le> w \<longrightarrow>
         length (filter ((\<le>) t) past) + length (filter (\<lambda>x. snd x \<noteq> p) (take j xs)) < cap)
      \<and> table_room cap (t # past) xs)"

text \<open>A short run of offers is always served.\<close>

lemma table_room_short: "length past + length xs \<le> cap \<Longrightarrow> table_room cap past xs"
proof (induction cap past xs rule: table_room.induct)
  case (2 cap past t w p xs)
  have "length (filter ((\<le>) t) past) + length (filter (\<lambda>x. snd x \<noteq> p) (take j xs)) < cap" for j
    using "2.prems" length_filter_le[of "(\<le>) t" past] length_filter_le[of "\<lambda>x. snd x \<noteq> p" "take j xs"]
    by (simp del: length_filter_le)
  with 2 show ?case by simp
qed simp

text \<open>
  A filter of bounded size that drops the oldest entry when it is full. \<open>recd\<close> is what it has recorded
  of a pair, \<open>recent\<close> counts its entries from a time on. As long as it has room it cannot be told from
  the ideal memory: the client's refinement argument, shared by the PRP and the HSR receive paths.
\<close>

locale dup_table = dup_window +
  fixes inv :: "'b \<Rightarrow> bool"
    and cap :: "'b \<Rightarrow> nat"
    and recd :: "'b \<Rightarrow> string \<times> int \<rightharpoonup> time \<times> int"
    and recent :: "'b \<Rightarrow> time \<Rightarrow> nat"
  assumes inv_ins: "env_ok e \<Longrightarrow> inv t \<Longrightarrow> inv (ins e t m s)"
    and cap_ins: "cap (ins e t m s) = cap t"
    and recent_room: "inv t \<Longrightarrow> recent t now + n < cap t \<Longrightarrow> room t now m s n"
    and recent_ins: "env_ok e \<Longrightarrow> inv t \<Longrightarrow> recent (ins e t m s) now \<le> recent t now + (if now \<le> clk e then 1 else 0)"
    and find_recd: "inv t \<Longrightarrow> find e t m s \<Longrightarrow> remembered (recd t) (clk e) (m, s)"
    and recd_ins: "env_ok e \<Longrightarrow> inv t \<Longrightarrow> recd (ins e t m s) \<subseteq>\<^sub>m (recd t)((m, s) \<mapsto> (clk e, win e))"
begin

text \<open>A pair recorded at \<open>t0\<close> is held until the last of the offers \<open>xs\<close> that falls into its window.\<close>

definition served :: "'b \<Rightarrow> time \<Rightarrow> int \<Rightarrow> string \<times> int \<Rightarrow> ('a \<times> string \<times> int) list \<Rightarrow> bool" where
  "served t t0 w p xs \<longleftrightarrow> (\<forall>j < length xs. snd (xs ! j) = p \<and> clk (fst (xs ! j)) - t0 \<le> w \<longrightarrow>
     hold t t0 w (fst p) (snd p) (length (filter (\<lambda>x. snd x \<noteq> p) (take j xs))))"

text \<open>The filter \<open>t\<close> stands for the ideal memory \<open>M\<close> during the offers \<open>xs\<close>.\<close>

definition stamped :: "('a \<times> 'p) list \<Rightarrow> ((time \<times> int) \<times> 'p) list" where
  "stamped = map (\<lambda>(e, p). ((clk e, win e), p))"

lemma stamped_simps [simp]:
  "stamped [] = []" "stamped ((e, p) # xs) = ((clk e, win e), p) # stamped xs" "length (stamped xs) = length xs"
  "i < length xs \<Longrightarrow> snd (stamped xs ! i) = snd (xs ! i)"
  "i < length xs \<Longrightarrow> fst (fst (stamped xs ! i)) = clk (fst (xs ! i))"
  by (simp_all add: stamped_def case_prod_beta)

lemma stamped_others [simp]:
  "length (filter (\<lambda>x. snd x \<noteq> p) (take j (stamped xs))) = length (filter (\<lambda>x. snd x \<noteq> p) (take j xs))"
  by (simp add: stamped_def take_map filter_map comp_def case_prod_beta)

definition stands_for :: "'b \<Rightarrow> (string \<times> int \<rightharpoonup> time \<times> int) \<Rightarrow> time list \<Rightarrow> ('a \<times> string \<times> int) list \<Rightarrow> bool" where
  "stands_for t M past xs \<longleftrightarrow> inv t \<and> recd t \<subseteq>\<^sub>m M
     \<and> (\<forall>p t0 w. M p = Some (t0, w) \<longrightarrow> served t t0 w p xs)
     \<and> (\<forall>now. recent t now \<le> length (filter ((\<le>) now) past))
     \<and> table_room (cap t) past (stamped xs)"

lemma served_skip:
  assumes "served t t0 w p (x # xs)"
  shows "served t t0 w p xs"
  unfolding served_def
proof (intro allI impI)
  fix j
  assume "j < length xs" "snd (xs ! j) = p \<and> clk (fst (xs ! j)) - t0 \<le> w"
  then have "hold t t0 w (fst p) (snd p) (length (filter (\<lambda>x. snd x \<noteq> p) (take (Suc j) (x # xs))))"
    using assms[unfolded served_def, rule_format, of "Suc j"] by simp
  then show "hold t t0 w (fst p) (snd p) (length (filter (\<lambda>x. snd x \<noteq> p) (take j xs)))"
    using hold_weaken by (auto split: if_splits)
qed

lemma served_other:
  assumes "served t t0 w p ((e, m, s) # xs)" and "env_ok e" and "(m, s) \<noteq> p"
  shows "served (ins e t m s) t0 w p xs"
  unfolding served_def
proof (intro allI impI)
  fix j
  assume "j < length xs" "snd (xs ! j) = p \<and> clk (fst (xs ! j)) - t0 \<le> w"
  then have "hold t t0 w (fst p) (snd p) (Suc (length (filter (\<lambda>x. snd x \<noteq> p) (take j xs))))"
    using assms(1)[unfolded served_def, rule_format, of "Suc j"] assms(3) by simp
  then show "hold (ins e t m s) t0 w (fst p) (snd p) (length (filter (\<lambda>x. snd x \<noteq> p) (take j xs)))"
    using assms(2,3) by (intro hold_other) auto
qed

lemma served_ins:
  assumes "stands_for t M past ((e, m, s) # xs)" and "env_ok e"
  shows "served (ins e t m s) (clk e) (win e) (m, s) xs"
  unfolding served_def
proof (intro allI impI)
  fix j
  let ?n = "length (filter (\<lambda>x. snd x \<noteq> (m, s)) (take j xs))"
  assume j: "j < length xs" "snd (xs ! j) = (m, s) \<and> clk (fst (xs ! j)) - clk e \<le> win e"
  from assms(1) have t: "inv t" "recent t (clk e) \<le> length (filter ((\<le>) (clk e)) past)"
    "table_room (cap t) past (stamped ((e, m, s) # xs))" by (simp_all add: stands_for_def)
  have "length (filter ((\<le>) (clk e)) past) + ?n < cap t" using t(3) j by simp
  then have "room t (clk e) m s ?n" using t(1,2) by (intro recent_room) simp_all
  then show "hold (ins e t m s) (clk e) (win e) (fst (m, s)) (snd (m, s)) ?n"
    using assms(2) by (simp add: ins_holds)
qed

lemma recent_past:
  assumes "recent t now \<le> length (filter ((\<le>) now) past)" and "env_ok e" and "inv t"
  shows "recent (ins e t m s) now \<le> length (filter ((\<le>) now) (clk e # past))"
  using assms(1) recent_ins[OF assms(2,3), of m s now] by (auto split: if_splits)

text \<open>A pair the memory has in its window is found, and nothing changes; another is not found, and recorded.\<close>

lemma stands_for_find:
  assumes "stands_for t M past ((e, m, s) # xs)"
  shows "find e t m s \<longleftrightarrow> remembered M (clk e) (m, s)"
proof
  assume "find e t m s"
  moreover from assms have "inv t" "recd t \<subseteq>\<^sub>m M" by (simp_all add: stands_for_def)
  ultimately have "remembered (recd t) (clk e) (m, s)" "recd t \<subseteq>\<^sub>m M" using find_recd by blast+
  then show "remembered M (clk e) (m, s)"
    by (auto simp: remembered_def map_le_def dom_def split: option.splits)
next
  assume "remembered M (clk e) (m, s)"
  then obtain t0 w where M: "M (m, s) = Some (t0, w)" "clk e - t0 \<le> w" by (auto simp: remembered_def split: option.splits)
  then have "hold t t0 w m s 0"
    using assms[unfolded stands_for_def served_def] by force
  then show "find e t m s" using M(2) by (rule hold_find)
qed

lemma stands_for_dup: "stands_for t M past (x # xs) \<Longrightarrow> stands_for t M (clk (fst x) # past) xs"
  unfolding stands_for_def using served_skip[where x = x and xs = xs]
  by (cases x) (auto intro: le_SucI simp del: split_paired_All)

lemma stands_for_new:
  assumes "stands_for t M past ((e, m, s) # xs)" and "env_ok e"
  shows "stands_for (ins e t m s) (M((m, s) \<mapsto> (clk e, win e))) (clk e # past) xs"
proof -
  from assms(1) have t: "inv t" "recd t \<subseteq>\<^sub>m M" "\<And>now. recent t now \<le> length (filter ((\<le>) now) past)"
    "table_room (cap t) past (stamped ((e, m, s) # xs))"
    and old: "\<And>p t0 w. M p = Some (t0, w) \<Longrightarrow> served t t0 w p ((e, m, s) # xs)"
    by (simp_all add: stands_for_def del: split_paired_All)
  have "(recd t)((m, s) \<mapsto> (clk e, win e)) \<subseteq>\<^sub>m M((m, s) \<mapsto> (clk e, win e))"
    using t(2) by (rule map_le_upd)
  then have "recd (ins e t m s) \<subseteq>\<^sub>m M((m, s) \<mapsto> (clk e, win e))"
    using recd_ins[OF assms(2) t(1)] by (rule map_le_trans[rotated])
  moreover have "served (ins e t m s) t0 w p xs" if "(M((m, s) \<mapsto> (clk e, win e))) p = Some (t0, w)" for p t0 w
    using that served_ins[OF assms] served_other[OF old assms(2)] by (cases "p = (m, s)") auto
  moreover have "recent (ins e t m s) now \<le> length (filter ((\<le>) now) (clk e # past))" for now
    using t(3) assms(2) t(1) by (rule recent_past)
  ultimately show ?thesis
    using inv_ins[OF assms(2) t(1)] t(4) by (simp add: stands_for_def cap_ins)
qed

text \<open>A filter without entries stands for the empty memory.\<close>

definition blank :: "'b \<Rightarrow> bool" where
  "blank t \<longleftrightarrow> inv t \<and> recd t = Map.empty \<and> (\<forall>now. recent t now = 0)"

lemma blank_stands_for: "blank t \<Longrightarrow> table_room (cap t) [] (stamped xs) \<Longrightarrow> stands_for t Map.empty [] xs"
  by (simp add: blank_def stands_for_def)

end

text \<open>The node table is such a filter.\<close>

record table_env =
  te_now :: time
  te_rng :: range_order
  te_lan :: int
  te_ms :: int

definition te_ok :: "table_env \<Rightarrow> bool" where
  "te_ok e \<longleftrightarrow> map_range (te_rng e) \<and> ms_ok (te_ms e)"

definition te_find :: "table_env \<Rightarrow> Table \<Rightarrow> string \<Rightarrow> int \<Rightarrow> bool" where
  "te_find e t m s = Find (te_now e) t m s"

definition te_ins :: "table_env \<Rightarrow> Table \<Rightarrow> string \<Rightarrow> int \<Rightarrow> Table" where
  "te_ins e t m s = InsertWithExpiry (te_rng e) (te_now e) t m s (te_lan e) (te_ms e)"

lemma newer_le: "newer es k t0 \<le> length es"
  by (simp add: newer_def)

lemma Insert_get_other:
  assumes "table_ok t" and "map_range rng" and "(m', s') \<noteq> (m, s)"
    and "gm_get (t_entries (InsertWithExpiry rng now t m s lan ms)) (key m' s') = Some x"
  shows "gm_get (t_entries t) (key m' s') = Some x"
  using assms(1,2)
proof (cases rule: InsertWithExpiry_cases[where now = now and m = m and s = s and lan = lan and ms = ms])
  case room
  then show ?thesis using assms(3,4) by (auto simp: put_entry_def key_inject)
next
  case (evict k e)
  then show ?thesis
    using assms(3,4) by (auto simp: put_entry_def key_inject delete_conv' split: if_splits)
qed

definition table_inv :: "Table \<Rightarrow> bool" where
  "table_inv t \<longleftrightarrow> table_ok t \<and> (\<forall>(k, e) \<in> set (t_entries t). ms_ok (e_ExpiryMs e))"

definition table_recd :: "Table \<Rightarrow> string \<times> int \<rightharpoonup> time \<times> int" where
  "table_recd t = (\<lambda>(m, s). map_option (\<lambda>e. (e_LastSeen e, ms_dur (e_ExpiryMs e))) (gm_get (t_entries t) (key m s)))"

definition table_recent :: "Table \<Rightarrow> time \<Rightarrow> nat" where
  "table_recent t now = length (filter (\<lambda>(k, e). now \<le> e_LastSeen e) (t_entries t))"

lemma set_Insert:
  assumes "table_ok t" and "map_range rng"
  shows "set (t_entries (InsertWithExpiry rng now t m s lan ms)) \<subseteq> set (put_entry now t m s lan ms)"
  using assms
  by (cases rule: InsertWithExpiry_cases[where now = now and m = m and s = s and lan = lan and ms = ms])
    (auto simp: AList.delete_eq)

lemma Insert_get:
  assumes "table_ok t" and "map_range rng"
    and "gm_get (t_entries (InsertWithExpiry rng now t m s lan ms)) k = Some x"
  shows "gm_get (put_entry now t m s lan ms) k = Some x"
  using assms(1,2)
  by (cases rule: InsertWithExpiry_cases[where now = now and m = m and s = s and lan = lan and ms = ms])
    (use assms(3) in \<open>auto simp: delete_conv' split: if_splits\<close>)

lemma set_gm_put: "set (gm_put k v m) \<subseteq> insert (k, v) (set m)"
  by (induction m) auto

lemma recent_put:
  "length (filter (\<lambda>(k, e). now \<le> e_LastSeen e) (gm_put k v es))
    \<le> length (filter (\<lambda>(k, e). now \<le> e_LastSeen e) es) + (if now \<le> e_LastSeen v then 1 else 0)"
  by (induction es) auto

lemma recent_Insert:
  assumes "table_ok t" and "map_range rng"
  shows "table_recent (InsertWithExpiry rng now t m s lan ms) u \<le> table_recent t u + (if u \<le> now then 1 else 0)"
proof -
  have del: "length (filter P (AList.delete k es)) \<le> length (filter P es)" for P k and es :: "Entry gomap"
    by (induction es) (auto simp: AList.delete_eq)
  have "table_recent (InsertWithExpiry rng now t m s lan ms) u
      \<le> length (filter (\<lambda>(k, e). u \<le> e_LastSeen e) (put_entry now t m s lan ms))"
    using assms
    by (cases rule: InsertWithExpiry_cases[where now = now and m = m and s = s and lan = lan and ms = ms])
      (simp_all add: table_recent_def del)
  then show ?thesis
    using recent_put[of u "key m s" "new_entry now m s lan ms" "t_entries t"]
    unfolding put_entry_def table_recent_def by (simp add: new_entry_def)
qed

lemma newer_le_recent: "newer (t_entries t) k now \<le> table_recent t now"
proof -
  have "newer es k now \<le> length (filter (\<lambda>(k, e). now \<le> e_LastSeen e) es)" for es
    unfolding newer_def by (induction es) auto
  then show ?thesis by (simp add: table_recent_def)
qed

lemma maxSize_Insert [simp]: "t_maxSize (InsertWithExpiry rng now t m s lan ms) = t_maxSize t"
  by (simp add: InsertWithExpiry_def Let_def)

interpretation nt: dup_table te_find te_ins te_now "\<lambda>e. ms_dur (te_ms e)" te_ok room_for held
  table_inv "\<lambda>t. nat (t_maxSize t)" table_recd table_recent
proof unfold_locales
  show "held (te_ins e t m s) (te_now e) (ms_dur (te_ms e)) m s n"
    if "te_ok e" "room_for t (te_now e) m s n" for e t m s n
    using that by (simp add: te_ok_def te_ins_def room_for_Insert)
  show "held (te_ins e t m' s') t0 w m s n"
    if "te_ok e" "held t t0 w m s (Suc n)" "(m', s') \<noteq> (m, s)" for e t t0 w m s n m' s'
    using that unfolding te_ok_def te_ins_def by (intro held_Insert_other) auto
  show "te_find e t m s" if "held t t0 w m s n" "te_now e - t0 \<le> w" for t t0 w m s n e
    using that by (simp add: te_find_def held_Find)
  show "held t t0 w m s n" if "held t t0 w m s (Suc n)" for t t0 w m s n
    using that by (simp add: held_def)
  show "table_inv (te_ins e t m s)" if "te_ok e" "table_inv t" for e t m s
    using that set_Insert[of t "te_rng e" "te_now e" m s "te_lan e" "te_ms e"]
      set_gm_put[of "key m s" "new_entry (te_now e) m s (te_lan e) (te_ms e)" "t_entries t"]
    by (auto simp: te_ok_def te_ins_def table_inv_def table_ok_Insert put_entry_def new_entry_def)
  show "nat (t_maxSize (te_ins e t m s)) = nat (t_maxSize t)" for e t m s
    by (simp add: te_ins_def)
  show "room_for t now m s n" if "table_inv t" "table_recent t now + n < nat (t_maxSize t)" for t n now m s
    using that newer_le_recent[of t "key m s" now] by (simp add: room_for_def table_inv_def)
  show "table_recent (te_ins e t m s) now \<le> table_recent t now + (if now \<le> te_now e then 1 else 0)"
    if "te_ok e" "table_inv t" for e t m s now
    using that by (simp add: te_ok_def te_ins_def table_inv_def recent_Insert)
  show "remembered (table_recd t) (te_now e) (m, s)" if "table_inv t" "te_find e t m s" for t e m s
    using that by (force simp: te_find_def Find_iff table_inv_def remembered_def table_recd_def entry_expired_iff dest: map_of_SomeD)
  show "table_recd (te_ins e t m s) \<subseteq>\<^sub>m (table_recd t)((m, s) \<mapsto> (te_now e, ms_dur (te_ms e)))"
    if "te_ok e" "table_inv t" for e t m s
  proof (unfold map_le_def, intro ballI)
    fix p
    assume "p \<in> dom (table_recd (te_ins e t m s))"
    then obtain m' s' x where p: "p = (m', s')" "gm_get (t_entries (te_ins e t m s)) (key m' s') = Some x"
      by (cases p) (auto simp: table_recd_def)
    then have "gm_get (put_entry (te_now e) t m s (te_lan e) (te_ms e)) (key m' s') = Some x"
      using that Insert_get by (auto simp: te_ins_def te_ok_def table_inv_def)
    then show "table_recd (te_ins e t m s) p = ((table_recd t)((m, s) \<mapsto> (te_now e, ms_dur (te_ms e)))) p"
      using p by (auto simp: table_recd_def put_entry_def key_inject new_entry_def)
  qed
qed

lemma blank_NewTable: "0 < k \<Longrightarrow> nt.blank (NewTable k)"
  using table_ok_new[of k]
  by (simp add: nt.blank_def table_inv_def table_recd_def table_recent_def fun_eq_iff) (simp add: NewTable_def)

section \<open>Properties\<close>

text \<open>
  C12. The duplicate window: a pair recorded at \<open>t0\<close>, after every entry the table holds, is found
  from then on exactly as long as its lifetime lasts, whatever fewer than \<open>maxSize\<close> insertions of
  other pairs follow, at whatever times and in whatever order the runtime ranges over the map.
\<close>

theorem recorded_pair_window:
  assumes "table_ok t" and "\<forall>(k, e) \<in> set (t_entries t). e_LastSeen e < t0" and "map_range rng" and "ms_ok ms"
    and "\<forall>(e, m', s') \<in> set xs. te_ok e \<and> (m', s') \<noteq> (m, s)" and "int (length xs) < t_maxSize t"
  shows "Find now (fold (\<lambda>(e, m', s') t. te_ins e t m' s') xs (InsertWithExpiry rng t0 t m s lan ms)) m s
    \<longleftrightarrow> now - t0 \<le> ms_dur ms"
proof -
  have "held (InsertWithExpiry rng t0 t m s lan ms) t0 (ms_dur ms) m s (length xs + 0)"
    using assms by (intro room_for_Insert room_for_fresh) simp_all
  then have "held (fold (\<lambda>(e, m', s') t. te_ins e t m' s') xs (InsertWithExpiry rng t0 t m s lan ms)) t0 (ms_dur ms) m s 0"
    using assms(5) by (rule nt.hold_ins_all)
  then show ?thesis by (auto simp: held_def Find_iff entry_expired_iff)
qed

definition ex_te :: "time \<Rightarrow> table_env" where
  "ex_te t = \<lparr>te_now = t, te_rng = rev, te_lan = 0, te_ms = 640\<rparr>"

lemma recorded_pair_window_witness:
  "Find 640000010 (fold (\<lambda>(e, m', s') t. te_ins e t m' s') [(ex_te 11, ''b'', 1), (ex_te 12, ''b'', 2)]
      (InsertWithExpiry id 10 (NewTable 3) ''a'' 7 0 640)) ''a'' 7
   \<and> \<not> Find 640000011 (fold (\<lambda>(e, m', s') t. te_ins e t m' s') [(ex_te 11, ''b'', 1), (ex_te 12, ''b'', 2)]
      (InsertWithExpiry id 10 (NewTable 3) ''a'' 7 0 640)) ''a'' 7"
proof -
  have "table_ok (NewTable 3)" "\<forall>(k, e) \<in> set (t_entries (NewTable 3)). e_LastSeen e < 10" "t_maxSize (NewTable 3) = 3"
    by (simp_all add: table_ok_new) (simp_all add: NewTable_def)
  moreover have "map_range id" "map_range rev" "ms_ok 640" "ms_dur 640 = 640000000"
    by (simp_all add: map_range_def ms_ok_def ms_dur_def i64_def)
  ultimately show ?thesis
    using recorded_pair_window[of "NewTable 3" 10 id 640 "[(ex_te 11, ''b'', 1), (ex_te 12, ''b'', 2)]" "''a''" 7]
    by (simp add: te_ok_def ex_te_def)
qed

text \<open>
  C13. Insertion and eviction: the table keeps its invariant and its bound; every pair keeps its
  entry except the inserted one, which is renewed, and at most one victim, dropped only when the
  table is full and then an entry no other one is older than.
\<close>

theorem insert_evicts_oldest:
  assumes "table_ok t" and "map_range rng"
  shows "\<exists>victim. table_ok (InsertWithExpiry rng now t m s lan ms)
    \<and> (\<forall>k. gm_get (t_entries (InsertWithExpiry rng now t m s lan ms)) k =
        (if Some k = victim then None else if k = key m s then Some (new_entry now m s lan ms) else gm_get (t_entries t) k))
    \<and> (\<forall>k. victim = Some k \<longrightarrow> Size t = t_maxSize t \<and> gm_get (t_entries t) (key m s) = None \<and>
        (\<exists>e. (if k = key m s then Some (new_entry now m s lan ms) else gm_get (t_entries t) k) = Some e \<and>
          (\<forall>(k', e') \<in> set (t_entries t). e_LastSeen e \<le> e_LastSeen e')))"
  using assms
proof (cases rule: InsertWithExpiry_cases[where now = now and m = m and s = s and lan = lan and ms = ms])
  case room
  then show ?thesis
    using table_ok_Insert[OF assms, of now m s lan ms] by (intro exI[of _ None]) (auto simp: put_entry_def)
next
  case (evict k e)
  have fresh: "gm_get (t_entries t) (key m s) = None"
  proof (rule ccontr)
    assume "gm_get (t_entries t) (key m s) \<noteq> None"
    then have "length (put_entry now t m s lan ms) = length (t_entries t)"
      by (auto simp: put_entry_def length_gm_put map_of_eq_None_iff dest: map_of_SomeD intro: rev_image_eqI)
    with evict(1) table_okD(4)[OF assms(1)] show False by simp
  qed
  then have nk: "key m s \<notin> fst ` set (t_entries t)" by (simp add: map_of_eq_None_iff)
  then have "Size t = t_maxSize t"
    using evict(1) by (simp add: put_entry_def length_gm_put Size_def)
  moreover have "set (t_entries t) \<subseteq> set (put_entry now t m s lan ms)"
    using nk by (auto simp: put_entry_def gm_put_new)
  ultimately show ?thesis
    using evict fresh table_ok_Insert[OF assms, of now m s lan ms]
    by (intro exI[of _ "Some k"]) (auto simp: put_entry_def delete_conv')
qed

lemma insert_evicts_oldest_witness:
  "\<exists>victim. table_ok (InsertWithExpiry rev 9 (InsertWithExpiry id 5 (NewTable 1) ''a'' 1 0 640) ''b'' 2 0 640)
    \<and> (\<forall>k. gm_get (t_entries (InsertWithExpiry rev 9 (InsertWithExpiry id 5 (NewTable 1) ''a'' 1 0 640) ''b'' 2 0 640)) k =
        (if Some k = victim then None else if k = key ''b'' 2 then Some (new_entry 9 ''b'' 2 0 640)
         else gm_get (t_entries (InsertWithExpiry id 5 (NewTable 1) ''a'' 1 0 640)) k))"
proof -
  have "table_ok (InsertWithExpiry id 5 (NewTable 1) ''a'' 1 0 640)"
    by (intro table_ok_Insert) (simp_all add: table_ok_new map_range_def)
  moreover have "map_range rev" by (simp add: map_range_def)
  ultimately show ?thesis using insert_evicts_oldest by blast
qed



end
