(* ===== verification/EngineHSR.thy ===== *)
theory EngineHSR
  imports Engine
begin

text \<open>
  \<open>internal/engine/hsr.go\<close>: the HSR tag (EtherType 0x892F, 4-bit path, 12-bit LSDU size, sequence
  number, encapsulated EtherType), its decoding, the two path rewrites and the removal of the tag.
\<close>

unbundle bit_operations_syntax

definition HSREtherType :: u16 where "HSREtherType = 0x892f"
definition HSRTagLen :: nat where "HSRTagLen = 6"
definition HSRV1SupLSDUSize :: nat where "HSRV1SupLSDUSize = 52"

lemmas hsr_consts = HSREtherType_def HSRTagLen_def

definition EncodeHSR :: "bytes \<Rightarrow> int \<Rightarrow> u16 \<Rightarrow> u16 \<Rightarrow> bytes" where
  "EncodeHSR payload path seq encapProto =
     (let lsdu = HSRTagLen + length payload;
          word = push_bit 12 (word_of_int (path AND 0x0F)) OR (of_nat lsdu AND 0x0FFF);
          tag = put16 word @ put16 seq @ put16 encapProto
      in put16 HSREtherType @ tag @ payload)"

definition hsrTagOffset :: "bytes \<Rightarrow> engine_error + nat" where
  "hsrTagOffset frame =
     (if length frame < 14 then Inl (FrameTooShort (length frame))
      else let et = get16 frame 12 in
        if et = 0x8100 \<or> et = 0x88a8
        then (if length frame < 18 then Inl (FrameTooShortForVLAN (length frame))
              else let et = get16 frame 16 in
                if et \<noteq> HSREtherType then Inl (NotHSRFrame et) else Inr (16 + 2))
        else if et \<noteq> HSREtherType then Inl (NotHSRFrame et) else Inr (12 + 2))"

definition DecodeHSR :: "bytes \<Rightarrow> engine_error + (int \<times> int \<times> u16 \<times> bytes)" where
  "DecodeHSR frame =
     (case hsrTagOffset frame of
        Inl err \<Rightarrow> Inl err
      | Inr off \<Rightarrow>
        if length frame < off + HSRTagLen then Inl (FrameTooShortForHSRTag (length frame))
        else let word = get16 frame off;
                 path = uint (drop_bit 12 word);
                 lsdu = unat (word AND 0x0FFF);
                 seq = uint (get16 frame (off + 2));
                 encapProto = get16 frame (off + 4)
             in if lsdu < HSRTagLen \<or> off + lsdu > length frame
                then Inl (HSRLSDUOutOfRange lsdu (length frame))
                else Inr (path, seq, encapProto, gslice (off + HSRTagLen) (off + lsdu) frame))"

definition IsHSRFrame :: "bytes \<Rightarrow> bool" where
  "IsHSRFrame frame \<longleftrightarrow> GetEtherType frame = HSREtherType"

definition RewriteHSRPath :: "bytes \<Rightarrow> int \<Rightarrow> engine_error + bytes" where
  "RewriteHSRPath frame path =
     (case hsrTagOffset frame of
        Inl err \<Rightarrow> Inl err
      | Inr off \<Rightarrow>
        if length frame < off + HSRTagLen then Inl (FrameTooShortForHSRTag (length frame))
        else let word = get16 frame off;
                 word = (word AND 0x0FFF) OR push_bit 12 (word_of_int (path AND 0x0F))
             in Inr (take off frame @ put16 word @ drop (off + 2) frame))"

definition RewriteHSRPathLane :: "bytes \<Rightarrow> bool \<Rightarrow> engine_error + bytes" where
  "RewriteHSRPathLane frame laneA =
     (case hsrTagOffset frame of
        Inl err \<Rightarrow> Inl err
      | Inr off \<Rightarrow>
        if length frame < off + HSRTagLen then Inl (FrameTooShortForHSRTag (length frame))
        else let word = get16 frame off;
                 lane = (if \<not> laneA then 1 else 0);
                 word = (word AND 0xEFFF) OR push_bit 12 lane
             in Inr (take off frame @ put16 word @ drop (off + 2) frame))"

definition StripHSR :: "bytes \<Rightarrow> engine_error + bytes" where
  "StripHSR frame =
     (case hsrTagOffset frame of
        Inl err \<Rightarrow> Inl err
      | Inr off \<Rightarrow>
        (case DecodeHSR frame of
           Inl err \<Rightarrow> Inl err
         | Inr (_, _, encap, payload) \<Rightarrow>
           Inr (take 12 frame
                @ (if off > 14 then gslice 12 (off - 2) frame else [])
                @ [ucast (drop_bit 8 encap), ucast encap]
                @ payload)))"

section \<open>Tagged frames as header, tag and body\<close>

text \<open>
  The header in front of an HSR EtherType: both MAC addresses, and one VLAN tag if there is one.
\<close>

definition is_tpid :: "u16 \<Rightarrow> bool" where
  "is_tpid et \<longleftrightarrow> et = 0x8100 \<or> et = 0x88a8"

definition eth_hdr :: "bytes \<Rightarrow> bool" where
  "eth_hdr h \<longleftrightarrow> length h = 12 \<or> (length h = 16 \<and> is_tpid (get16 h 12))"

lemma HSREtherType_no_tpid [simp]: "\<not> is_tpid HSREtherType"
  by (simp add: is_tpid_def hsr_consts)

lemma eth_hdr_cases:
  assumes "eth_hdr h"
  obtains "length h = 12" | "length h = 16" "is_tpid (get16 h 12)"
  using assms by (auto simp: eth_hdr_def)

lemma IsVLANFrame_hdr:
  "eth_hdr h \<Longrightarrow> \<not> is_tpid et \<Longrightarrow> IsVLANFrame (h @ put16 et @ r) \<longleftrightarrow> length h = 16"
  by (auto simp: eth_hdr_def IsVLANFrame_def Let_def is_tpid_def get16_append1 get16_put16_append)

lemma GetEtherType_hdr:
  assumes "eth_hdr h" and "\<not> is_tpid et"
  shows "GetEtherType (h @ put16 et @ r) = et"
  using assms(1)
proof (cases rule: eth_hdr_cases)
  case 1
  then show ?thesis using assms(2)
    by (simp add: GetEtherType_def is_tpid_def get16_put16_append GetEtherType_loop.simps[of _ 12])
next
  case 2
  then show ?thesis using assms(2)
    by (simp add: GetEtherType_def is_tpid_def get16_put16_append get16_append1
        GetEtherType_loop.simps[of _ 12] GetEtherType_loop.simps[of _ 16])
qed

lemma hsrTagOffset_view: "eth_hdr h \<Longrightarrow> hsrTagOffset (h @ put16 HSREtherType @ r) = Inr (length h + 2)"
  by (erule eth_hdr_cases)
    (simp_all add: hsrTagOffset_def Let_def is_tpid_def get16_append1 get16_put16_append hsr_consts)

lemma hsrTagOffset_InrE:
  assumes "hsrTagOffset f = Inr off"
  obtains h r where "f = h @ put16 HSREtherType @ r" and "eth_hdr h" and "off = length h + 2"
proof (cases "is_tpid (get16 f 12)")
  case True
  with assms have *: "18 \<le> length f" "get16 f 16 = HSREtherType" "off = 18"
    by (auto simp: hsrTagOffset_def is_tpid_def Let_def split: if_splits)
  have "f = take 16 f @ put16 HSREtherType @ drop 18 f"
    using * split16[of 16 f] by simp
  moreover have "eth_hdr (take 16 f)" using * True by (simp add: eth_hdr_def get16_take)
  moreover have "off = length (take 16 f) + 2" using * by simp
  ultimately show thesis by (rule that)
next
  case False
  with assms have *: "14 \<le> length f" "get16 f 12 = HSREtherType" "off = 14"
    by (auto simp: hsrTagOffset_def is_tpid_def Let_def split: if_splits)
  have "f = take 12 f @ put16 HSREtherType @ drop 14 f"
    using * split16[of 12 f] by simp
  moreover have "eth_hdr (take 12 f)" using * by (simp add: eth_hdr_def)
  moreover have "off = length (take 12 f) + 2" using * by simp
  ultimately show thesis by (rule that)
qed

text \<open>The tag as the three words it is made of, behind the HSR EtherType.\<close>

definition hsr_frame :: "bytes \<Rightarrow> u16 \<Rightarrow> u16 \<Rightarrow> u16 \<Rightarrow> bytes \<Rightarrow> bytes" where
  "hsr_frame h w s e body = h @ put16 HSREtherType @ put16 w @ put16 s @ put16 e @ body"

lemma length_hsr_frame [simp]: "length (hsr_frame h w s e body) = length h + 8 + length body"
  by (simp add: hsr_frame_def)

lemma hsrTagOffset_frame [simp]: "eth_hdr h \<Longrightarrow> hsrTagOffset (hsr_frame h w s e body) = Inr (length h + 2)"
  unfolding hsr_frame_def by (rule hsrTagOffset_view)

lemma hsr_frame_fields:
  "get16 (hsr_frame h w s e body) (length h + 2) = w"
  "get16 (hsr_frame h w s e body) (length h + 4) = s"
  "get16 (hsr_frame h w s e body) (length h + 6) = e"
  "take (length h) (hsr_frame h w s e body) = h"
  "take (length h + 2) (hsr_frame h w s e body) = h @ put16 HSREtherType"
  "drop (length h + 4) (hsr_frame h w s e body) = put16 s @ put16 e @ body"
  "drop (length h + 8) (hsr_frame h w s e body) = body"
  by (simp_all add: hsr_frame_def nth_append get16_def Uint16_put16 put16_def)

lemma hsr_frame_hdr_nth [simp]: "i < length h \<Longrightarrow> hsr_frame h w s e body ! i = h ! i"
  by (simp add: hsr_frame_def nth_append)

lemma hsr_frame_take [simp]: "i \<le> length h \<Longrightarrow> take i (hsr_frame h w s e body) = take i h"
  by (simp add: hsr_frame_def)

text \<open>Any frame whose tag is complete is of that shape.\<close>

lemma hsr_frameE:
  assumes "hsrTagOffset f = Inr off" and "off + 6 \<le> length f"
  obtains h w s e body where "f = hsr_frame h w s e body" and "eth_hdr h" and "off = length h + 2"
proof -
  from assms(1) obtain h r where f: "f = h @ put16 HSREtherType @ r" "eth_hdr h" "off = length h + 2"
    by (rule hsrTagOffset_InrE)
  with assms(2) have "6 \<le> length r" by simp
  then have "Suc (Suc (Suc (Suc (Suc (Suc 0))))) \<le> length r" by simp
  then obtain x0 x1 x2 x3 x4 x5 body where r: "r = x0 # x1 # x2 # x3 # x4 # x5 # body"
    unfolding Suc_le_length_iff by blast
  then have "f = hsr_frame h (Uint16 x0 x1) (Uint16 x2 x3) (Uint16 x4 x5) body"
    by (simp add: f hsr_frame_def put16_Uint16)
  then show thesis using f(2,3) by (rule that)
qed

section \<open>What the tag functions do on such a frame\<close>

definition tag_path :: "u16 \<Rightarrow> int" where "tag_path w = uint (drop_bit 12 w)"
definition tag_lsdu :: "u16 \<Rightarrow> nat" where "tag_lsdu w = unat (w AND 0x0FFF)"

lemma tag_path_bounds: "0 \<le> tag_path w" "tag_path w < 16"
proof -
  have "uint (drop_bit 12 w) = drop_bit 12 (uint w)"
    by (rule bit_eqI) (auto simp: bit_simps dest: bit_imp_le_length)
  then have "tag_path w = uint w div 4096"
    by (simp add: tag_path_def drop_bit_eq_div)
  then show "0 \<le> tag_path w" "tag_path w < 16"
    using uint_u16_bounds[of w] by (simp_all add: pos_imp_zdiv_nonneg_iff)
qed

lemma DecodeHSR_frame:
  assumes "eth_hdr h"
  shows "DecodeHSR (hsr_frame h w s e body) =
    (if tag_lsdu w < 6 \<or> tag_lsdu w - 6 > length body
     then Inl (HSRLSDUOutOfRange (tag_lsdu w) (length h + 8 + length body))
     else Inr (tag_path w, uint s, e, take (tag_lsdu w - 6) body))"
proof -
  have off: "length h + 2 + 2 = length h + 4" "length h + 2 + 4 = length h + 6"
    "length h + 2 + 6 = length h + 8" by simp_all
  have "gslice (length h + 8) (length h + 2 + n) (hsr_frame h w s e body) = take (n - 6) body" for n
    by (simp add: gslice_def hsr_frame_fields)
  then show ?thesis
    unfolding DecodeHSR_def hsrTagOffset_frame[OF assms] sum.case HSRTagLen_def Let_def off
      hsr_frame_fields tag_lsdu_def[symmetric] tag_path_def[symmetric]
    by auto
qed

lemma RewriteHSRPath_frame:
  assumes "eth_hdr h"
  shows "RewriteHSRPath (hsr_frame h w s e body) path =
    Inr (hsr_frame h ((w AND 0x0FFF) OR push_bit 12 (word_of_int (path AND 0x0F))) s e body)"
  using assms hsr_frame_fields[of h w s e body]
  by (simp add: RewriteHSRPath_def Let_def HSRTagLen_def) (simp add: hsr_frame_def)

lemma RewriteHSRPathLane_frame:
  assumes "eth_hdr h"
  shows "RewriteHSRPathLane (hsr_frame h w s e body) laneA =
    Inr (hsr_frame h ((w AND 0xEFFF) OR push_bit 12 (if laneA then 0 else 1)) s e body)"
  using assms hsr_frame_fields[of h w s e body]
  by (simp add: RewriteHSRPathLane_def Let_def HSRTagLen_def) (simp add: hsr_frame_def)

lemma StripHSR_frame:
  assumes "eth_hdr h"
  shows "StripHSR (hsr_frame h w s e body) =
    (if tag_lsdu w < 6 \<or> tag_lsdu w - 6 > length body
     then Inl (HSRLSDUOutOfRange (tag_lsdu w) (length h + 8 + length body))
     else Inr (h @ put16 e @ take (tag_lsdu w - 6) body))"
proof -
  have "take 12 h @ (if length h + 2 > 14 then gslice 12 (length h) (hsr_frame h w s e body) else []) = h"
    using assms by (cases rule: eth_hdr_cases) (auto simp: gslice_def hsr_frame_def)
  then show ?thesis
    using assms by (auto simp: StripHSR_def DecodeHSR_frame put16_def eth_hdr_def)
qed

lemma EncodeHSR_frame:
  "h @ EncodeHSR payload path seq e @ pad =
    hsr_frame h (push_bit 12 (word_of_int (path AND 0x0F)) OR (of_nat (6 + length payload) AND 0x0FFF))
      seq e (payload @ pad)"
  by (simp add: EncodeHSR_def Let_def HSRTagLen_def hsr_frame_def)

lemma bit_0x0FFF: "bit (0x0FFF :: u16) n \<longleftrightarrow> n < 12"
  unfolding mask12 by (auto simp: bit_simps)

lemma bit_0xEFFF: "bit (0xEFFF :: u16) n \<longleftrightarrow> n < 16 \<and> n \<noteq> 12"
proof -
  have eq: "(0xEFFF :: u16) = NOT (push_bit 12 1)" by simp
  show ?thesis
    unfolding eq bit_not_iff bit_push_bit_iff bit_1_iff by (auto simp: possible_bit_def)
qed

lemma tag_lsdu_pack: "tag_lsdu (push_bit 12 w OR (of_nat n AND 0x0FFF)) = n mod 4096"
  unfolding tag_lsdu_def pack_low
  by (metis nat_int uint_and_mask12 unat_eq_nat_uint)

lemma and_0x0F: "p AND (0x0F :: int) = p mod 16"
  using take_bit_eq_mask[of 4 p] by (simp add: take_bit_eq_mod mask_eq_exp_minus_1)

lemma and_0x0F_bounds: "0 \<le> p AND (0x0F :: int)" "p AND (0x0F :: int) < 16"
  by (simp_all add: and_0x0F)

lemma tag_path_pack: "tag_path (push_bit 12 (word_of_int (p AND 0x0F)) OR (x AND 0x0FFF)) = p AND 0x0F"
proof -
  have "drop_bit 12 (push_bit 12 (word_of_int (p AND 0x0F)) OR (x AND 0x0FFF))
      = (word_of_int (p AND 0x0F) :: u16) AND 0x0F"
    by (rule pack_high)
  also have "\<dots> = word_of_int (p AND 0x0F)"
    unfolding mask4 by (rule bit_word_eqI) (auto simp: bit_simps mask_eq_exp_minus_1[symmetric]
      mask_numeral)
  finally show ?thesis
    using take_bit_int_eq_self[of "p mod 16" 16] pos_mod_bound[of 16 p]
    by (simp add: tag_path_def and_0x0F unsigned_of_int)
qed

section \<open>Decoding after the path functions\<close>

lemma DecodeHSR_InrE:
  assumes "DecodeHSR f = Inr (path, seq, encap, payload)"
  obtains h w s body where "f = hsr_frame h w s encap body" and "eth_hdr h" and "path = tag_path w"
    and "seq = uint s" and "payload = take (tag_lsdu w - 6) body" and "6 \<le> tag_lsdu w"
    and "tag_lsdu w - 6 \<le> length body"
proof -
  obtain off where off: "hsrTagOffset f = Inr off" "off + 6 \<le> length f"
    using assms by (auto simp: DecodeHSR_def HSRTagLen_def split: sum.splits if_splits)
  then obtain h w s e body where f: "f = hsr_frame h w s e body" "eth_hdr h" by (rule hsr_frameE)
  with assms show thesis
    by (intro that[of h w s body]) (auto simp: DecodeHSR_frame split: if_splits)
qed

lemma tag_path_set: "tag_path ((w AND 0x0FFF) OR push_bit 12 (word_of_int (p AND 0x0F))) = p AND 0x0F"
  using tag_path_pack[of p w] by (simp add: or.commute)

lemma tag_lsdu_set: "tag_lsdu ((w AND 0x0FFF) OR push_bit 12 x) = tag_lsdu w"
  unfolding tag_lsdu_def using pack_low[of x w] by (simp add: or.commute)

lemma tag_lsdu_lane: "tag_lsdu ((w AND 0xEFFF) OR push_bit 12 x) = tag_lsdu w"
proof -
  have "((w AND 0xEFFF) OR push_bit 12 x) AND 0x0FFF = w AND 0x0FFF"
    by (rule bit_word_eqI) (auto simp only: bit_and_iff bit_or_iff bit_push_bit_iff bit_0x0FFF bit_0xEFFF)
  then show ?thesis by (simp only: tag_lsdu_def)
qed

lemma tag_path_lane:
  "tag_path ((w AND 0xEFFF) OR push_bit 12 (if laneA then 0 else 1)) = 2 * (tag_path w div 2) + (if laneA then 0 else 1)"
proof -
  define v where "v = (w AND 0xEFFF) OR push_bit 12 (if laneA then 0 else 1)"
  have b: "bit v n \<longleftrightarrow> n < 16 \<and> (if n = 12 then \<not> laneA else bit w n)" for n
    unfolding v_def bit_and_iff bit_or_iff bit_push_bit_iff bit_0xEFFF
    by (cases "n < 16") (auto simp: bit_1_iff dest: bit_imp_le_length)
  have path: "bit (tag_path u) n \<longleftrightarrow> n < 4 \<and> bit u (n + 12)" for u n
    by (auto simp: tag_path_def bit_simps ac_simps dest: bit_imp_le_length)
  have "tag_path v div 2 = tag_path w div 2"
    by (rule bit_eqI) (auto simp: bit_Suc[symmetric] path b)
  moreover have "odd (tag_path v) \<longleftrightarrow> \<not> laneA"
    using path[of v 0] b[of 12] by (simp add: bit_0)
  ultimately show ?thesis
    unfolding v_def[symmetric] by (metis add.right_neutral even_two_times_div_two odd_two_times_div_two_succ)
qed

text \<open>A rewritten frame carries what it carried; only the path differs.\<close>

lemma DecodeHSR_lane:
  assumes "DecodeHSR f = Inr (path, seq, encap, payload)"
  obtains g where "RewriteHSRPathLane f laneA = Inr g"
    and "DecodeHSR g = Inr (2 * (path div 2) + (if laneA then 0 else 1), seq, encap, payload)"
    and "StripHSR g = StripHSR f" and "length g = length f" and "take 12 g = take 12 f"
proof -
  from assms obtain h w s body where f: "f = hsr_frame h w s encap body" "eth_hdr h" "path = tag_path w"
    "seq = uint s" "payload = take (tag_lsdu w - 6) body" "6 \<le> tag_lsdu w" "tag_lsdu w - 6 \<le> length body"
    by (rule DecodeHSR_InrE)
  let ?w = "(w AND 0xEFFF) OR push_bit 12 (if laneA then 0 else 1)"
  have "12 \<le> length h" using f(2) by (auto simp: eth_hdr_def)
  then show thesis
    using f tag_path_lane[of w laneA] tag_lsdu_lane[of w "if laneA then 0 else 1"]
    by (intro that[of "hsr_frame h ?w s encap body"])
      (simp_all only: RewriteHSRPathLane_frame DecodeHSR_frame StripHSR_frame length_hsr_frame hsr_frame_take, auto)
qed

lemma DecodeHSR_set:
  assumes "DecodeHSR f = Inr (path, seq, encap, payload)"
  obtains g where "RewriteHSRPath f p = Inr g" and "DecodeHSR g = Inr (p AND 0x0F, seq, encap, payload)"
    and "StripHSR g = StripHSR f" and "length g = length f" and "take 12 g = take 12 f"
proof -
  from assms obtain h w s body where f: "f = hsr_frame h w s encap body" "eth_hdr h" "path = tag_path w"
    "seq = uint s" "payload = take (tag_lsdu w - 6) body" "6 \<le> tag_lsdu w" "tag_lsdu w - 6 \<le> length body"
    by (rule DecodeHSR_InrE)
  let ?w = "(w AND 0x0FFF) OR push_bit 12 (word_of_int (p AND 0x0F))"
  have "12 \<le> length h" using f(2) by (auto simp: eth_hdr_def)
  then show thesis
    using f tag_path_set[of w p] tag_lsdu_set[of w "word_of_int (p AND 0x0F)"]
    by (intro that[of "hsr_frame h ?w s encap body"])
      (simp_all only: RewriteHSRPath_frame DecodeHSR_frame StripHSR_frame length_hsr_frame hsr_frame_take, auto)
qed

text \<open>The frame inside: whenever the tag decodes, it can be stripped, and the result is a frame.\<close>

lemma StripHSR_decoded:
  assumes "DecodeHSR f = Inr (path, seq, encap, payload)"
  obtains g where "StripHSR f = Inr g" and "14 \<le> length g" and "take 12 g = take 12 f"
proof -
  from assms obtain h w s body where f: "f = hsr_frame h w s encap body" "eth_hdr h"
    "payload = take (tag_lsdu w - 6) body" "6 \<le> tag_lsdu w" "tag_lsdu w - 6 \<le> length body"
    by (rule DecodeHSR_InrE)
  then show thesis
    by (intro that[of "h @ put16 encap @ payload"]) (auto simp: StripHSR_frame eth_hdr_def)
qed

lemma DecodeHSR_long: "DecodeHSR f = Inr x \<Longrightarrow> 20 \<le> length f"
  by (cases x) (auto elim!: DecodeHSR_InrE simp: eth_hdr_def)

section \<open>Properties\<close>

text \<open>
  C28. Forwarding around the ring rewrites the lane and nothing else: any frame whose tag decodes
  can be rewritten, and the result decodes to the same sequence number, EtherType and payload, to
  the same upper path bits and to the given lane, and strips to the same Ethernet frame.
\<close>

theorem lane_rewrite_preserves:
  assumes "DecodeHSR f = Inr (path, seq, encap, payload)"
  shows "\<exists>g. RewriteHSRPathLane f laneA = Inr g \<and> StripHSR g = StripHSR f \<and> length g = length f
    \<and> DecodeHSR g = Inr (2 * (path div 2) + (if laneA then 0 else 1), seq, encap, payload)"
  using DecodeHSR_lane[OF assms] by metis

lemma lane_rewrite_preserves_witness:
  "\<exists>g. RewriteHSRPathLane (replicate 12 2 @ EncodeHSR [1, 2, 3] 7 9 0x0800) True = Inr g
    \<and> DecodeHSR g = Inr (6, 9, 0x0800, [1, 2, 3])"
proof -
  have "DecodeHSR (replicate 12 2 @ EncodeHSR [1, 2, 3] 7 9 0x0800) = Inr (7, 9, 0x0800, [1, 2, 3])" by code_simp
  from lane_rewrite_preserves[OF this, of True] show ?thesis by auto
qed

end
