(* ===== verification/Supervision.thy ===== *)
theory Supervision
  imports EngineHSR
begin

text \<open>
  \<open>internal/supervision/supervision.go\<close>: PRP and HSR supervision frames. \<open>Parse\<close> slices the frame
  at fixed offsets; \<^const>\<open>None\<close> is the run-time panic of a slice out of range, \<open>Some None\<close> the
  \<open>nil\<close> it returns for a frame that is not a supervision frame.
\<close>

unbundle bit_operations_syntax

definition LifeCheckDD :: byte where "LifeCheckDD = 20"
definition HSRANNOUNCE :: byte where "HSRANNOUNCE = 22"
definition HSRLifeCheck :: byte where "HSRLifeCheck = 23"
definition RedBoxMACTLV :: byte where "RedBoxMACTLV = 30"
definition supLSDUSize :: u16 where "supLSDUSize = 52"
definition SupVersion :: u16 where "SupVersion = 1"

record SupFrame =
  sf_SrcMAC :: string
  sf_Seq :: u16
  sf_Path :: int
  sf_TLVType :: byte
  sf_MacAddrA :: bytes
  sf_IsRedBox :: bool
  sf_RedBoxMAC :: bytes

text \<open>The tail of \<open>Build\<close> and \<open>BuildHSR\<close>: pad with zeros up to the minimum Ethernet size.\<close>

definition sup_pad :: "bytes \<Rightarrow> bytes" where
  "sup_pad payload =
     (if length payload < ethMinLen then payload @ replicate (ethMinLen - length payload) 0
      else payload)"

definition supMulticast :: bytes where
  "supMulticast = [0x01, 0x15, 0x4e, 0x00, 0x01, 0x00]"

definition SupBuild :: "bytes \<Rightarrow> u16 \<Rightarrow> bytes" where
  "SupBuild srcMAC seq =
     (let payload = supMulticast @ srcMAC @ [0x88, 0xfb];
          tag = put16 SupVersion @ put16 seq;
          payload = payload @ tag;
          payload = payload @ [LifeCheckDD, 6];
          payload = payload @ srcMAC
      in sup_pad payload)"

definition BuildRCTed :: "bytes \<Rightarrow> u16 \<Rightarrow> int \<Rightarrow> bytes" where
  "BuildRCTed srcMAC seq lanID =
     (let frame = SupBuild srcMAC seq;
          packed = push_bit 12 (wireLanID lanID) OR supLSDUSize
      in frame @ put16 seq @ put16 packed @ put16 PRPSuffix)"

definition BuildHSR :: "bytes \<Rightarrow> u16 \<Rightarrow> int \<Rightarrow> bytes" where
  "BuildHSR srcMAC seq path =
     (let payload = supMulticast @ srcMAC @ [0x88, 0xfb];
          tag = put16 (push_bit 12 (word_of_int (path AND 0x0F)) OR SupVersion) @ put16 seq;
          payload = payload @ tag;
          payload = payload @ [HSRLifeCheck, 6];
          payload = payload @ srcMAC
      in sup_pad payload)"

definition SupParse :: "bytes \<Rightarrow> SupFrame option option" where
  "SupParse frame =
     (if length frame < 20 then Some None
      else if frame ! 0 \<noteq> 0x01 \<or> frame ! 1 \<noteq> 0x15 \<or> frame ! 2 \<noteq> 0x4e \<or>
              frame ! 3 \<noteq> 0x00 \<or> frame ! 4 \<noteq> 0x01 \<or> frame ! 5 \<noteq> 0x00 then Some None
      else if frame ! 12 \<noteq> 0x88 \<or> frame ! 13 \<noteq> 0xfb then Some None
      else if length frame < 26 then None \<comment> \<open>\<open>frame[20:26]\<close> out of range\<close>
      else let f = \<lparr>sf_SrcMAC = GetSrcMAC frame, sf_Seq = get16 frame 16,
                    sf_Path = uint (drop_bit 12 (get16 frame 14)), sf_TLVType = frame ! 18,
                    sf_MacAddrA = gslice 20 26 frame, sf_IsRedBox = False,
                    sf_RedBoxMAC = replicate 6 0\<rparr>
           in Some (Some (if sf_TLVType f = 30 \<and> length frame \<ge> 32
                          then f\<lparr>sf_IsRedBox := True, sf_RedBoxMAC := gslice 26 32 frame\<rparr>
                          else f)))"

section \<open>Parsing what was built\<close>

text \<open>The frame both builders produce, up to the two fields in which they differ.\<close>

definition sup_frame :: "bytes \<Rightarrow> u16 \<Rightarrow> u16 \<Rightarrow> byte \<Rightarrow> bytes" where
  "sup_frame mac w seq tlv = supMulticast @ mac @ [0x88, 0xfb] @ put16 w @ put16 seq @ [tlv, 6] @ mac
     @ replicate 34 0"

lemma SupBuild_frame: "length mac = 6 \<Longrightarrow> SupBuild mac seq = sup_frame mac SupVersion seq LifeCheckDD"
  by (simp add: SupBuild_def sup_frame_def sup_pad_def Let_def ethMinLen_def supMulticast_def)

lemma BuildHSR_frame:
  "length mac = 6 \<Longrightarrow> BuildHSR mac seq path =
     sup_frame mac (push_bit 12 (word_of_int (path AND 0x0F)) OR SupVersion) seq HSRLifeCheck"
  by (simp add: BuildHSR_def sup_frame_def sup_pad_def Let_def ethMinLen_def supMulticast_def)

lemma length_sup_frame: "length mac = 6 \<Longrightarrow> length (sup_frame mac w seq tlv) = 60"
  by (simp add: sup_frame_def supMulticast_def)

lemma list6:
  assumes "length xs = 6"
  obtains a b c d e f where "xs = [a, b, c, d, e, f]"
proof -
  have "length xs = Suc (Suc (Suc (Suc (Suc (Suc 0)))))" using assms by simp
  then show thesis unfolding length_Suc_conv using that by blast
qed

text \<open>The text form of a 6-byte hardware address.\<close>

definition mac_string :: "bytes \<Rightarrow> string" where
  "mac_string mac = fmtMAC (mac ! 0) (mac ! 1) (mac ! 2) (mac ! 3) (mac ! 4) (mac ! 5)"

lemma SupParse_frame:
  assumes "length mac = 6" and "tlv \<noteq> 30"
  shows "SupParse (sup_frame mac w seq tlv @ trailer) =
    Some (Some \<lparr>sf_SrcMAC = mac_string mac, sf_Seq = seq, sf_Path = tag_path w, sf_TLVType = tlv,
      sf_MacAddrA = mac, sf_IsRedBox = False, sf_RedBoxMAC = replicate 6 0\<rparr>)"
proof -
  from assms(1) obtain a b c d e f where mac: "mac = [a, b, c, d, e, f]" by (rule list6)
  show ?thesis using assms(2) unfolding mac
    by (simp add: SupParse_def sup_frame_def supMulticast_def put16_def get16_def Uint16_put16
        GetSrcMAC_def mac_string_def gslice_def tag_path_def)
qed

lemma tag_path_version: "tag_path (push_bit 12 (word_of_int (p AND 0x0F)) OR SupVersion) = p AND 0x0F"
  using tag_path_pack[of p 1] by (simp add: SupVersion_def)

lemma tag_path_SupVersion: "tag_path SupVersion = 0"
  using tag_path_version[of 0] by (simp add: SupVersion_def)

text \<open>The trailer of a PRP supervision frame is the one \<open>EncodeRCT\<close> writes.\<close>

lemma IsVLANFrame_sup_frame: "length mac = 6 \<Longrightarrow> \<not> IsVLANFrame (sup_frame mac w seq tlv)"
  by (erule list6) (simp add: IsVLANFrame_def sup_frame_def supMulticast_def get16_def Uint16_def)

lemma BuildRCTed_EncodeRCT:
  assumes "length mac = 6"
  shows "BuildRCTed mac seq lanID = EncodeRCT (SupBuild mac seq) seq lanID"
proof -
  have "rct_padded (sup_frame mac SupVersion seq LifeCheckDD) = sup_frame mac SupVersion seq LifeCheckDD"
    using assms by (simp add: rct_padded_def rct_minSize_def IsVLANFrame_sup_frame length_sup_frame ethMinLen_def)
  then have "rct_lsdu (sup_frame mac SupVersion seq LifeCheckDD) = 52"
    using assms by (simp add: rct_lsdu_def IsVLANFrame_sup_frame length_sup_frame RCTLen_def)
  then show ?thesis
    using assms \<open>rct_padded _ = _\<close>
    by (simp add: BuildRCTed_def EncodeRCT_eq SupBuild_frame supLSDUSize_def Let_def)
qed

text \<open>The only frames on which \<open>Parse\<close> panics.\<close>

lemma SupParse_None_iff:
  "SupParse frame = None \<longleftrightarrow> 20 \<le> length frame \<and> length frame < 26 \<and>
     take 6 frame = supMulticast \<and> frame ! 12 = 0x88 \<and> frame ! 13 = 0xfb"
proof -
  have "take 6 frame = supMulticast \<longleftrightarrow> frame ! 0 = 0x01 \<and> frame ! 1 = 0x15 \<and> frame ! 2 = 0x4e \<and>
      frame ! 3 = 0x00 \<and> frame ! 4 = 0x01 \<and> frame ! 5 = 0x00" if "20 \<le> length frame"
  proof -
    have "Suc (Suc (Suc (Suc (Suc (Suc 0))))) \<le> length frame" using that by simp
    then obtain a b c d e f r where "frame = a # b # c # d # e # f # r"
      unfolding Suc_le_length_iff by blast
    then show ?thesis by (simp add: supMulticast_def)
  qed
  then show ?thesis by (auto simp: SupParse_def Let_def)
qed

lemma SupParse_long: "26 \<le> length frame \<Longrightarrow> SupParse frame \<noteq> None"
  by (simp add: SupParse_None_iff)

section \<open>Properties\<close>

text \<open>
  C30. Supervision round trip: \<open>Parse\<close> reads back the sender, the sequence number, the path and the
  TLV type that \<open>BuildRCTed\<close> and \<open>BuildHSR\<close> wrote for a 6-byte address, and the trailer of the PRP
  form is one \<open>DecodeRCT\<close> accepts, with the same sequence number and the lane.
\<close>

theorem supervision_round_trip:
  assumes "length mac = 6"
  shows "SupParse (BuildRCTed mac seq lan) = Some (Some \<lparr>sf_SrcMAC = mac_string mac, sf_Seq = seq, sf_Path = 0,
      sf_TLVType = 20, sf_MacAddrA = mac, sf_IsRedBox = False, sf_RedBoxMAC = replicate 6 0\<rparr>)
    \<and> SupParse (BuildHSR mac seq path) = Some (Some \<lparr>sf_SrcMAC = mac_string mac, sf_Seq = seq, sf_Path = path AND 0x0F,
      sf_TLVType = 23, sf_MacAddrA = mac, sf_IsRedBox = False, sf_RedBoxMAC = replicate 6 0\<rparr>)
    \<and> DecodeRCT (BuildRCTed mac seq lan) = Inr (lan AND 1, uint seq, SupBuild mac seq)"
proof -
  let ?f = "sup_frame mac SupVersion seq LifeCheckDD"
  have pad: "rct_padded ?f = ?f" and lsdu: "rct_lsdu ?f = 52"
    using assms by (simp_all add: rct_lsdu_def rct_padded_def rct_minSize_def IsVLANFrame_sup_frame length_sup_frame
        ethMinLen_def RCTLen_def)
  have "EncodeRCT ?f seq lan = ?f @ put16 seq @ put16 (push_bit 12 (wireLanID lan) OR (of_nat (rct_lsdu ?f) AND 0x0FFF)) @ put16 PRPSuffix"
    by (simp add: EncodeRCT_eq pad)
  then have "SupParse (BuildRCTed mac seq lan) = SupParse (?f @ put16 seq @ put16 (push_bit 12 (wireLanID lan) OR (of_nat (rct_lsdu ?f) AND 0x0FFF)) @ put16 PRPSuffix)"
    using assms by (simp only: BuildRCTed_EncodeRCT SupBuild_frame)
  moreover have "DecodeRCT (EncodeRCT ?f seq lan) = Inr (lan AND 1, uint seq, ?f)"
    using DecodeRCT_EncodeRCT[of ?f seq lan] assms by (simp add: pad lsdu length_sup_frame)
  ultimately show ?thesis
    using assms SupParse_frame[OF assms, of LifeCheckDD SupVersion seq] SupParse_frame[OF assms, of HSRLifeCheck _ seq "[]"]
    by (simp add: BuildHSR_frame tag_path_version tag_path_SupVersion LifeCheckDD_def HSRLifeCheck_def
        BuildRCTed_EncodeRCT SupBuild_frame)
qed

lemma supervision_round_trip_witness:
  "SupParse (BuildHSR [2, 0, 0, 0, 0, 1] 77 7) = Some (Some \<lparr>sf_SrcMAC = mac_string [2, 0, 0, 0, 0, 1], sf_Seq = 77,
     sf_Path = 7, sf_TLVType = 23, sf_MacAddrA = [2, 0, 0, 0, 0, 1], sf_IsRedBox = False, sf_RedBoxMAC = replicate 6 0\<rparr>)"
  using supervision_round_trip[of "[2, 0, 0, 0, 0, 1]" 77 _ 7] by simp

text \<open>
  \<open>Parse\<close> is not total: it panics exactly on frames of 20 to 25 bytes that carry the supervision
  multicast address and EtherType.
\<close>

theorem supervision_parse_panics:
  "SupParse frame = None \<longleftrightarrow> 20 \<le> length frame \<and> length frame < 26 \<and>
     take 6 frame = [0x01, 0x15, 0x4e, 0x00, 0x01, 0x00] \<and> frame ! 12 = 0x88 \<and> frame ! 13 = 0xfb"
  using SupParse_None_iff[of frame] by (simp add: supMulticast_def)

end
