(* ===== verification/Role.thy ===== *)
theory Role
  imports Prelude
begin

text \<open>
  \<open>internal/prp/role.go\<close> and the \<open>Config\<close> struct of \<open>internal/prp/prp.go\<close>: the role of a RedBox
  decides what its redundancy ports speak and what its interlink is.
\<close>

unbundle bit_operations_syntax

datatype Role = RolePRPSan | RoleHSRSan | RoleHSRPRP | RoleHSRHSR

text \<open>\<open>fmt.Errorf("invalid role %q", s)\<close> is the left value.\<close>

definition ParseRole :: "string \<Rightarrow> string + Role" where
  "ParseRole s =
     (if s = '''' \<or> s = ''redbox'' then Inr RolePRPSan
      else if s = ''prp-san'' then Inr RolePRPSan
      else if s = ''hsr-san'' then Inr RoleHSRSan
      else if s = ''hsr-prp'' then Inr RoleHSRPRP
      else if s = ''hsr-hsr'' then Inr RoleHSRHSR
      else Inl s)"

record RoleInfo =
  ri_Role :: Role
  RedundancyPortsAreHSR :: bool
  CoupledToPRP :: bool
  InterlinkIsSAN :: bool
  InterlinkIsHSR :: bool

fun infoFor :: "Role \<Rightarrow> RoleInfo" where
  "infoFor RoleHSRSan = \<lparr>ri_Role = RoleHSRSan, RedundancyPortsAreHSR = True, CoupledToPRP = False,
     InterlinkIsSAN = True, InterlinkIsHSR = False\<rparr>"
| "infoFor RoleHSRPRP = \<lparr>ri_Role = RoleHSRPRP, RedundancyPortsAreHSR = True, CoupledToPRP = True,
     InterlinkIsSAN = False, InterlinkIsHSR = False\<rparr>"
| "infoFor RoleHSRHSR = \<lparr>ri_Role = RoleHSRHSR, RedundancyPortsAreHSR = True, CoupledToPRP = False,
     InterlinkIsSAN = False, InterlinkIsHSR = True\<rparr>"
| "infoFor RolePRPSan = \<lparr>ri_Role = RolePRPSan, RedundancyPortsAreHSR = False, CoupledToPRP = False,
     InterlinkIsSAN = True, InterlinkIsHSR = False\<rparr>"

record Config =
  NodeName :: string
  cfg_Role :: string
  LanAInterface :: string
  LanBInterface :: string
  InterlinkInterface :: string
  cfg_LanID :: string
  cfg_NetID :: int
  PRPID :: int
  TrailerEnabled :: bool
  Debug :: bool
  ForwardAll :: bool
  VLANFilter :: "int list"
  MulticastFirstOctet :: string
  EntryForgetMs :: int
  MaxNodeTableSize :: int
  ProxyNodeForgetMs :: int
  NodeForgetMs :: int

definition roleInfo :: "Config \<Rightarrow> RoleInfo" where
  "roleInfo c = (case ParseRole (cfg_Role c) of Inl _ \<Rightarrow> infoFor RolePRPSan | Inr r \<Rightarrow> infoFor r)"

definition IsHSRNode :: "Config \<Rightarrow> bool" where
  "IsHSRNode c = RedundancyPortsAreHSR (roleInfo c)"

definition IsHSRPRPCoupling :: "Config \<Rightarrow> bool" where
  "IsHSRPRPCoupling c = CoupledToPRP (roleInfo c)"

definition IsHSRHSR :: "Config \<Rightarrow> bool" where
  "IsHSRHSR c = InterlinkIsHSR (roleInfo c)"

definition LanID :: "Config \<Rightarrow> int" where
  "LanID c = (if IsHSRPRPCoupling c \<and> cfg_LanID c = ''B'' then 1 else 0)"

definition NetID :: "Config \<Rightarrow> int" where
  "NetID c = (if IsHSRPRPCoupling c \<and> cfg_NetID c > 0 then cfg_NetID c else 1)"

text \<open>\<open>(n.NetID() << 1) | n.LanID()\<close>, used in two places of the node; 0 outside hsr-prp.\<close>

definition couplingPath :: "Config \<Rightarrow> int" where
  "couplingPath c = (if IsHSRPRPCoupling c then i64 (push_bit 1 (NetID c)) OR LanID c else 0)"

section \<open>The four kinds of node\<close>

text \<open>Every configuration is one of the four roles; the predicates of the code tell them apart.\<close>

definition role_of :: "Config \<Rightarrow> Role" where
  "role_of c = ri_Role (roleInfo c)"

lemma roleInfo_role: "roleInfo c = infoFor (role_of c)"
  by (cases "ParseRole (cfg_Role c)" rule: sum.exhaust)
    (simp_all add: role_of_def roleInfo_def, metis Role.exhaust RoleInfo.select_convs(1) infoFor.simps)

lemma role_predicates:
  "IsHSRNode c \<longleftrightarrow> role_of c \<noteq> RolePRPSan"
  "IsHSRPRPCoupling c \<longleftrightarrow> role_of c = RoleHSRPRP"
  "IsHSRHSR c \<longleftrightarrow> role_of c = RoleHSRHSR"
  by (cases "role_of c"; simp add: IsHSRNode_def IsHSRPRPCoupling_def IsHSRHSR_def roleInfo_role)+

lemma ParseRole_role: "ParseRole (cfg_Role c) = Inr r \<Longrightarrow> role_of c = r"
  by (cases r) (simp_all add: role_of_def roleInfo_def)

lemma LanID_01: "LanID c = 0 \<or> LanID c = 1"
  by (simp add: LanID_def)

lemma couplingPath_eq:
  assumes "role_of c = RoleHSRPRP" and "1 \<le> cfg_NetID c" and "cfg_NetID c \<le> 7"
  shows "couplingPath c = 2 * cfg_NetID c + LanID c"
proof -
  have "couplingPath c = (2 * cfg_NetID c) OR LanID c"
    using assms by (simp add: couplingPath_def role_predicates NetID_def push_bit_eq_mult i64_id mult.commute)
  also have "\<dots> = 2 * cfg_NetID c + LanID c"
    using LanID_01[of c] by (auto simp: or_one_eq)
  finally show ?thesis .
qed

end
