(* ===== verification/Node.thy ===== *)
theory Node
  imports Engine NodeTable Supervision Role
begin

text \<open>
  The \<open>Node\<close> struct of \<open>internal/prp/prp.go\<close> and the helpers its frame handlers share.

  A port (\<open>iface.PacketPort\<close>) is the list of the frames its \<open>Write\<close> accepted, like the in-memory
  ports of the repository's tests; an unbound port is \<^const>\<open>None\<close>, and writing to it is the
  nil-interface panic. Maps the code creates lazily start empty. Everything a handler gets from
  outside is the environment \<open>env\<close> of the event it handles: the clock reading, the order in which
  a range over the duplicate table visits its entries, which writes the kernel accepts, and the
  hardware addresses of the interfaces. Log output is left out.
\<close>

unbundle bit_operations_syntax

record PacketPort =
  pp_Name :: string
  pp_sent :: "bytes list"
  pp_open :: bool

datatype portsel = PLanA | PLanB | PInterlink

record counters =
  lanAIn :: u64
  lanBIn :: u64
  lanAOut :: u64
  lanBOut :: u64
  interIn :: u64
  interOut :: u64
  supSent :: u64

record frameEvent =
  ev_iface :: string
  ev_frame :: bytes
  ev_frameSz :: int

record node =
  n_Config :: Config
  n_LanA :: "PacketPort option"
  n_LanB :: "PacketPort option"
  n_Interlink :: "PacketPort option"
  n_mac :: "bytes option"
  n_supSeq :: u16
  n_seqMgr :: SequenceManager
  n_frameBuffer :: "frameEvent list"
  n_stopped :: bool
  n_cleanupTimer :: bool
  n_supervisionSeen :: "time gomap"
  n_supervisionSeqs :: "u16 gomap"
  n_supervisionForget :: int
  n_dupTable :: Table
  n_proxyTable :: "time gomap"
  n_proxyTableForget :: int
  n_ringMembers :: "time gomap"
  n_dropCounters :: "int gomap"
  n_counters :: counters

record env =
  env_now :: time
  env_rng :: range_order
  env_wr :: "portsel \<Rightarrow> bytes \<Rightarrow> bool"
  env_hw :: "string \<Rightarrow> bytes option"

text \<open>The event \<open>readLoop\<close> makes of a frame.\<close>

definition mk_event :: "string \<Rightarrow> bytes \<Rightarrow> frameEvent" where
  "mk_event ifaceName frame = \<lparr>ev_iface = ifaceName, ev_frame = frame, ev_frameSz = int (length frame)\<rparr>"

lemma mk_event_fields [simp]: "ev_iface (mk_event ifc f) = ifc" "ev_frame (mk_event ifc f) = f"
  by (simp_all add: mk_event_def)

section \<open>Construction\<close>

definition zero_counters :: counters where
  "zero_counters = \<lparr>lanAIn = 0, lanBIn = 0, lanAOut = 0, lanBOut = 0, interIn = 0, interOut = 0, supSent = 0\<rparr>"

definition or_default :: "int \<Rightarrow> int \<Rightarrow> int" where
  "or_default v d = (if v \<le> 0 then d else v)"

text \<open>\<open>start\<close> is the result of \<open>randSeqStart\<close>: any 16-bit value.\<close>

definition NewNode :: "u16 \<Rightarrow> Config \<Rightarrow> node" where
  "NewNode start cfg =
     \<lparr>n_Config = cfg, n_LanA = None, n_LanB = None, n_Interlink = None, n_mac = None,
      n_supSeq = 0,
      n_seqMgr = NewSequenceManagerWithStart start,
      n_frameBuffer = [], n_stopped = False, n_cleanupTimer = False,
      n_supervisionSeen = [], n_supervisionSeqs = [],
      n_supervisionForget = ms_dur (or_default (NodeForgetMs cfg) 64000),
      n_dupTable = NewTable (or_default (MaxNodeTableSize cfg) 256),
      n_proxyTable = [],
      n_proxyTableForget = ms_dur (or_default (ProxyNodeForgetMs cfg) 64000),
      n_ringMembers = [], n_dropCounters = [], n_counters = zero_counters\<rparr>"

definition randSeqStart :: "(byte \<times> byte) option \<Rightarrow> int \<Rightarrow> u16" where
  "randSeqStart rnd unixNano =
     (case rnd of Some (b0, b1) \<Rightarrow> Uint16 b0 b1 | None \<Rightarrow> word_of_int (unixNano AND 0xffff))"

section \<open>Counters\<close>

definition noteDrop :: "string \<Rightarrow> node \<Rightarrow> node" where
  "noteDrop reason n =
     n\<lparr>n_dropCounters := gm_put reason
        ((case gm_get (n_dropCounters n) reason of None \<Rightarrow> 0 | Some v \<Rightarrow> v) + 1) (n_dropCounters n)\<rparr>"

definition count_port :: "string \<Rightarrow> counters \<Rightarrow> counters" where
  "count_port pd c =
     (if pd = ''lan_a/in'' then c\<lparr>lanAIn := lanAIn c + 1\<rparr>
      else if pd = ''lan_b/in'' then c\<lparr>lanBIn := lanBIn c + 1\<rparr>
      else if pd = ''lan_a/out'' then c\<lparr>lanAOut := lanAOut c + 1\<rparr>
      else if pd = ''lan_b/out'' then c\<lparr>lanBOut := lanBOut c + 1\<rparr>
      else if pd = ''interlink/in'' then c\<lparr>interIn := interIn c + 1\<rparr>
      else if pd = ''interlink/out'' then c\<lparr>interOut := interOut c + 1\<rparr>
      else c)"

definition countFrame :: "string \<Rightarrow> string \<Rightarrow> node \<Rightarrow> node" where
  "countFrame port dir n = n\<lparr>n_counters := count_port (port @ ''/'' @ dir) (n_counters n)\<rparr>"

section \<open>Writing to a port\<close>

fun get_port :: "portsel \<Rightarrow> node \<Rightarrow> PacketPort option" where
  "get_port PLanA n = n_LanA n"
| "get_port PLanB n = n_LanB n"
| "get_port PInterlink n = n_Interlink n"

fun set_port :: "portsel \<Rightarrow> PacketPort option \<Rightarrow> node \<Rightarrow> node" where
  "set_port PLanA p n = n\<lparr>n_LanA := p\<rparr>"
| "set_port PLanB p n = n\<lparr>n_LanB := p\<rparr>"
| "set_port PInterlink p n = n\<lparr>n_Interlink := p\<rparr>"

text \<open>\<open>port.Write(f)\<close>: a nil port panics, and so does \<open>&frame[0]\<close> of an empty frame.\<close>

definition port_Write :: "env \<Rightarrow> portsel \<Rightarrow> bytes \<Rightarrow> node \<Rightarrow> (bool \<times> node) option" where
  "port_Write e p f n =
     (case get_port p n of
        None \<Rightarrow> None
      | Some pp \<Rightarrow>
        if f = [] then None
        else if env_wr e p f
        then Some (True, set_port p (Some (pp\<lparr>pp_sent := pp_sent pp @ [f]\<rparr>)) n)
        else Some (False, n))"

text \<open>The recurring \<open>if _, err := port.Write(f); err == nil { n.countFrame(name, "out") }\<close>.\<close>

definition write_count :: "env \<Rightarrow> portsel \<Rightarrow> string \<Rightarrow> bytes \<Rightarrow> node \<Rightarrow> node option" where
  "write_count e p name f n =
     do { (ok, n) \<leftarrow> port_Write e p f n;
          Some (if ok then countFrame name ''out'' n else n) }"

section \<open>Addresses and lifetimes\<close>

definition entryForgetMs :: "Config \<Rightarrow> int" where
  "entryForgetMs c = (if EntryForgetMs c > 0 then EntryForgetMs c else 640)"

definition srcMACBytes :: "bytes \<Rightarrow> bytes option" where
  "srcMACBytes frame = (if length frame < 12 then None else Some (gslice 6 12 frame))"

text \<open>\<open>n.mac != nil && bytesEqual(n.mac, srcMACBytes(frame))\<close>\<close>

definition own_frame :: "node \<Rightarrow> bytes \<Rightarrow> bool" where
  "own_frame n frame =
     (case n_mac n of
        None \<Rightarrow> False
      | Some mac \<Rightarrow> mac = (case srcMACBytes frame of None \<Rightarrow> [] | Some b \<Rightarrow> b))"

definition nodeMAC :: "env \<Rightarrow> node \<Rightarrow> bytes option" where
  "nodeMAC e n =
     (let cfg = n_Config n;
          synthetic = Some [0x02, 0x50, 0x50, word_of_int (drop_bit 8 (PRPID cfg)), word_of_int (PRPID cfg), 0x00]
      in case n_mac n of
           Some mac \<Rightarrow> Some mac
         | None \<Rightarrow>
           if LanAInterface cfg \<noteq> ''''
           then (case env_hw e (LanAInterface cfg) of
                   Some hw \<Rightarrow> (if hw = [] then None else Some hw)
                 | None \<Rightarrow> synthetic)
           else synthetic)"

definition SetNodeMAC :: "bytes \<Rightarrow> node \<Rightarrow> node" where
  "SetNodeMAC mac n = n\<lparr>n_mac := (if mac = [] then None else Some mac)\<rparr>"

section \<open>Forwarding policy\<close>

text \<open>\<open>strings.ToLower\<close> on the ASCII letters, the only ones that can become hex digits.\<close>

definition ascii_lower :: "char \<Rightarrow> char" where
  "ascii_lower c = (if 65 \<le> (of_char c :: nat) \<and> of_char c \<le> (90 :: nat) then char_of (of_char c + 32 :: nat) else c)"

definition trimPrefix0x :: "string \<Rightarrow> string" where
  "trimPrefix0x s = (if take 2 s = ''0x'' then drop 2 s else s)"

definition normHex :: "string \<Rightarrow> string" where
  "normHex s = filter (\<lambda>c. c \<noteq> CHR '':'') (filter (\<lambda>c. c \<noteq> CHR ''-'') (trimPrefix0x (map ascii_lower s)))"

text \<open>\<open>strconv.ParseUint\<close> with base 16 on one digit.\<close>

definition hexval :: "char \<Rightarrow> nat option" where
  "hexval c =
     (let v = (of_char c :: nat) in
        if 48 \<le> v \<and> v \<le> 57 then Some (v - 48)
        else if 97 \<le> v \<and> v \<le> 102 then Some (v - 87)
        else if 65 \<le> v \<and> v \<le> 70 then Some (v - 55)
        else None)"

fun parse_pairs :: "string \<Rightarrow> bytes option" where
  "parse_pairs [] = Some []"
| "parse_pairs [a] = None"
| "parse_pairs (a # b # r) =
     do { x \<leftarrow> hexval a; y \<leftarrow> hexval b; out \<leftarrow> parse_pairs r; Some (of_nat (16 * x + y) # out) }"

text \<open>The empty list is the \<open>nil\<close> of an empty or malformed pattern.\<close>

definition parseMulticastPattern :: "string \<Rightarrow> bytes" where
  "parseMulticastPattern pattern =
     (let hex = normHex pattern in
        if hex = '''' \<or> length hex mod 2 \<noteq> 0 \<or> length hex > 12 then []
        else case parse_pairs hex of None \<Rightarrow> [] | Some out \<Rightarrow> out)"

definition multicastAllowed :: "Config \<Rightarrow> bytes \<Rightarrow> bool" where
  "multicastAllowed c frame =
     (if length frame \<ge> 6 \<and> list_all (\<lambda>b. b = 0xff) (gslice 0 6 frame) then True
      else let prefix = parseMulticastPattern (MulticastFirstOctet c) in
        if length prefix = 0 then True
        else if length frame < length prefix then False
        else list_all (\<lambda>i. frame ! i = prefix ! i) [0..<length prefix])"

definition shouldForwardToInterlink :: "env \<Rightarrow> node \<Rightarrow> bytes \<Rightarrow> bool" where
  "shouldForwardToInterlink e n frame =
     (if ForwardAll (n_Config n) then True
      else if IsMulticastMAC frame then multicastAllowed (n_Config n) frame
      else case gm_get (n_proxyTable n) (GetDstMAC frame) of
             Some seen \<Rightarrow> time_Sub (env_now e) seen \<le> n_proxyTableForget n
           | None \<Rightarrow> False)"

definition containsInt :: "int list \<Rightarrow> int \<Rightarrow> bool" where
  "containsInt xs v = list_ex (\<lambda>x. x = v) xs"

definition learnRingMember :: "env \<Rightarrow> string \<Rightarrow> node \<Rightarrow> node" where
  "learnRingMember e srcMAC n = n\<lparr>n_ringMembers := gm_put srcMAC (env_now e) (n_ringMembers n)\<rparr>"

definition unicastToRingMember :: "node \<Rightarrow> bytes \<Rightarrow> bool" where
  "unicastToRingMember n dst =
     (if length dst \<noteq> 6 \<or> dst ! 0 AND 0x01 = 1 then False
      else gm_get (n_ringMembers n) (GetDstMAC dst) \<noteq> None)"

definition dup_Find :: "env \<Rightarrow> node \<Rightarrow> string \<Rightarrow> int \<Rightarrow> bool" where
  "dup_Find e n srcMAC seq = Find (env_now e) (n_dupTable n) srcMAC seq"

definition dup_Insert :: "env \<Rightarrow> string \<Rightarrow> int \<Rightarrow> int \<Rightarrow> node \<Rightarrow> node" where
  "dup_Insert e srcMAC seq lanID n =
     n\<lparr>n_dupTable := InsertWithExpiry (env_rng e) (env_now e) (n_dupTable n) srcMAC seq lanID
                       (entryForgetMs (n_Config n))\<rparr>"

definition learnProxy :: "env \<Rightarrow> string \<Rightarrow> node \<Rightarrow> node" where
  "learnProxy e srcMAC n = n\<lparr>n_proxyTable := gm_put srcMAC (env_now e) (n_proxyTable n)\<rparr>"

end
