(* ===== verification/NodePRP.thy ===== *)
theory NodePRP
  imports Node
begin

text \<open>
  The PRP side of \<open>internal/prp/prp.go\<close>: \<open>handleIncomingPRPFrame\<close> (LAN to SAN) and
  \<open>handleInterlinkFrame\<close> (SAN to both LANs).
\<close>

unbundle bit_operations_syntax

definition handleIncomingPRPFrame :: "env \<Rightarrow> frameEvent \<Rightarrow> node \<Rightarrow> node option" where
  "handleIncomingPRPFrame e ev n =
     (let n = countFrame (ev_iface ev) ''in'' n in
      if \<not> IsPRPFrame (ev_frame ev) then Some (noteDrop ''malformed'' n)
      else case DecodeRCT (ev_frame ev) of
        Inl _ \<Rightarrow> Some n
      | Inr (lanID, seq, payload) \<Rightarrow>
        let expected = (if ev_iface ev = ''lan_b'' then 1 else 0) in
        if lanID \<noteq> expected then Some (noteDrop ''path'' n)
        else let srcMAC = GetSrcMAC (ev_frame ev) in
        if own_frame n (ev_frame ev) then Some n
        else if dup_Find e n srcMAC seq then Some (noteDrop ''dup'' n)
        else let n = dup_Insert e srcMAC seq lanID n in
        if \<not> IsHSRNode (n_Config n) \<and> n_Interlink n \<noteq> None
        then (if \<not> shouldForwardToInterlink e n payload then Some (noteDrop ''filter'' n)
              else write_count e PInterlink ''interlink'' payload n)
        else Some n)"

definition handleInterlinkFrame :: "env \<Rightarrow> frameEvent \<Rightarrow> node \<Rightarrow> node option" where
  "handleInterlinkFrame e ev n =
     (let n = countFrame ''interlink'' ''in'' n; cfg = n_Config n in
      do { drop \<leftarrow> (if length (VLANFilter cfg) > 0
                  then do { (vlanID, tagged) \<leftarrow> GetVLANID (ev_frame ev);
                            Some (\<not> tagged \<or> \<not> containsInt (VLANFilter cfg) vlanID) }
                  else Some False);
           if drop then Some (noteDrop ''filter'' n)
           else do {
             let n = (if length (ev_frame ev) \<ge> 12 then learnProxy e (GetSrcMAC (ev_frame ev)) n else n);
             let srcMAC = GetSrcMAC (ev_frame ev);
             if \<not> TrailerEnabled cfg
             then do { (_, n) \<leftarrow> port_Write e PLanA (ev_frame ev) n;
                       (_, n) \<leftarrow> port_Write e PLanB (ev_frame ev) n;
                       Some (countFrame ''lan_b'' ''out'' (countFrame ''lan_a'' ''out'' n)) }
             else do { let (seq, sm) = sm_Next (n_seqMgr n) srcMAC;
                       let n = n\<lparr>n_seqMgr := sm\<rparr>;
                       let lanAFrame = EncodeRCT (ev_frame ev) seq 0;
                       let lanBFrame = EncodeRCT (ev_frame ev) seq 1;
                       n \<leftarrow> write_count e PLanA ''lan_a'' lanAFrame n;
                       write_count e PLanB ''lan_b'' lanBFrame n } } })"

section \<open>What the helpers leave of the node\<close>

definition sent :: "portsel \<Rightarrow> node \<Rightarrow> bytes list" where
  "sent p n = (case get_port p n of None \<Rightarrow> [] | Some pp \<Rightarrow> pp_sent pp)"

abbreviation bound :: "portsel \<Rightarrow> node \<Rightarrow> bool" where
  "bound p n \<equiv> get_port p n \<noteq> None"

text \<open>The frames a write adds to the port: the frame, unless the kernel refuses it.\<close>

definition wrote :: "env \<Rightarrow> portsel \<Rightarrow> bytes \<Rightarrow> bytes list" where
  "wrote e p f = (if env_wr e p f then [f] else [])"

text \<open>
  The node without what a frame merely passing through changes: what was sent, the duplicate
  table and the counters. The forwarding decisions depend on this part alone.
\<close>

definition quiet_port :: "PacketPort \<Rightarrow> PacketPort" where
  "quiet_port pp = pp\<lparr>pp_sent := []\<rparr>"

definition quiet :: "node \<Rightarrow> node" where
  "quiet n = n\<lparr>n_LanA := map_option quiet_port (n_LanA n), n_LanB := map_option quiet_port (n_LanB n),
     n_Interlink := map_option quiet_port (n_Interlink n), n_dupTable := NewTable 0,
     n_dropCounters := [], n_counters := zero_counters\<rparr>"

lemma quiet_fields [node_simps]:
  "n_Config (quiet n) = n_Config n" "n_mac (quiet n) = n_mac n" "n_seqMgr (quiet n) = n_seqMgr n"
  "n_proxyTable (quiet n) = n_proxyTable n" "n_proxyTableForget (quiet n) = n_proxyTableForget n"
  "n_ringMembers (quiet n) = n_ringMembers n" "n_supervisionSeen (quiet n) = n_supervisionSeen n"
  "n_supervisionSeqs (quiet n) = n_supervisionSeqs n" "n_supSeq (quiet n) = n_supSeq n"
  "n_supervisionForget (quiet n) = n_supervisionForget n" "n_frameBuffer (quiet n) = n_frameBuffer n"
  "n_stopped (quiet n) = n_stopped n"
  by (simp_all add: quiet_def)

lemma bound_quiet [node_simps]: "bound p (quiet n) = bound p n"
  by (cases p; simp add: quiet_def)

lemma Interlink_quiet [node_simps]: "n_Interlink (quiet n) = None \<longleftrightarrow> n_Interlink n = None"
  by (simp add: quiet_def)

lemma quiet_decisions [node_simps]:
  "own_frame (quiet n) f = own_frame n f"
  "shouldForwardToInterlink e (quiet n) f = shouldForwardToInterlink e n f"
  "unicastToRingMember (quiet n) d = unicastToRingMember n d"
  by (simp_all add: own_frame_def shouldForwardToInterlink_def unicastToRingMember_def node_simps
      cong: option.case_cong)

lemma quiet_helpers [node_simps]:
  "quiet (noteDrop r n) = quiet n" "quiet (countFrame p d n) = quiet n"
  "quiet (dup_Insert e m s l n) = quiet n"
  "quiet (learnRingMember e m n) = learnRingMember e m (quiet n)"
  "quiet (learnProxy e m n) = learnProxy e m (quiet n)"
  "quiet (n\<lparr>n_seqMgr := sm\<rparr>) = (quiet n)\<lparr>n_seqMgr := sm\<rparr>"
  by (simp_all add: quiet_def noteDrop_def countFrame_def dup_Insert_def learnRingMember_def learnProxy_def)

lemma helper_fields [node_simps]:
  "n_Config (noteDrop r n) = n_Config n" "n_Config (countFrame p d n) = n_Config n"
  "n_Config (dup_Insert e m s l n) = n_Config n" "n_Config (learnRingMember e m n) = n_Config n"
  "n_Config (learnProxy e m n) = n_Config n"
  "n_dupTable (noteDrop r n) = n_dupTable n" "n_dupTable (countFrame p d n) = n_dupTable n"
  "n_dupTable (learnRingMember e m n) = n_dupTable n" "n_dupTable (learnProxy e m n) = n_dupTable n"
  "n_dropCounters (countFrame p d n) = n_dropCounters n"
  "n_seqMgr (noteDrop r n) = n_seqMgr n" "n_seqMgr (countFrame p d n) = n_seqMgr n"
  "n_seqMgr (dup_Insert e m s l n) = n_seqMgr n" "n_seqMgr (learnProxy e m n) = n_seqMgr n"
  "n_ringMembers (countFrame p d n) = n_ringMembers n" "n_ringMembers (noteDrop r n) = n_ringMembers n"
  by (simp_all add: noteDrop_def countFrame_def dup_Insert_def learnRingMember_def learnProxy_def)

lemma get_port_helpers [node_simps]:
  "get_port p (noteDrop r n) = get_port p n" "get_port p (countFrame nm d n) = get_port p n"
  "get_port p (dup_Insert e m s l n) = get_port p n" "get_port p (learnProxy e m n) = get_port p n"
  "get_port p (learnRingMember e m n) = get_port p n" "get_port p (n\<lparr>n_seqMgr := sm\<rparr>) = get_port p n"
  "get_port p (set_port q x n) = (if p = q then x else get_port p n)"
  by (cases p; cases q;
      simp add: noteDrop_def countFrame_def dup_Insert_def learnRingMember_def learnProxy_def)+

lemma Interlink_helpers [node_simps]:
  "n_Interlink (noteDrop r n) = n_Interlink n" "n_Interlink (countFrame nm d n) = n_Interlink n"
  "n_Interlink (dup_Insert e m s l n) = n_Interlink n" "n_Interlink (learnProxy e m n) = n_Interlink n"
  "n_Interlink (learnRingMember e m n) = n_Interlink n"
  using get_port_helpers(1-5)[of PInterlink] by simp_all

lemma sent_helpers [node_simps]:
  "sent p (noteDrop r n) = sent p n" "sent p (countFrame nm d n) = sent p n"
  "sent p (dup_Insert e m s l n) = sent p n" "sent p (learnProxy e m n) = sent p n"
  "sent p (learnRingMember e m n) = sent p n" "sent p (n\<lparr>n_seqMgr := sm\<rparr>) = sent p n"
  by (simp_all add: sent_def node_simps)

lemma decisions_helpers [node_simps]:
  "own_frame (countFrame p d n) f = own_frame n f" "own_frame (learnProxy e' m n) f = own_frame n f"
  "dup_Find e (countFrame p d n) m s = dup_Find e n m s"
  "shouldForwardToInterlink e (countFrame p d n) f = shouldForwardToInterlink e n f"
  "shouldForwardToInterlink e (dup_Insert e' m s l n) f = shouldForwardToInterlink e n f"
  "unicastToRingMember (countFrame p d n) x = unicastToRingMember n x"
  by (simp_all add: own_frame_def dup_Find_def shouldForwardToInterlink_def unicastToRingMember_def
      countFrame_def dup_Insert_def learnProxy_def cong: option.case_cong)

text \<open>A write, with its counter or without, changes nothing but its port and the counters.\<close>

definition same_core :: "node \<Rightarrow> node \<Rightarrow> bool" where
  "same_core n n' \<longleftrightarrow> quiet n' = quiet n \<and> n_dupTable n' = n_dupTable n \<and> n_dropCounters n' = n_dropCounters n"

lemma same_coreD:
  assumes "same_core n n'"
  shows "n_Config n' = n_Config n" "n_ringMembers n' = n_ringMembers n" "n_seqMgr n' = n_seqMgr n"
    "n_dupTable n' = n_dupTable n" "quiet n' = quiet n" "n_mac n' = n_mac n"
    "bound p n' = bound p n" "n_Interlink n' = None \<longleftrightarrow> n_Interlink n = None"
    "unicastToRingMember n' d = unicastToRingMember n d"
    "shouldForwardToInterlink e n' f = shouldForwardToInterlink e n f"
  using assms quiet_fields[of n] quiet_fields[of n'] bound_quiet[of p n] bound_quiet[of p n']
    Interlink_quiet[of n] Interlink_quiet[of n']
    quiet_decisions[where n = n] quiet_decisions[where n = n']
  unfolding same_core_def by (metis+)

lemma same_core_trans: "same_core a b \<Longrightarrow> same_core b c \<Longrightarrow> same_core a c"
  by (simp add: same_core_def)

lemma port_Write_spec:
  assumes "bound p n" and "f \<noteq> []"
  obtains n' where "port_Write e p f n = Some (env_wr e p f, n')"
    and "\<forall>q. sent q n' = sent q n @ (if q = p then wrote e p f else [])" and "same_core n n'"
proof -
  from assms(1) obtain pp where pp: "get_port p n = Some pp" by auto
  show thesis
  proof (cases "env_wr e p f")
    case True
    let ?n = "set_port p (Some (pp\<lparr>pp_sent := pp_sent pp @ [f]\<rparr>)) n"
    have "same_core n ?n"
      using pp by (cases p) (auto simp: same_core_def quiet_def quiet_port_def)
    with pp assms(2) True show thesis
      by (intro that[of ?n]) (auto simp: port_Write_def sent_def wrote_def node_simps)
  next
    case False
    with pp assms(2) show thesis
      by (intro that[of n]) (auto simp: port_Write_def wrote_def same_core_def)
  qed
qed

lemma write_count_spec:
  assumes "bound p n" and "f \<noteq> []"
  obtains n' where "write_count e p name f n = Some n'"
    and "\<forall>q. sent q n' = sent q n @ (if q = p then wrote e p f else [])" and "same_core n n'"
proof -
  obtain n' where n': "port_Write e p f n = Some (env_wr e p f, n')"
    "\<forall>q. sent q n' = sent q n @ (if q = p then wrote e p f else [])" "same_core n n'"
    using port_Write_spec[OF assms] .
  show thesis
    by (rule that[of "if env_wr e p f then countFrame name ''out'' n' else n'"])
      (use n' in \<open>auto simp: write_count_def node_simps same_core_def\<close>)
qed

lemma write_count_None: "write_count e p name f n = None \<longleftrightarrow> \<not> bound p n \<or> f = []"
  by (auto simp: write_count_def port_Write_def split: option.splits)

section \<open>The receive path\<close>

text \<open>The lane a frame must carry on the port it came in.\<close>

definition lane_of :: "string \<Rightarrow> int" where
  "lane_of ifc = (if ifc = ''lan_b'' then 1 else 0)"

text \<open>The pair a PRP frame is offered under, if its trailer, its lane and its source are in order.\<close>

definition prp_pair :: "node \<Rightarrow> env \<times> frameEvent \<Rightarrow> (string \<times> int) option" where
  "prp_pair n x =
     (case DecodeRCT (ev_frame (snd x)) of
        Inl _ \<Rightarrow> None
      | Inr (l, s, _) \<Rightarrow>
        if l = lane_of (ev_iface (snd x)) \<and> \<not> own_frame n (ev_frame (snd x))
        then Some (GetSrcMAC (ev_frame (snd x)), s) else None)"

text \<open>What an accepted frame puts on a port: the frame without its trailer, on the interlink.\<close>

definition prp_emit :: "portsel \<Rightarrow> node \<Rightarrow> env \<times> frameEvent \<Rightarrow> bytes list" where
  "prp_emit p n x =
     (case DecodeRCT (ev_frame (snd x)) of
        Inl _ \<Rightarrow> []
      | Inr (_, _, payload) \<Rightarrow>
        if p = PInterlink \<and> n_Interlink n \<noteq> None \<and> shouldForwardToInterlink (fst x) n payload
        then wrote (fst x) PInterlink payload else [])"

lemma DecodeRCT_nonempty: "DecodeRCT f = Inr (l, s, p) \<Longrightarrow> p \<noteq> []"
  by (erule DecodeRCT_InrE) auto

text \<open>A frame without a pair, and a duplicate, change nothing but the counters.\<close>

definition only_counted :: "node \<Rightarrow> node \<Rightarrow> bool" where
  "only_counted n n' \<longleftrightarrow> quiet n' = quiet n \<and> n_dupTable n' = n_dupTable n \<and> (\<forall>p. sent p n' = sent p n)"

lemma only_counted_helpers [node_simps]:
  "only_counted n (noteDrop r (countFrame p d n))" "only_counted n (countFrame p d n)" "only_counted n n"
  by (simp_all add: only_counted_def node_simps)

lemma handleIncomingPRP_skip:
  assumes "prp_pair (quiet n) (e, ev) = None"
  shows "\<exists>n'. handleIncomingPRPFrame e ev n = Some n' \<and> only_counted n n'"
  using assms
  by (cases "DecodeRCT (ev_frame ev)")
    (auto simp: handleIncomingPRPFrame_def prp_pair_def lane_of_def IsPRPFrame_iff node_simps Let_def
      split: if_splits)

lemma handleIncomingPRP_dup:
  assumes "prp_pair (quiet n) (e, ev) = Some (m, s)" and "dup_Find e n m s"
  shows "handleIncomingPRPFrame e ev n = Some (noteDrop ''dup'' (countFrame (ev_iface ev) ''in'' n))"
  using assms
  by (cases "DecodeRCT (ev_frame ev)")
    (auto simp: handleIncomingPRPFrame_def prp_pair_def lane_of_def IsPRPFrame_iff node_simps Let_def
      split: if_splits)

lemma handleIncomingPRP_accept:
  assumes "prp_pair (quiet n) (e, ev) = Some (m, s)" and "\<not> dup_Find e n m s"
    and "\<not> IsHSRNode (n_Config n)"
  obtains n' where "handleIncomingPRPFrame e ev n = Some n'"
    and "quiet n' = quiet n" and "n_dupTable n' = n_dupTable (dup_Insert e m s (lane_of (ev_iface ev)) n)"
    and "\<forall>p. sent p n' = sent p n @ prp_emit p (quiet n) (e, ev)"
proof -
  obtain payload where dec: "DecodeRCT (ev_frame ev) = Inr (lane_of (ev_iface ev), s, payload)"
    and own: "\<not> own_frame n (ev_frame ev)" and m: "m = GetSrcMAC (ev_frame ev)"
    using assms(1) by (auto simp: prp_pair_def node_simps split: sum.splits if_splits)
  define n1 where "n1 = dup_Insert e m s (lane_of (ev_iface ev)) (countFrame (ev_iface ev) ''in'' n)"
  have eq: "handleIncomingPRPFrame e ev n =
      (if n_Interlink n1 \<noteq> None
       then if \<not> shouldForwardToInterlink e n1 payload then Some (noteDrop ''filter'' n1)
            else write_count e PInterlink ''interlink'' payload n1
       else Some n1)"
    using assms(2,3) dec own m
    by (auto simp: handleIncomingPRPFrame_def IsPRPFrame_iff n1_def node_simps Let_def lane_of_def)
  have n1: "quiet n1 = quiet n" "n_dupTable n1 = n_dupTable (dup_Insert e m s (lane_of (ev_iface ev)) n)"
    "\<And>p. sent p n1 = sent p n" "n_Interlink n1 = n_Interlink n"
    "shouldForwardToInterlink e n1 payload = shouldForwardToInterlink e n payload"
    by (simp_all add: n1_def node_simps, simp add: dup_Insert_def countFrame_def)
  show thesis
  proof (cases "n_Interlink n \<noteq> None \<and> shouldForwardToInterlink e n payload")
    case True
    then have "bound PInterlink n1" using n1(4) by simp
    then obtain n' where "write_count e PInterlink ''interlink'' payload n1 = Some n'"
      "\<forall>q. sent q n' = sent q n1 @ (if q = PInterlink then wrote e PInterlink payload else [])"
      "same_core n1 n'"
      using DecodeRCT_nonempty[OF dec] by (rule write_count_spec)
    with True n1 dec eq show thesis
      by (intro that[of n']) (auto simp: prp_emit_def same_core_def node_simps)
  next
    case False
    with n1 dec eq show thesis
      by (intro that[of "if n_Interlink n1 \<noteq> None then noteDrop ''filter'' n1 else n1"])
        (auto simp: prp_emit_def node_simps)
  qed
qed

section \<open>The send path\<close>

text \<open>One sequence number, two copies that differ in the lane only.\<close>

lemma handleInterlinkFrame_tags:
  assumes "TrailerEnabled (n_Config n)" and "VLANFilter (n_Config n) = []"
    and "bound PLanA n" and "bound PLanB n" and "12 \<le> length (ev_frame ev)"
  defines "src \<equiv> GetSrcMAC (ev_frame ev)"
  defines "seq \<equiv> sm_peek (n_seqMgr n) src"
  obtains n' where "handleInterlinkFrame e ev n = Some n'"
    and "sent PLanA n' = sent PLanA n @ wrote e PLanA (EncodeRCT (ev_frame ev) seq 0)"
    and "sent PLanB n' = sent PLanB n @ wrote e PLanB (EncodeRCT (ev_frame ev) seq 1)"
    and "sent PInterlink n' = sent PInterlink n"
    and "n_seqMgr n' = snd (sm_Next (n_seqMgr n) src)"
    and "n_dupTable n' = n_dupTable n" and "n_Config n' = n_Config n" and "\<forall>p. bound p n' = bound p n"
proof -
  define n1 where "n1 = (learnProxy e src (countFrame ''interlink'' ''in'' n))\<lparr>n_seqMgr := snd (sm_Next (n_seqMgr n) src)\<rparr>"
  have ne: "EncodeRCT (ev_frame ev) seq l \<noteq> []" for l
    by (simp add: EncodeRCT_eq put16_def)
  have eq: "handleInterlinkFrame e ev n =
      do { n \<leftarrow> write_count e PLanA ''lan_a'' (EncodeRCT (ev_frame ev) seq 0) n1;
           write_count e PLanB ''lan_b'' (EncodeRCT (ev_frame ev) seq 1) n }"
    using assms(1,2,5)
    by (simp add: handleInterlinkFrame_def node_simps Let_def case_prod_beta n1_def seq_def src_def
        sm_Next_fst)
  have "bound PLanA n1" using assms(3) by (simp add: n1_def learnProxy_def countFrame_def)
  then obtain n2 where n2: "write_count e PLanA ''lan_a'' (EncodeRCT (ev_frame ev) seq 0) n1 = Some n2"
    "\<forall>q. sent q n2 = sent q n1 @ (if q = PLanA then wrote e PLanA (EncodeRCT (ev_frame ev) seq 0) else [])"
    "same_core n1 n2" using ne by (rule write_count_spec)
  have "bound PLanB n2" using assms(4) same_coreD(7)[OF n2(3), of PLanB]
    by (simp add: n1_def learnProxy_def countFrame_def)
  then obtain n3 where n3: "write_count e PLanB ''lan_b'' (EncodeRCT (ev_frame ev) seq 1) n2 = Some n3"
    "\<forall>q. sent q n3 = sent q n2 @ (if q = PLanB then wrote e PLanB (EncodeRCT (ev_frame ev) seq 1) else [])"
    "same_core n2 n3" using ne by (rule write_count_spec)
  have "bound p n1 = bound p n" for p
    by (cases p) (simp_all add: n1_def learnProxy_def countFrame_def)
  then show thesis
    by (intro that[of n3])
      (use eq n2 n3 same_coreD[OF n2(3)] same_coreD[OF n3(3)] in \<open>auto simp: n1_def node_simps\<close>)
qed

end
