(* ===== verification/NodeHSR.thy ===== *)
theory NodeHSR
  imports NodePRP
begin

text \<open>
  \<open>internal/prp/hsr.go\<close>: ring handling of the three HSR roles (hsr-san, hsr-prp, hsr-hsr), the
  delivery onto a coupled PRP LAN and the counter snapshot.
\<close>

unbundle bit_operations_syntax

section \<open>The counter snapshot\<close>

record Status =
  st_Role :: string
  st_LanID :: string
  st_NetID :: int
  st_LanAIn :: u64
  st_LanBIn :: u64
  st_LanAOut :: u64
  st_LanBOut :: u64
  st_InterIn :: u64
  st_InterOut :: u64
  st_SupSent :: u64
  st_DupTableSize :: int
  st_Drops :: "int gomap"

definition Snapshot :: "node \<Rightarrow> Status" where
  "Snapshot n = (let c = n_counters n; cfg = n_Config n in
     \<lparr>st_Role = cfg_Role cfg, st_LanID = cfg_LanID cfg, st_NetID = cfg_NetID cfg,
      st_LanAIn = lanAIn c, st_LanBIn = lanBIn c, st_LanAOut = lanAOut c, st_LanBOut = lanBOut c,
      st_InterIn = interIn c, st_InterOut = interOut c, st_SupSent = supSent c,
      st_DupTableSize = Size (n_dupTable n),
      st_Drops = fold (\<lambda>(k, v) m. gm_put k v m) (n_dropCounters n) []\<rparr>)"

section \<open>Ring handling\<close>

definition couplingToPRP :: "env \<Rightarrow> bytes \<Rightarrow> int \<Rightarrow> node \<Rightarrow> node option" where
  "couplingToPRP e original seq n =
     (let rct = EncodeRCT original (word_of_int seq) (LanID (n_Config n))
      in write_count e PInterlink ''interlink'' rct n)"

text \<open>
  The part of \<open>handleIncomingHSRFrame\<close> after the frame was accepted and forwarded around the ring:
  what goes to the interlink, by role.
\<close>

definition hsrDeliver :: "env \<Rightarrow> bytes \<Rightarrow> int \<Rightarrow> int \<Rightarrow> bytes \<Rightarrow> node \<Rightarrow> node option" where
  "hsrDeliver e frame path seq payload n =
     do { n \<leftarrow> (if IsHSRHSR (n_Config n) \<and> n_Interlink n \<noteq> None
               then (if unicastToRingMember n (take 6 frame) then Some (noteDrop ''filter'' n)
                     else write_count e PInterlink ''interlink'' frame n)
               else Some n);
          if IsHSRPRPCoupling (n_Config n)
          then (if drop_bit 1 path \<noteq> NetID (n_Config n)
                then (case StripHSR frame of
                        Inl _ \<Rightarrow> Some (noteDrop ''malformed'' n)
                      | Inr original \<Rightarrow> couplingToPRP e original seq n)
                else if path AND 1 = LanID (n_Config n) then Some (noteDrop ''own'' n)
                else Some (noteDrop ''path'' n))
          else if IsHSRHSR (n_Config n) then Some n
          else if unicastToRingMember n (take 6 frame) then Some (noteDrop ''filter'' n)
          else if \<not> shouldForwardToInterlink e n payload then Some (noteDrop ''filter'' n)
          else (case StripHSR frame of
                  Inl _ \<Rightarrow> Some (noteDrop ''malformed'' n)
                | Inr original \<Rightarrow> write_count e PInterlink ''interlink'' original n) }"

definition handleIncomingHSRFrame :: "env \<Rightarrow> frameEvent \<Rightarrow> node \<Rightarrow> node option" where
  "handleIncomingHSRFrame e ev n =
     (let n = countFrame (ev_iface ev) ''in'' n in
      case DecodeHSR (ev_frame ev) of
        Inl _ \<Rightarrow> Some (noteDrop ''malformed'' n)
      | Inr (path, seq, encap, payload) \<Rightarrow>
        let srcMAC = GetSrcMAC (ev_frame ev);
            other = (if ev_iface ev = ''lan_b'' then ''lan_a'' else ''lan_b'') in
        if own_frame n (ev_frame ev) then Some (noteDrop ''own'' n)
        else if dup_Find e n srcMAC seq then Some (noteDrop ''dup'' n)
        else let n = learnRingMember e srcMAC (dup_Insert e srcMAC seq 0 n) in
        do { n \<leftarrow> (case RewriteHSRPathLane (ev_frame ev) (other = ''lan_a'') of
                    Inl _ \<Rightarrow> Some n
                  | Inr fwd \<Rightarrow> write_count e (if other = ''lan_a'' then PLanA else PLanB) other fwd n);
             hsrDeliver e (ev_frame ev) path seq payload n })"

text \<open>The first half of \<open>handleHSRInterlinkFrame\<close>: a QuadBox takes a frame from the other ring.\<close>

definition quadboxInterlink :: "env \<Rightarrow> frameEvent \<Rightarrow> string \<Rightarrow> node \<Rightarrow> node option" where
  "quadboxInterlink e ev srcMAC n =
     (case DecodeHSR (ev_frame ev) of
        Inl _ \<Rightarrow> Some (noteDrop ''malformed'' n)
      | Inr (_, seq, _, _) \<Rightarrow>
        if own_frame n (ev_frame ev) then Some (noteDrop ''own'' n)
        else if dup_Find e n srcMAC seq then Some (noteDrop ''dup'' n)
        else let n = dup_Insert e srcMAC seq 0 n in
        (case RewriteHSRPath (ev_frame ev) 0 of
           Inl _ \<Rightarrow> Some (noteDrop ''malformed'' n)
         | Inr fwd \<Rightarrow> do { n \<leftarrow> write_count e PLanA ''lan_a'' fwd n;
                           write_count e PLanB ''lan_b'' fwd n }))"

text \<open>
  The tagged frame: the HSR tag goes behind the addresses, or behind the first VLAN tag;
  \<open>frame[18:]\<close> and \<open>frame[14:]\<close> panic on a shorter frame.
\<close>

definition hsrBody :: "bytes \<Rightarrow> int \<Rightarrow> u16 \<Rightarrow> bytes option" where
  "hsrBody frame path seq =
     (let et = GetEtherType frame in
        if IsVLANFrame frame
        then (if length frame < 18 then None
              else Some (take 12 frame @ gslice 12 16 frame @ EncodeHSR (drop 18 frame) path seq et))
        else if length frame < 14 then None
        else Some (take 12 frame @ EncodeHSR (drop 14 frame) path seq et))"

definition handleHSRInterlinkFrame :: "env \<Rightarrow> frameEvent \<Rightarrow> node \<Rightarrow> node option" where
  "handleHSRInterlinkFrame e ev n =
     (let n = countFrame ''interlink'' ''in'' n; cfg = n_Config n; srcMAC = GetSrcMAC (ev_frame ev) in
      if IsHSRHSR cfg then quadboxInterlink e ev srcMAC n
      else
        let n = (if length (ev_frame ev) \<ge> 12 then learnProxy e srcMAC n else n);
            path = couplingPath cfg in
        case (if IsHSRPRPCoupling cfg
              then (case DecodeRCT (ev_frame ev) of
                      Inl _ \<Rightarrow> None
                    | Inr (_, rctSeq, _) \<Rightarrow> Some (word_of_int rctSeq, n))
              else (case sm_Next (n_seqMgr n) srcMAC of (seq, sm) \<Rightarrow> Some (seq, n\<lparr>n_seqMgr := sm\<rparr>))) of
          None \<Rightarrow> Some (noteDrop ''malformed'' n)
        | Some (seq, n) \<Rightarrow>
          let n = dup_Insert e srcMAC (uint seq) 0 n in
          do { body \<leftarrow> hsrBody (ev_frame ev) path seq;
               n \<leftarrow> write_count e PLanA ''lan_a'' body n;
               write_count e PLanB ''lan_b'' body n })"

section \<open>Tagging and stripping\<close>

text \<open>An Ethernet frame with at most one VLAN tag.\<close>

definition eth_frame :: "bytes \<Rightarrow> bool" where
  "eth_frame f \<longleftrightarrow> 14 \<le> length f \<and> (IsVLANFrame f \<longrightarrow> 18 \<le> length f \<and> \<not> is_tpid (get16 f 16))"

lemma eth_frameE:
  assumes "eth_frame f"
  obtains h et payload where "f = h @ put16 et @ payload" and "eth_hdr h" and "\<not> is_tpid et"
proof (cases "IsVLANFrame f")
  case True
  with assms have "18 \<le> length f" "\<not> is_tpid (get16 f 16)" "is_tpid (get16 f 12)"
    by (auto simp: eth_frame_def IsVLANFrame_def is_tpid_def Let_def split: if_splits)
  then show thesis
    using split16[of 16 f] by (intro that[of "take 16 f" "get16 f 16" "drop 18 f"]) (simp_all add: eth_hdr_def get16_take)
next
  case False
  with assms have "14 \<le> length f" "\<not> is_tpid (get16 f 12)"
    by (auto simp: eth_frame_def IsVLANFrame_def is_tpid_def Let_def)
  then show thesis
    using split16[of 12 f] by (intro that[of "take 12 f" "get16 f 12" "drop 14 f"]) (simp_all add: eth_hdr_def)
qed

lemma hsrBody_frame:
  assumes "eth_hdr h" and "\<not> is_tpid et"
  shows "hsrBody (h @ put16 et @ payload) path seq =
    Some (hsr_frame h (push_bit 12 (word_of_int (path AND 0x0F)) OR (of_nat (6 + length payload) AND 0x0FFF))
      seq et payload)"
proof -
  have "hsrBody (h @ put16 et @ payload) path seq = Some (h @ EncodeHSR payload path seq et)"
    using assms(1)
  proof (cases rule: eth_hdr_cases)
    case 1
    then show ?thesis using assms
      by (simp add: hsrBody_def IsVLANFrame_hdr GetEtherType_hdr)
  next
    case 2
    then have "take 12 h @ gslice 12 16 (h @ put16 et @ payload) = h"
      by (simp add: gslice_def)
    with 2 show ?thesis using assms
      by (simp add: hsrBody_def IsVLANFrame_hdr GetEtherType_hdr)
  qed
  then show ?thesis using EncodeHSR_frame[of h payload path seq et "[]"] by simp
qed

text \<open>Tagging a frame that fits the 12-bit size field, and taking the tag off again.\<close>

lemma hsrBody_round_trip:
  assumes "eth_frame f" and "length f < 4096"
  obtains g where "hsrBody f path seq = Some g" and "StripHSR g = Inr f"
    and "\<exists>encap payload. DecodeHSR g = Inr (path AND 0x0F, uint seq, encap, payload)"
    and "take 12 g = take 12 f" and "length g = length f + 6" and "GetEtherType g = HSREtherType"
proof -
  from assms(1) obtain h et payload where f: "f = h @ put16 et @ payload" "eth_hdr h" "\<not> is_tpid et"
    by (rule eth_frameE)
  let ?w = "push_bit 12 (word_of_int (path AND 0x0F)) OR (of_nat (6 + length payload) AND 0x0FFF) :: u16"
  let ?g = "hsr_frame h ?w seq et payload"
  have h: "12 \<le> length h" using f(2) by (auto simp: eth_hdr_def)
  then have lsdu: "tag_lsdu ?w = 6 + length payload"
    using assms(2) f(1) by (simp only: tag_lsdu_pack) simp
  have "StripHSR ?g = Inr f" "DecodeHSR ?g = Inr (path AND 0x0F, uint seq, et, payload)"
    using f(1) by (simp_all only: StripHSR_frame[OF f(2)] DecodeHSR_frame[OF f(2)] lsdu tag_path_pack) simp_all
  moreover have "GetEtherType ?g = HSREtherType"
    unfolding hsr_frame_def using f(2) by (rule GetEtherType_hdr) simp
  ultimately show thesis
    using f h hsrBody_frame[OF f(2,3), of payload path seq]
    by (intro that[of ?g]) (simp_all only: length_hsr_frame hsr_frame_take, auto)
qed

section \<open>The ring port\<close>

definition hsr_pair :: "node \<Rightarrow> env \<times> frameEvent \<Rightarrow> (string \<times> int) option" where
  "hsr_pair n x =
     (case DecodeHSR (ev_frame (snd x)) of
        Inl _ \<Rightarrow> None
      | Inr (_, s, _, _) \<Rightarrow>
        if own_frame n (ev_frame (snd x)) then None else Some (GetSrcMAC (ev_frame (snd x)), s))"

definition hsr_upd :: "node \<Rightarrow> env \<times> frameEvent \<Rightarrow> node" where
  "hsr_upd n x = learnRingMember (fst x) (GetSrcMAC (ev_frame (snd x))) n"

text \<open>The ring port a frame leaves by.\<close>

definition other_port :: "string \<Rightarrow> portsel" where
  "other_port ifc = (if ifc = ''lan_b'' then PLanA else PLanB)"

text \<open>What an accepted frame puts on the interlink, by role; \<open>n\<close> already knows its sender.\<close>

definition interlink_emit :: "env \<Rightarrow> node \<Rightarrow> bytes \<Rightarrow> bytes list" where
  "interlink_emit e n f =
     (case (DecodeHSR f, StripHSR f) of
        (Inr (path, seq, _, payload), Inr original) \<Rightarrow>
          (case role_of (n_Config n) of
             RoleHSRHSR \<Rightarrow>
               if n_Interlink n = None \<or> unicastToRingMember n (take 6 f) then [] else wrote e PInterlink f
           | RoleHSRPRP \<Rightarrow>
               if path div 2 = NetID (n_Config n) then []
               else wrote e PInterlink (EncodeRCT original (word_of_int seq) (LanID (n_Config n)))
           | _ \<Rightarrow>
               if unicastToRingMember n (take 6 f) \<or> \<not> shouldForwardToInterlink e n payload then []
               else wrote e PInterlink original)
      | _ \<Rightarrow> [])"

definition hsr_emit :: "portsel \<Rightarrow> node \<Rightarrow> env \<times> frameEvent \<Rightarrow> bytes list" where
  "hsr_emit p n x =
     (let f = ev_frame (snd x); other = other_port (ev_iface (snd x)) in
      if p = PInterlink then interlink_emit (fst x) (hsr_upd n x) f
      else if p = other
      then (case RewriteHSRPathLane f (other = PLanA) of Inl _ \<Rightarrow> [] | Inr g \<Rightarrow> wrote (fst x) p g)
      else [])"

lemma handleIncomingHSR_skip:
  assumes "hsr_pair (quiet n) (e, ev) = None"
  shows "\<exists>n'. handleIncomingHSRFrame e ev n = Some n' \<and> only_counted n n'"
  using assms
  by (cases "DecodeHSR (ev_frame ev)")
    (auto simp: handleIncomingHSRFrame_def hsr_pair_def node_simps Let_def split: if_splits)

lemma handleIncomingHSR_dup:
  assumes "hsr_pair (quiet n) (e, ev) = Some (m, s)" and "dup_Find e n m s"
  shows "handleIncomingHSRFrame e ev n = Some (noteDrop ''dup'' (countFrame (ev_iface ev) ''in'' n))"
  using assms
  by (cases "DecodeHSR (ev_frame ev)")
    (auto simp: handleIncomingHSRFrame_def hsr_pair_def node_simps Let_def split: if_splits)

text \<open>Ports a node of an HSR role needs: both ring ports, and the interlink except on a QuadBox.\<close>

definition hsr_bound :: "node \<Rightarrow> bool" where
  "hsr_bound n \<longleftrightarrow> role_of (n_Config n) \<noteq> RolePRPSan \<and> bound PLanA n \<and> bound PLanB n
     \<and> (role_of (n_Config n) \<noteq> RoleHSRHSR \<longrightarrow> bound PInterlink n)"

lemma interlink_emit_quiet [node_simps]: "interlink_emit e (quiet n) f = interlink_emit e n f"
  unfolding interlink_emit_def quiet_fields quiet_decisions Interlink_quiet ..

text \<open>A step that puts frames on one port and otherwise only counts.\<close>

definition emits :: "portsel \<Rightarrow> bytes list \<Rightarrow> node \<Rightarrow> node \<Rightarrow> bool" where
  "emits p fs n n' \<longleftrightarrow> quiet n' = quiet n \<and> n_dupTable n' = n_dupTable n
     \<and> (\<forall>q. sent q n' = sent q n @ (if q = p then fs else []))"

lemma emits_write:
  assumes "bound p n" and "f \<noteq> []"
  shows "\<exists>n'. write_count e p name f n = Some n' \<and> emits p (wrote e p f) n n'"
  by (rule write_count_spec[OF assms, where e = e and name = name]) (auto simp: emits_def same_core_def)

lemma emits_drop: "emits p [] n (noteDrop r n)" "emits p [] n n"
  by (simp_all add: emits_def node_simps)

lemma hsrDeliver_emits:
  assumes "DecodeHSR f = Inr (path, seq, encap, payload)" and "hsr_bound n"
  shows "\<exists>n'. hsrDeliver e f path seq payload n = Some n' \<and> emits PInterlink (interlink_emit e n f) n n'"
proof -
  obtain original where orig: "StripHSR f = Inr original" "original \<noteq> []"
    using StripHSR_decoded[OF assms(1)] by (metis list.size(3) not_numeral_le_zero)
  have f: "f \<noteq> []" using DecodeHSR_long[OF assms(1)] by auto
  have rct: "EncodeRCT g q l \<noteq> []" for g q l by (simp add: EncodeRCT_eq put16_def)
  have path: "drop_bit (Suc 0) path = path div 2" by (simp add: drop_bit_eq_div)
  have out: "\<exists>n'. write_count e PInterlink ''interlink'' g n = Some n' \<and> emits PInterlink (wrote e PInterlink g) n n'"
    if "g \<noteq> []" "n_Interlink n \<noteq> None" for g
    using that by (intro emits_write) simp_all
  note defs = hsrDeliver_def interlink_emit_def role_predicates assms(1) orig(1) path couplingToPRP_def emits_drop
  show ?thesis
  proof (cases "role_of (n_Config n)")
    case RoleHSRHSR
    show ?thesis
    proof (cases "n_Interlink n = None \<or> unicastToRingMember n (take 6 f)")
      case True
      then show ?thesis using RoleHSRHSR by (auto simp: defs node_simps)
    next
      case False
      then obtain n' where n': "write_count e PInterlink ''interlink'' f n = Some n'"
        "emits PInterlink (wrote e PInterlink f) n n'"
        using out[OF f] by blast
      then have "n_Config n' = n_Config n" by (metis emits_def quiet_fields(1))
      with False RoleHSRHSR n' show ?thesis by (auto simp: defs)
    qed
  next
    case RoleHSRPRP
    then show ?thesis
      using out[OF rct] assms(2) by (auto simp: defs hsr_bound_def)
  next
    case RoleHSRSan
    then show ?thesis
      using out[OF orig(2)] assms(2) by (auto simp: defs hsr_bound_def)
  qed (use assms(2) in \<open>simp add: hsr_bound_def\<close>)
qed

lemma hsr_bound_quiet [node_simps]: "hsr_bound (quiet n) = hsr_bound n"
  unfolding hsr_bound_def bound_quiet quiet_fields ..

lemma handleIncomingHSR_accept:
  assumes "hsr_pair (quiet n) (e, ev) = Some (m, s)" and "\<not> dup_Find e n m s" and "hsr_bound n"
  shows "\<exists>n'. handleIncomingHSRFrame e ev n = Some n' \<and> quiet n' = hsr_upd (quiet n) (e, ev)
    \<and> n_dupTable n' = n_dupTable (dup_Insert e m s 0 n)
    \<and> (\<forall>p. sent p n' = sent p n @ hsr_emit p (quiet n) (e, ev))"
proof -
  obtain path encap payload where dec: "DecodeHSR (ev_frame ev) = Inr (path, s, encap, payload)"
    and own: "\<not> own_frame n (ev_frame ev)" and m: "m = GetSrcMAC (ev_frame ev)"
    using assms(1) by (auto simp: hsr_pair_def node_simps split: sum.splits if_splits)
  define op where "op = other_port (ev_iface ev)"
  define nm where "nm = (if ev_iface ev = ''lan_b'' then ''lan_a'' else ''lan_b'')"
  obtain fwd where fwd: "RewriteHSRPathLane (ev_frame ev) (op = PLanA) = Inr fwd" "fwd \<noteq> []"
    using DecodeHSR_lane[OF dec] DecodeHSR_long[OF dec] by (metis list.size(3) not_numeral_le_zero)
  define n1 where "n1 = learnRingMember e m (dup_Insert e m s 0 (countFrame (ev_iface ev) ''in'' n))"
  have n1: "quiet n1 = hsr_upd (quiet n) (e, ev)" "n_dupTable n1 = n_dupTable (dup_Insert e m s 0 n)"
    "sent p n1 = sent p n" "bound p n1 = bound p n" "n_Config n1 = n_Config n" for p
    by (simp_all add: n1_def node_simps hsr_upd_def m, simp add: dup_Insert_def countFrame_def)
  have hb: "hsr_bound n1" using assms(3) unfolding hsr_bound_def n1 .
  then have "bound op n1" by (simp add: hsr_bound_def op_def other_port_def)
  then obtain n2 where n2: "write_count e op nm fwd n1 = Some n2" "emits op (wrote e op fwd) n1 n2"
    using emits_write fwd(2) by blast
  have "hsr_bound n2" using hb n2(2) hsr_bound_quiet by (metis emits_def)
  then obtain n3 where n3: "hsrDeliver e (ev_frame ev) path s payload n2 = Some n3"
    "emits PInterlink (interlink_emit e n2 (ev_frame ev)) n2 n3"
    using hsrDeliver_emits[OF dec] by blast
  have "interlink_emit e n2 (ev_frame ev) = interlink_emit e (hsr_upd (quiet n) (e, ev)) (ev_frame ev)"
    using n1(1) n2(2) interlink_emit_quiet by (metis emits_def)
  moreover have "handleIncomingHSRFrame e ev n = Some n3"
    using dec own assms(2) fwd n2(1) n3(1) m
    by (simp add: handleIncomingHSRFrame_def node_simps Let_def n1_def op_def nm_def other_port_def split: if_splits)
  moreover have "op \<noteq> PInterlink" by (simp add: op_def other_port_def)
  ultimately show ?thesis
    using n1 n2(2) n3(2) fwd(1)
    by (intro exI[of _ n3]) (auto simp: emits_def hsr_emit_def Let_def op_def)
qed

section \<open>The interlink port\<close>

text \<open>A QuadBox: what a frame from the other ring puts on the two ring ports.\<close>

definition quad_emit :: "portsel \<Rightarrow> env \<times> frameEvent \<Rightarrow> bytes list" where
  "quad_emit p x =
     (if p = PInterlink then []
      else case RewriteHSRPath (ev_frame (snd x)) 0 of Inl _ \<Rightarrow> [] | Inr g \<Rightarrow> wrote (fst x) p g)"

text \<open>Two writes in a row, one on each ring port.\<close>

lemma write_both_rings:
  assumes "bound PLanA n" and "bound PLanB n" and "f \<noteq> []"
  shows "\<exists>n'. do { n \<leftarrow> write_count e PLanA ''lan_a'' f n; write_count e PLanB ''lan_b'' f n } = Some n'
    \<and> quiet n' = quiet n \<and> n_dupTable n' = n_dupTable n
    \<and> (\<forall>p. sent p n' = sent p n @ (if p = PInterlink then [] else wrote e p f))"
proof -
  obtain n1 where n1: "write_count e PLanA ''lan_a'' f n = Some n1" "emits PLanA (wrote e PLanA f) n n1"
    using emits_write[OF assms(1,3)] by blast
  have "bound PLanB n1" using n1(2) assms(2) bound_quiet by (metis emits_def)
  then obtain n2 where n2: "write_count e PLanB ''lan_b'' f n1 = Some n2" "emits PLanB (wrote e PLanB f) n1 n2"
    using emits_write assms(3) by blast
  have "sent p n2 = sent p n @ (if p = PInterlink then [] else wrote e p f)" for p
    using n1(2) n2(2) by (cases p) (simp_all add: emits_def)
  with n1 n2 show ?thesis by (auto simp: emits_def)
qed

lemma quadboxInterlink_spec:
  assumes "role_of (n_Config n) = RoleHSRHSR" and "bound PLanA n" and "bound PLanB n"
  shows "\<exists>n'. handleHSRInterlinkFrame e ev n = Some n' \<and> quiet n' = quiet n \<and>
    (case hsr_pair (quiet n) (e, ev) of
       None \<Rightarrow> n_dupTable n' = n_dupTable n \<and> (\<forall>p. sent p n' = sent p n)
     | Some (m, s) \<Rightarrow>
       if dup_Find e n m s then n_dupTable n' = n_dupTable n \<and> (\<forall>p. sent p n' = sent p n)
       else n_dupTable n' = n_dupTable (dup_Insert e m s 0 n)
         \<and> (\<forall>p. sent p n' = sent p n @ quad_emit p (e, ev)))"
proof -
  define n0 where "n0 = countFrame ''interlink'' ''in'' n"
  have eq: "handleHSRInterlinkFrame e ev n = quadboxInterlink e ev (GetSrcMAC (ev_frame ev)) n0"
    using assms(1) by (simp add: handleHSRInterlinkFrame_def role_predicates n0_def node_simps)
  show ?thesis
  proof (cases "\<exists>m s. hsr_pair (quiet n) (e, ev) = Some (m, s) \<and> \<not> dup_Find e n m s")
    case False
    then show ?thesis
      by (cases "DecodeHSR (ev_frame ev)")
        (auto simp: eq quadboxInterlink_def n0_def hsr_pair_def node_simps split: if_splits)
  next
    case True
    then obtain m s where p: "hsr_pair (quiet n) (e, ev) = Some (m, s)" "\<not> dup_Find e n m s" by blast
    then obtain path encap payload where dec: "DecodeHSR (ev_frame ev) = Inr (path, s, encap, payload)"
      and own: "\<not> own_frame n (ev_frame ev)" and m: "m = GetSrcMAC (ev_frame ev)"
      by (auto simp: hsr_pair_def node_simps split: sum.splits if_splits)
    obtain g where g: "RewriteHSRPath (ev_frame ev) 0 = Inr g" "g \<noteq> []"
      using DecodeHSR_set[OF dec] DecodeHSR_long[OF dec] by (metis list.size(3) not_numeral_le_zero)
    define n1 where "n1 = dup_Insert e m s 0 n0"
    have n1: "quiet n1 = quiet n" "n_dupTable n1 = n_dupTable (dup_Insert e m s 0 n)" "sent q n1 = sent q n"
      "bound q n1 = bound q n" for q
      by (simp_all add: n1_def n0_def node_simps, simp add: dup_Insert_def countFrame_def)
    have "quadboxInterlink e ev (GetSrcMAC (ev_frame ev)) n0 =
        do { n \<leftarrow> write_count e PLanA ''lan_a'' g n1; write_count e PLanB ''lan_b'' g n }"
      using dec own p(2) m g(1) by (simp add: quadboxInterlink_def n1_def n0_def node_simps)
    moreover have "bound PLanA n1" "bound PLanB n1" using n1(4) assms(2,3) by blast+
    ultimately show ?thesis
      using write_both_rings[of n1 g e] n1(1-3) g p by (auto simp: eq quad_emit_def)
  qed
qed

text \<open>
  hsr-san and hsr-prp: the sequence number a frame is injected with. In a coupling it is the one
  in the PRP trailer, otherwise the next one of its source.
\<close>

definition inject_seq :: "node \<Rightarrow> bytes \<Rightarrow> u16 option" where
  "inject_seq n f =
     (if role_of (n_Config n) = RoleHSRPRP
      then (case DecodeRCT f of Inl _ \<Rightarrow> None | Inr (_, s, _) \<Rightarrow> Some (word_of_int s))
      else Some (sm_peek (n_seqMgr n) (GetSrcMAC f)))"

lemma handleHSRInterlink_injects:
  assumes "role_of (n_Config n) = RoleHSRSan \<or> role_of (n_Config n) = RoleHSRPRP"
    and "bound PLanA n" and "bound PLanB n" and "12 \<le> length (ev_frame ev)"
    and "inject_seq n (ev_frame ev) = Some q"
    and "hsrBody (ev_frame ev) (couplingPath (n_Config n)) q = Some body" and "body \<noteq> []"
  shows "\<exists>n'. handleHSRInterlinkFrame e ev n = Some n' \<and> n_Config n' = n_Config n \<and> n_mac n' = n_mac n
    \<and> (\<forall>p. bound p n' = bound p n)
    \<and> n_dupTable n' = n_dupTable (dup_Insert e (GetSrcMAC (ev_frame ev)) (uint q) 0 n)
    \<and> (\<forall>p. sent p n' = sent p n @ (if p = PInterlink then [] else wrote e p body))"
proof -
  let ?src = "GetSrcMAC (ev_frame ev)"
  define n0 where "n0 = learnProxy e ?src (countFrame ''interlink'' ''in'' n)"
  define n1 where "n1 = (if role_of (n_Config n) = RoleHSRPRP then n0 else n0\<lparr>n_seqMgr := snd (sm_Next (n_seqMgr n) ?src)\<rparr>)"
  define n2 where "n2 = dup_Insert e ?src (uint q) 0 n1"
  have n2: "n_Config n2 = n_Config n" "n_mac n2 = n_mac n" "bound p n2 = bound p n" "sent p n2 = sent p n"
    "n_dupTable n2 = n_dupTable (dup_Insert e ?src (uint q) 0 n)" for p
    by (simp_all add: n2_def n1_def n0_def node_simps) (simp_all add: dup_Insert_def learnProxy_def countFrame_def)
  have "handleHSRInterlinkFrame e ev n =
      do { n \<leftarrow> write_count e PLanA ''lan_a'' body n2; write_count e PLanB ''lan_b'' body n }"
    using assms(1,4-6)
    by (auto simp: handleHSRInterlinkFrame_def role_predicates inject_seq_def n2_def n1_def n0_def node_simps
        case_prod_beta sm_Next_fst Let_def split: sum.splits)
  moreover obtain n3 where n3: "do { n \<leftarrow> write_count e PLanA ''lan_a'' body n2; write_count e PLanB ''lan_b'' body n } = Some n3"
    "quiet n3 = quiet n2" "n_dupTable n3 = n_dupTable n2"
    "\<forall>p. sent p n3 = sent p n2 @ (if p = PInterlink then [] else wrote e p body)"
    using write_both_rings[of n2 body e] assms(2,3,7) n2(3) by blast
  moreover have "n_Config n3 = n_Config n" "n_mac n3 = n_mac n" "\<forall>p. bound p n3 = bound p n"
    using n3(2) n2 quiet_fields bound_quiet by metis+
  ultimately show ?thesis using n2 by auto
qed

section \<open>Properties\<close>

text \<open>
  C29. Tagging round trip: an Ethernet frame with at most one VLAN tag and fewer than 4096 bytes,
  tagged for the ring, decodes to the path and the sequence number it was given, keeps its
  addresses, and comes back byte for byte when the tag is stripped.
\<close>

theorem hsr_tag_round_trip:
  assumes "eth_frame f" and "length f < 4096"
  shows "\<exists>g encap payload. hsrBody f path seq = Some g \<and> StripHSR g = Inr f \<and> length g = length f + 6
    \<and> DecodeHSR g = Inr (path AND 0x0F, uint seq, encap, payload) \<and> take 12 g = take 12 f"
  using hsrBody_round_trip[OF assms] by metis

lemma hsr_tag_round_trip_witness:
  "\<exists>g. hsrBody (replicate 12 3 @ [0x81, 0, 0, 5, 8, 0, 42]) 7 9 = Some g
     \<and> StripHSR g = Inr (replicate 12 3 @ [0x81, 0, 0, 5, 8, 0, 42])"
proof -
  have "eth_frame (replicate 12 3 @ [0x81, 0, 0, 5, 8, 0, 42])" by code_simp
  then show ?thesis using hsr_tag_round_trip[of "replicate 12 3 @ [0x81, 0, 0, 5, 8, 0, 42]" 7 9] by auto
qed

end
