(* ===== verification/Receiver.thy ===== *)
theory Receiver
  imports NodeTable
begin

text \<open>
  The receive side of a redundancy protocol, over any duplicate filter of bounded size: a receiver that
  offers each frame's (source, sequence number) pair to the filter and acts only on the frames the
  filter accepts. Its contract is the locale \<open>dup_receiver\<close>; the PRP receive path and the HSR ring
  path are its instances (\<open>NodePRP\<close>, \<open>NodeHSR\<close>).
\<close>

text \<open>
  The specification: a receiver with an unbounded memory. It acts on a frame unless it remembers the
  frame's pair, that is unless it accepted the pair before and the lifetime of that acceptance is not
  over. \<open>pair\<close> gives the pair a frame is offered under (none for a frame that is dropped before the
  filter), \<open>emit\<close> what an accepted frame puts on the output, \<open>upd\<close> what it changes of the context,
  \<open>stamp\<close> its time and the lifetime of its record.
\<close>

fun window_copies :: "('c \<Rightarrow> 'x \<Rightarrow> (string \<times> int) option) \<Rightarrow> ('c \<Rightarrow> 'x \<Rightarrow> 'o list) \<Rightarrow> ('c \<Rightarrow> 'x \<Rightarrow> 'c)
    \<Rightarrow> ('c \<Rightarrow> 'x \<Rightarrow> time \<times> int) \<Rightarrow> 'c \<Rightarrow> (string \<times> int \<rightharpoonup> time \<times> int) \<Rightarrow> 'x list \<Rightarrow> 'o list" where
  "window_copies pair emit upd stamp c M [] = []"
| "window_copies pair emit upd stamp c M (x # xs) =
     (case pair c x of
        None \<Rightarrow> window_copies pair emit upd stamp c M xs
      | Some p \<Rightarrow>
        if remembered M (fst (stamp c x)) p then window_copies pair emit upd stamp c M xs
        else emit c x @ window_copies pair emit upd stamp (upd c x) (M(p \<mapsto> stamp c x)) xs)"

lemma window_copies_silent:
  "(\<And>c x. emit c x = []) \<Longrightarrow> window_copies pair emit upd stamp c M xs = []"
  by (induction xs arbitrary: c M) (auto split: option.split)

text \<open>What a sequence of frames offers to the filter.\<close>

definition offered :: "('c \<Rightarrow> 'x \<Rightarrow> (string \<times> int) option) \<Rightarrow> ('c \<Rightarrow> 'x \<Rightarrow> 'e) \<Rightarrow> 'c \<Rightarrow> 'x list
    \<Rightarrow> ('e \<times> string \<times> int) list" where
  "offered pair env c = List.map_filter (\<lambda>x. map_option (Pair (env c x)) (pair c x))"

lemma offered_simps [simp]:
  "offered pair env c [] = []"
  "offered pair env c (x # xs) =
    (case pair c x of None \<Rightarrow> offered pair env c xs | Some p \<Rightarrow> (env c x, p) # offered pair env c xs)"
  by (simp_all add: offered_def map_filter_simps split: option.split)

text \<open>A sequence of steps, each of which may panic.\<close>

fun run :: "('x \<Rightarrow> 's \<Rightarrow> 's option) \<Rightarrow> 'x list \<Rightarrow> 's \<Rightarrow> 's option" where
  "run step [] s = Some s"
| "run step (x # xs) s = do { s \<leftarrow> step x s; run step xs s }"

lemma run_append: "run step (xs @ ys) s = do { s \<leftarrow> run step xs s; run step ys s }"
  by (induction xs arbitrary: s) (auto split: bind_splits)

lemma run_invariant:
  assumes "\<And>x s s'. x \<in> set xs \<Longrightarrow> P s \<Longrightarrow> step x s = Some s' \<Longrightarrow> P s'"
    and "P s" and "run step xs s = Some s'"
  shows "P s'"
  using assms
proof (induction xs arbitrary: s)
  case (Cons x xs)
  then obtain s1 where "step x s = Some s1" "run step xs s1 = Some s'"
    by (auto split: bind_splits)
  then show ?case using Cons.IH[of s1] Cons.prems(1)[of _ _] Cons.prems(2)
    by (metis list.set_intros)
qed auto

lemma run_total:
  assumes "\<And>x s. x \<in> set xs \<Longrightarrow> P s \<Longrightarrow> \<exists>s'. step x s = Some s' \<and> P s'" and "P s"
  shows "\<exists>s'. run step xs s = Some s' \<and> P s'"
  using assms
proof (induction xs arbitrary: s)
  case (Cons x xs)
  then obtain s1 where "step x s = Some s1" "P s1" by (meson list.set_intros(1))
  with Cons.IH[of s1] Cons.prems(1) show ?case by auto
qed auto

locale dup_receiver = dup_table +
  fixes step :: "'x \<Rightarrow> 's \<Rightarrow> 's option"
    and tab :: "'s \<Rightarrow> 'b"
    and ctx :: "'s \<Rightarrow> 'c"
    and out :: "'p \<Rightarrow> 's \<Rightarrow> 'o list"
    and env :: "'c \<Rightarrow> 'x \<Rightarrow> 'a"
    and pair :: "'c \<Rightarrow> 'x \<Rightarrow> (string \<times> int) option"
    and emit :: "'p \<Rightarrow> 'c \<Rightarrow> 'x \<Rightarrow> 'o list"
    and upd :: "'c \<Rightarrow> 'x \<Rightarrow> 'c"
    and ready :: "'c \<Rightarrow> 'x \<Rightarrow> bool"
  assumes step_skip: "ready (ctx s) x \<Longrightarrow> pair (ctx s) x = None \<Longrightarrow>
      \<exists>s'. step x s = Some s' \<and> tab s' = tab s \<and> ctx s' = ctx s \<and> (\<forall>p. out p s' = out p s)"
    and step_dup: "ready (ctx s) x \<Longrightarrow> pair (ctx s) x = Some (m, q) \<Longrightarrow> find (env (ctx s) x) (tab s) m q \<Longrightarrow>
      \<exists>s'. step x s = Some s' \<and> tab s' = tab s \<and> ctx s' = ctx s \<and> (\<forall>p. out p s' = out p s)"
    and step_accept: "ready (ctx s) x \<Longrightarrow> pair (ctx s) x = Some (m, q) \<Longrightarrow> \<not> find (env (ctx s) x) (tab s) m q \<Longrightarrow>
      \<exists>s'. step x s = Some s' \<and> tab s' = ins (env (ctx s) x) (tab s) m q
        \<and> ctx s' = upd (ctx s) x \<and> (\<forall>p. out p s' = out p s @ emit p (ctx s) x)"
    and env_upd: "env (upd c x) = env c"
    and ready_upd: "ready (upd c x) = ready c"
    and pair_upd: "pair (upd c x) = pair c"
begin

definition stamp :: "'c \<Rightarrow> 'x \<Rightarrow> time \<times> int" where
  "stamp c x = (clk (env c x), win (env c x))"

lemma stamped_offered: "stamped (offered pair env c xs) = offered pair stamp c xs"
  by (induction xs) (simp_all add: stamp_def split: option.split)

lemma offered_upd [simp]: "offered pair env (upd c x) xs = offered pair env c xs"
  by (simp add: offered_def env_upd pair_upd)

text \<open>While the filter stands for the memory, a run acts on the frames the memory does not have.\<close>

lemma run_window_copies:
  assumes "stands_for (tab s) M past (offered pair env (ctx s) xs)"
    and "\<forall>x \<in> set xs. ready (ctx s) x \<and> env_ok (env (ctx s) x)"
  shows "\<exists>s'. run step xs s = Some s' \<and>
    (\<forall>p. out p s' = out p s @ window_copies pair (emit p) upd stamp (ctx s) M xs)"
  using assms
proof (induction xs arbitrary: s M past)
  case Nil
  then show ?case by simp
next
  case (Cons x xs)
  let ?c = "ctx s" and ?e = "env (ctx s) x"
  have x: "ready ?c x" "env_ok ?e" and rest: "\<forall>x \<in> set xs. ready ?c x \<and> env_ok (env ?c x)"
    using Cons.prems(2) by auto
  have unchanged: ?case
    if s1: "step x s = Some s1" "tab s1 = tab s" "ctx s1 = ?c" "\<forall>p. out p s1 = out p s"
      and st: "stands_for (tab s) M bygone (offered pair env ?c xs)"
      and spec: "\<And>p. window_copies pair (emit p) upd stamp ?c M (x # xs) = window_copies pair (emit p) upd stamp ?c M xs"
    for s1 bygone
    using Cons.IH[of s1 M bygone] rest s1 st spec by simp
  show ?case
  proof (cases "pair ?c x")
    case None
    then show ?thesis using step_skip[OF x(1) None] unchanged[of _ past] Cons.prems(1) by auto
  next
    case (Some mq)
    then obtain m q where p: "pair ?c x = Some (m, q)" by (cases mq) auto
    then have st: "stands_for (tab s) M past ((?e, m, q) # offered pair env ?c xs)" using Cons.prems(1) by simp
    show ?thesis
    proof (cases "find ?e (tab s) m q")
      case True
      then have "remembered M (fst (stamp ?c x)) (m, q)" using stands_for_find[OF st] by (simp add: stamp_def)
      then show ?thesis
        using step_dup[OF x(1) p True] unchanged[of _ "clk ?e # past"] stands_for_dup[OF st] p by auto
    next
      case False
      then have "\<not> remembered M (fst (stamp ?c x)) (m, q)" using stands_for_find[OF st] by (simp add: stamp_def)
      moreover obtain s1 where s1: "step x s = Some s1" "tab s1 = ins ?e (tab s) m q"
        "ctx s1 = upd ?c x" "\<forall>p. out p s1 = out p s @ emit p ?c x"
        using step_accept[OF x(1) p False] by blast
      moreover have "\<exists>s'. run step xs s1 = Some s' \<and>
          (\<forall>p. out p s' = out p s1 @ window_copies pair (emit p) upd stamp (ctx s1) (M((m, q) \<mapsto> stamp ?c x)) xs)"
      proof (rule Cons.IH)
        show "stands_for (tab s1) (M((m, q) \<mapsto> stamp ?c x)) (clk ?e # past) (offered pair env (ctx s1) xs)"
          using stands_for_new[OF st x(2)] s1(2,3) by (simp add: stamp_def)
        show "\<forall>x \<in> set xs. ready (ctx s1) x \<and> env_ok (env (ctx s1) x)"
          using rest s1(3) by (simp add: env_upd ready_upd)
      qed
      ultimately show ?thesis using p by simp
    qed
  qed
qed

lemma blank_run_window_copies:
  assumes "blank (tab s)" and "table_room (cap (tab s)) [] (offered pair stamp (ctx s) xs)"
    and "\<forall>x \<in> set xs. ready (ctx s) x \<and> env_ok (env (ctx s) x)"
  shows "\<exists>s'. run step xs s = Some s' \<and>
    (\<forall>p. out p s' = out p s @ window_copies pair (emit p) upd stamp (ctx s) Map.empty xs)"
  using assms by (intro run_window_copies[where past = "[]"] blank_stands_for) (simp_all add: stamped_offered)

end

text \<open>
  Numbered frames of which the pairs may recur: as long as two frames with the same pair are copies of
  one frame exactly when they come within the lifetime of a record, the memory lets the first copy of
  every frame pass, and no other.
\<close>

lemma window_copies_indexed:
  assumes "\<And>a. a \<in> set as \<Longrightarrow> pair c (g a) = Some (k (idx a)) \<and> emit c (g a) = [h (idx a)] \<and> stamp c (g a) = (t a, w)"
    and "0 \<le> w" and "\<And>p t0 w'. M p = Some (t0, w') \<Longrightarrow> w' = w"
    and "sorted_wrt (\<lambda>a b. k (idx a) = k (idx b) \<longrightarrow> (idx a = idx b \<longleftrightarrow> t b - t a \<le> w)) as"
    and "\<And>a. a \<in> set as \<Longrightarrow> idx a \<in> S \<longleftrightarrow> remembered M (t a) (k (idx a))"
  shows "window_copies pair emit (\<lambda>c x. c) stamp c M (map g as) = map h (first_occ S (map idx as))"
  using assms
proof (induction as arbitrary: S M)
  case Nil
  then show ?case by simp
next
  case (Cons a as)
  have a: "pair c (g a) = Some (k (idx a))" "emit c (g a) = [h (idx a)]" "stamp c (g a) = (t a, w)"
    "idx a \<in> S \<longleftrightarrow> remembered M (t a) (k (idx a))"
    using Cons.prems(1,5)[of a] by auto
  show ?case
  proof (cases "idx a \<in> S")
    case True
    then have "window_copies pair emit (\<lambda>c x. c) stamp c M (map g as) = map h (first_occ S (map idx as))"
      using Cons.prems(1,2,4,5) by (intro Cons.IH) (auto intro: Cons.prems(3))
    then show ?thesis using True a by simp
  next
    case False
    let ?M = "M(k (idx a) \<mapsto> (t a, w))"
    have kept: "idx b \<in> insert (idx a) S \<longleftrightarrow> remembered ?M (t b) (k (idx b))" if b: "b \<in> set as" for b
    proof (cases "k (idx b) = k (idx a)")
      case True
      then have near: "idx a = idx b \<longleftrightarrow> t b - t a \<le> w" using Cons.prems(4) b by auto
      moreover have "idx b \<notin> S" if "idx a \<noteq> idx b"
      proof
        assume "idx b \<in> S"
        then have "remembered M (t b) (k (idx b))" using Cons.prems(5)[of b] b by simp
        then obtain t0 w' where m: "M (k (idx b)) = Some (t0, w')" "t b - t0 \<le> w'"
          by (auto simp: remembered_def split: option.splits)
        then have "M (k (idx b)) = Some (t0, w)" "t b - t0 \<le> w" using Cons.prems(3)[OF m(1)] by simp_all
        moreover from this have "t a - t0 > w" using False a(4) True by (simp add: remembered_def)
        ultimately show False using near that Cons.prems(2) by simp
      qed
      moreover have "remembered ?M (t b) (k (idx b)) \<longleftrightarrow> t b - t a \<le> w" using True by (simp add: remembered_def)
      ultimately show ?thesis by (metis insert_iff)
    next
      case False
      then have "remembered ?M (t b) (k (idx b)) = remembered M (t b) (k (idx b))" "idx b \<noteq> idx a"
        by (auto simp: remembered_def)
      then show ?thesis using Cons.prems(5)[of b] b by simp
    qed
    have same: "w' = w" if "?M p = Some (t0, w')" for p t0 w'
      using that Cons.prems(3)[of p t0 w'] by (cases "p = k (idx a)") simp_all
    have "window_copies pair emit (\<lambda>c x. c) stamp c ?M (map g as) = map h (first_occ (insert (idx a) S) (map idx as))"
      using Cons.prems(1,2,4) by (intro Cons.IH[OF _ _ same _ kept]) simp_all
    moreover have "\<not> remembered M (fst (stamp c (g a))) (k (idx a))" using False a by simp
    ultimately show ?thesis using False a by simp
  qed
qed

end
