(* ===== verification/NodeFrame.thy ===== *)
theory NodeFrame
  imports NodeHSR Receiver
begin

text \<open>
  The event loop of \<open>internal/prp/prp.go\<close>: classification of a frame (\<open>handleFrame\<close>), supervision
  received and sent, the periodic clean-up, start and stop.
\<close>

unbundle bit_operations_syntax

text \<open>The redundancy ports.\<close>

definition is_lan :: "string \<Rightarrow> bool" where
  "is_lan ifc \<longleftrightarrow> ifc = ''lan_a'' \<or> ifc = ''lan_b''"

section \<open>Supervision\<close>

text \<open>\<open>int16(sup.Seq - last) < 0\<close>\<close>

definition seq_regressed :: "u16 \<Rightarrow> u16 \<Rightarrow> bool" where
  "seq_regressed prev seq \<longleftrightarrow> sint (seq - prev) < 0"

definition handleSupervisionFrame :: "env \<Rightarrow> frameEvent \<Rightarrow> node \<Rightarrow> node option" where
  "handleSupervisionFrame e ev n =
     do { parsed \<leftarrow> SupParse (ev_frame ev);
          case parsed of
            None \<Rightarrow> Some n
          | Some sf \<Rightarrow>
            let mac = sf_SrcMAC sf;
                n = n\<lparr>n_supervisionSeen := gm_put mac (env_now e) (n_supervisionSeen n)\<rparr>;
                n = (if IsHSRNode (n_Config n) \<and> (ev_iface ev = ''lan_a'' \<or> ev_iface ev = ''lan_b'')
                     then n\<lparr>n_ringMembers := gm_put mac (env_now e) (n_ringMembers n)\<rparr> else n);
                n = (case gm_get (n_supervisionSeqs n) mac of
                       Some prev \<Rightarrow>
                         if seq_regressed prev (sf_Seq sf)
                         then n\<lparr>n_dupTable := snd (FlushFor (n_dupTable n) mac)\<rparr> else n
                     | None \<Rightarrow> n)
            in Some (n\<lparr>n_supervisionSeqs := gm_put mac (sf_Seq sf) (n_supervisionSeqs n)\<rparr>) }"

definition bump_supSent :: "node \<Rightarrow> node" where
  "bump_supSent n = n\<lparr>n_counters := (n_counters n)\<lparr>supSent := supSent (n_counters n) + 1\<rparr>\<rparr>"

text \<open>A write whose error is only logged.\<close>

definition write_only :: "env \<Rightarrow> portsel \<Rightarrow> bytes \<Rightarrow> node \<Rightarrow> node option" where
  "write_only e p f n = do { (_, n) \<leftarrow> port_Write e p f n; Some n }"

text \<open>\<open>nodeMAC()\<close> of an interface without a hardware address is a nil slice, of no bytes.\<close>

definition SendSupervisionFrame :: "env \<Rightarrow> node \<Rightarrow> node option" where
  "SendSupervisionFrame e n =
     (let cfg = n_Config n;
          srcMAC = (case n_mac n of Some m \<Rightarrow> m | None \<Rightarrow> (case nodeMAC e n of Some m \<Rightarrow> m | None \<Rightarrow> []));
          n = n\<lparr>n_supSeq := n_supSeq n + 1\<rparr>;
          seq = n_supSeq n in
      if \<not> IsHSRNode cfg
      then do { let frameA = BuildRCTed srcMAC seq 0;
                let frameB = BuildRCTed srcMAC seq 1;
                n \<leftarrow> write_only e PLanA frameA n;
                n \<leftarrow> write_only e PLanB frameB n;
                Some (bump_supSent n) }
      else do { let frame = BuildHSR srcMAC seq (couplingPath cfg);
                n \<leftarrow> write_only e PLanA frame n;
                n \<leftarrow> write_only e PLanB frame n;
                let n = bump_supSent n;
                n \<leftarrow> (if IsHSRHSR cfg \<and> n_Interlink n \<noteq> None then write_only e PInterlink frame n else Some n);
                if IsHSRPRPCoupling cfg \<and> n_Interlink n \<noteq> None
                then write_only e PInterlink (BuildRCTed srcMAC seq (LanID cfg)) n
                else Some n })"

section \<open>Clean-up\<close>

text \<open>\<open>n.nowf().Add(-n.supervisionForget)\<close>; the negation is on 64 bits.\<close>

definition cleanupSupervisionSeen :: "time \<Rightarrow> node \<Rightarrow> node" where
  "cleanupSupervisionSeen now n =
     (if length (n_supervisionSeen n) = 0 then n
      else let cutoff = now + i64 (- n_supervisionForget n);
               n = n\<lparr>n_supervisionSeen := filter (\<lambda>(mac, seen). \<not> seen < cutoff) (n_supervisionSeen n)\<rparr>
           in n\<lparr>n_ringMembers := filter (\<lambda>(mac, seen). \<not> seen < cutoff) (n_ringMembers n)\<rparr>)"

text \<open>\<open>n.cleanupTimer.Reset\<close> of the running timer: the timer stays armed.\<close>

definition periodicCleanup :: "time \<Rightarrow> node \<Rightarrow> node" where
  "periodicCleanup now n =
     (let n = n\<lparr>n_dupTable := snd (Cleanup now (n_dupTable n))\<rparr>;
          n = cleanupSupervisionSeen now n
      in n\<lparr>n_cleanupTimer := True\<rparr>)"

section \<open>Dispatch\<close>

definition is_supervision :: "Config \<Rightarrow> frameEvent \<Rightarrow> bool" where
  "is_supervision cfg ev \<longleftrightarrow> GetEtherType (ev_frame ev) = 0x88fb \<and>
     (ev_iface ev = ''lan_a'' \<or> ev_iface ev = ''lan_b'' \<or> (IsHSRHSR cfg \<and> ev_iface ev = ''interlink''))"

definition handleFrame :: "env \<Rightarrow> frameEvent \<Rightarrow> node \<Rightarrow> node option" where
  "handleFrame e ev n =
     (if length (ev_frame ev) < 14 then Some n
      else if is_supervision (n_Config n) ev
      then do { n \<leftarrow> handleSupervisionFrame e ev n;
                if IsHSRHSR (n_Config n)
                then (if ev_iface ev = ''lan_a'' \<or> ev_iface ev = ''lan_b''
                      then (if n_Interlink n \<noteq> None then write_count e PInterlink ''interlink'' (ev_frame ev) n
                            else Some n)
                      else do { n \<leftarrow> write_count e PLanA ''lan_a'' (ev_frame ev) n;
                                write_count e PLanB ''lan_b'' (ev_frame ev) n })
                else Some n }
      else if ev_iface ev = ''lan_a'' \<or> ev_iface ev = ''lan_b''
      then (if IsHSRNode (n_Config n) then handleIncomingHSRFrame e ev n
            else handleIncomingPRPFrame e ev n)
      else if ev_iface ev = ''interlink''
      then (if IsHSRNode (n_Config n) then handleHSRInterlinkFrame e ev n
            else handleInterlinkFrame e ev n)
      else Some n)"

end
