(* ===== verification/Examples.thy ===== *)
theory Examples
  imports NodeFrame
begin

text \<open>
  Concrete configurations, nodes, environments and frames, at which the theorems of the
  development are applied.
\<close>

definition ex_cfg :: "string \<Rightarrow> Config" where
  "ex_cfg role = \<lparr>NodeName = ''rb'', cfg_Role = role, LanAInterface = ''eth0'', LanBInterface = ''eth1'',
     InterlinkInterface = ''eth2'', cfg_LanID = ''B'', cfg_NetID = 3, PRPID = 1, TrailerEnabled = True,
     Debug = False, ForwardAll = True, VLANFilter = [], MulticastFirstOctet = '''', EntryForgetMs = 640,
     MaxNodeTableSize = 256, ProxyNodeForgetMs = 64000, NodeForgetMs = 64000\<rparr>"

definition ex_port :: "string \<Rightarrow> PacketPort option" where
  "ex_port name = Some \<lparr>pp_Name = name, pp_sent = [], pp_open = True\<rparr>"

text \<open>A node of the given role and last MAC octet, with its three ports bound.\<close>

definition ex_node :: "string \<Rightarrow> byte \<Rightarrow> node" where
  "ex_node role k = (SetNodeMAC [0x02, 0, 0, 0, 0, k] (NewNode 7 (ex_cfg role)))
     \<lparr>n_LanA := ex_port ''eth0'', n_LanB := ex_port ''eth1'', n_Interlink := ex_port ''eth2''\<rparr>"

definition ex_env :: "time \<Rightarrow> env" where
  "ex_env t = \<lparr>env_now = t, env_rng = id, env_wr = (\<lambda>_ _. True), env_hw = (\<lambda>_. None)\<rparr>"

text \<open>A multicast frame from 02:00:00:00:00:08.\<close>

definition ex_frame :: bytes where
  "ex_frame = [0x01, 0, 0x5e, 0, 0, 9, 0x02, 0, 0, 0, 0, 8, 0x08, 0x00, 1, 2, 3]"

lemmas ex_defs = ex_cfg_def ex_port_def ex_node_def ex_env_def mk_event_def ex_frame_def SetNodeMAC_def
  NewNode_def zero_counters_def or_default_def

lemma ex_env_fields [simp]:
  "env_now (ex_env t) = t" "env_rng (ex_env t) = id" "env_wr (ex_env t) = (\<lambda>_ _. True)" "map_range id"
  by (simp_all add: ex_env_def map_range_def)

lemma ex_node_fields [simp]:
  "n_Config (ex_node r k) = ex_cfg r" "n_mac (ex_node r k) = Some [0x02, 0, 0, 0, 0, k]"
  "n_LanA (ex_node r k) = ex_port ''eth0''" "n_LanB (ex_node r k) = ex_port ''eth1''"
  "n_Interlink (ex_node r k) = ex_port ''eth2''" "n_dupTable (ex_node r k) = NewTable 256"
  "n_seqMgr (ex_node r k) = NewSequenceManagerWithStart 7"
  by (simp_all add: ex_node_def SetNodeMAC_def NewNode_def ex_cfg_def or_default_def)

lemma ex_ports [simp]: "ex_port nm \<noteq> None" "sent p (ex_node r k) = []"
  by (cases p; simp add: ex_port_def sent_def)+

lemma ex_cfg_fields [simp]:
  "TrailerEnabled (ex_cfg r)" "ForwardAll (ex_cfg r)" "VLANFilter (ex_cfg r) = []"
  "entryForgetMs (ex_cfg r) = 640" "cfg_NetID (ex_cfg r) = 3" "cfg_Role (ex_cfg r) = r"
  by (simp_all add: ex_cfg_def entryForgetMs_def)

lemma ex_roles [simp]:
  "role_of (ex_cfg ''prp-san'') = RolePRPSan" "role_of (ex_cfg ''hsr-san'') = RoleHSRSan"
  "role_of (ex_cfg ''hsr-prp'') = RoleHSRPRP" "role_of (ex_cfg ''hsr-hsr'') = RoleHSRHSR"
  by (simp_all add: ParseRole_role ParseRole_def)

lemma ex_ms [simp]: "ms_ok 640" "ms_dur 640 = 640000000"
  by (simp_all add: ms_ok_def ms_dur_def i64_def)

end
