(* ===== verification/PRPNetwork.thy ===== *)
theory PRPNetwork
  imports Examples
begin

text \<open>
  PRP end to end: a sending RedBox (SAN to both LANs), two LANs that deliver copies in any order
  and lose some, and a receiving RedBox (both LANs to SAN).
\<close>

unbundle bit_operations_syntax

section \<open>The receiving RedBox\<close>

abbreviation node_step :: "env \<times> frameEvent \<Rightarrow> node \<Rightarrow> node option" where
  "node_step x \<equiv> handleFrame (fst x) (snd x)"

definition prp_env :: "node \<Rightarrow> env \<times> frameEvent \<Rightarrow> table_env" where
  "prp_env n x = \<lparr>te_now = env_now (fst x), te_rng = env_rng (fst x),
     te_lan = lane_of (ev_iface (snd x)), te_ms = entryForgetMs (n_Config n)\<rparr>"

text \<open>A PRP node and a data frame from one of its LANs.\<close>

definition prp_ready :: "node \<Rightarrow> env \<times> frameEvent \<Rightarrow> bool" where
  "prp_ready n x \<longleftrightarrow> \<not> IsHSRNode (n_Config n) \<and> is_lan (ev_iface (snd x))
     \<and> GetEtherType (ev_frame (snd x)) \<noteq> 0x88fb"

lemma handleFrame_prp_rx:
  assumes "prp_ready n (e, ev)"
  shows "handleFrame e ev n = (if length (ev_frame ev) < 14 then Some n else handleIncomingPRPFrame e ev n)"
  using assms by (auto simp: handleFrame_def prp_ready_def is_lan_def is_supervision_def)

lemma prp_ready_quiet [simp]: "prp_ready (quiet n) x = prp_ready n x"
  by (simp add: prp_ready_def node_simps)

lemma prp_pair_long: "prp_pair n (e, ev) = Some p \<Longrightarrow> \<not> length (ev_frame ev) < 14"
  by (auto simp: prp_pair_def split: sum.splits if_splits elim: DecodeRCT_InrE)

lemma dup_Find_te: "dup_Find (fst x) n m s = te_find (prp_env (quiet n) x) (n_dupTable n) m s"
  by (simp add: dup_Find_def te_find_def prp_env_def)

lemma dup_Insert_te:
  "n_dupTable (dup_Insert (fst x) m s (lane_of (ev_iface (snd x))) n) = te_ins (prp_env (quiet n) x) (n_dupTable n) m s"
  by (simp add: dup_Insert_def te_ins_def prp_env_def node_simps)

interpretation prp_rx: dup_receiver te_find te_ins te_now "\<lambda>e. ms_dur (te_ms e)" te_ok room_for held
  table_inv "\<lambda>t. nat (t_maxSize t)" table_recd table_recent
  node_step n_dupTable quiet sent prp_env prp_pair prp_emit "\<lambda>c x. c" prp_ready
proof unfold_locales
  fix n :: node and x :: "env \<times> frameEvent"
  obtain e ev where x: "x = (e, ev)" by (cases x)
  assume ready: "prp_ready (quiet n) x"
  then have hf: "handleFrame e ev n = (if length (ev_frame ev) < 14 then Some n else handleIncomingPRPFrame e ev n)"
    using x by (intro handleFrame_prp_rx) simp
  {
    assume "prp_pair (quiet n) x = None"
    then obtain n' where "handleIncomingPRPFrame e ev n = Some n'" "only_counted n n'"
      using handleIncomingPRP_skip x by blast
    then show "\<exists>s'. node_step x n = Some s' \<and> n_dupTable s' = n_dupTable n \<and> quiet s' = quiet n
        \<and> (\<forall>p. sent p s' = sent p n)"
      using hf x by (auto simp: only_counted_def)
  next
    fix m q
    assume p: "prp_pair (quiet n) x = Some (m, q)" and "te_find (prp_env (quiet n) x) (n_dupTable n) m q"
    then have "dup_Find e n m q" using dup_Find_te[of x] x by simp
    then show "\<exists>s'. node_step x n = Some s' \<and> n_dupTable s' = n_dupTable n \<and> quiet s' = quiet n
        \<and> (\<forall>p. sent p s' = sent p n)"
      using hf x p prp_pair_long handleIncomingPRP_dup[of n e ev m q]
      by (auto simp: node_simps)
  next
    fix m q
    assume p: "prp_pair (quiet n) x = Some (m, q)" and "\<not> te_find (prp_env (quiet n) x) (n_dupTable n) m q"
    then have "\<not> dup_Find e n m q" using dup_Find_te[of x] x by simp
    moreover have "\<not> IsHSRNode (n_Config n)" using ready by (simp add: prp_ready_def node_simps)
    ultimately obtain n' where "handleIncomingPRPFrame e ev n = Some n'" "quiet n' = quiet n"
      "n_dupTable n' = n_dupTable (dup_Insert e m q (lane_of (ev_iface ev)) n)"
      "\<forall>p. sent p n' = sent p n @ prp_emit p (quiet n) (e, ev)"
      using p x handleIncomingPRP_accept by metis
    then show "\<exists>s'. node_step x n = Some s' \<and> n_dupTable s' = te_ins (prp_env (quiet n) x) (n_dupTable n) m q
        \<and> quiet s' = quiet n \<and> (\<forall>p'. sent p' s' = sent p' n @ prp_emit p' (quiet n) x)"
      using hf x p prp_pair_long dup_Insert_te[of x m q n] by auto
  }
qed simp_all

text \<open>
  A node whose duplicate table is still empty, and a sequence of offers the table is large enough
  for. An offer carries the reading of the clock and the entry lifetime.
\<close>

definition rx_stamp :: "node \<Rightarrow> env \<times> 'x \<Rightarrow> time \<times> int" where
  "rx_stamp n x = (env_now (fst x), ms_dur (entryForgetMs (n_Config n)))"

definition fresh_table :: "node \<Rightarrow> bool" where
  "fresh_table n \<longleftrightarrow> (\<exists>m. n_dupTable n = NewTable m \<and> 0 < m) \<and> ms_ok (entryForgetMs (n_Config n))"

definition rx_room :: "node \<Rightarrow> ((time \<times> int) \<times> string \<times> int) list \<Rightarrow> bool" where
  "rx_room n os \<longleftrightarrow> table_room (nat (t_maxSize (n_dupTable n))) [] os"

lemma fresh_table_NewNode: "ms_ok (entryForgetMs cfg) \<Longrightarrow> fresh_table (NewNode start cfg)"
  by (auto simp: fresh_table_def NewNode_def or_default_def)

lemma fresh_table_blank: "fresh_table n \<Longrightarrow> nt.blank (n_dupTable n)"
  by (auto simp: fresh_table_def intro: blank_NewTable)

lemma prp_stamp: "prp_rx.stamp = rx_stamp"
  by (simp add: fun_eq_iff prp_rx.stamp_def rx_stamp_def prp_env_def)

lemma prp_delivers:
  assumes "fresh_table n" and "\<forall>x \<in> set xs. prp_ready n x \<and> map_range (env_rng (fst x))"
    and "rx_room n (offered prp_pair rx_stamp (quiet n) xs)"
  shows "\<exists>n'. run node_step xs n = Some n' \<and>
    (\<forall>p. sent p n' = sent p n @ window_copies prp_pair (prp_emit p) (\<lambda>c x. c) rx_stamp (quiet n) Map.empty xs)"
  unfolding prp_stamp[symmetric]
proof (rule prp_rx.blank_run_window_copies)
  show "nt.blank (n_dupTable n)" using assms(1) by (rule fresh_table_blank)
  show "table_room (nat (t_maxSize (n_dupTable n))) [] (offered prp_pair prp_rx.stamp (quiet n) xs)"
    using assms(3) by (simp add: rx_room_def prp_stamp)
  show "\<forall>x \<in> set xs. prp_ready (quiet n) x \<and> te_ok (prp_env (quiet n) x)"
    using assms(1,2) by (auto simp: te_ok_def prp_env_def node_simps fresh_table_def)
qed

section \<open>The sending RedBox\<close>

text \<open>A PRP node with both LANs bound, and a SAN frame whose copies the kernel accepts.\<close>

definition san_ready :: "node \<Rightarrow> env \<times> frameEvent \<Rightarrow> bool" where
  "san_ready n x \<longleftrightarrow> \<not> IsHSRNode (n_Config n) \<and> TrailerEnabled (n_Config n) \<and> VLANFilter (n_Config n) = []
     \<and> bound PLanA n \<and> bound PLanB n \<and> ev_iface (snd x) = ''interlink'' \<and> 14 \<le> length (ev_frame (snd x))
     \<and> (\<forall>p f. env_wr (fst x) p f)"

abbreviation frames_of :: "(env \<times> frameEvent) list \<Rightarrow> bytes list" where
  "frames_of xs \<equiv> map (\<lambda>x. ev_frame (snd x)) xs"

abbreviation seqs_of :: "node \<Rightarrow> (env \<times> frameEvent) list \<Rightarrow> u16 list" where
  "seqs_of n xs \<equiv> sm_issue (n_seqMgr n) (map GetSrcMAC (frames_of xs))"

lemma handleFrame_interlink:
  assumes "\<not> IsHSRNode (n_Config n)" and "ev_iface ev = ''interlink''" and "14 \<le> length (ev_frame ev)"
  shows "handleFrame e ev n = handleInterlinkFrame e ev n"
  using assms by (auto simp: handleFrame_def is_supervision_def role_predicates)

lemma prp_sends:
  assumes "\<forall>x \<in> set xs. san_ready n x"
  shows "\<exists>n'. run node_step xs n = Some n'
    \<and> sent PLanA n' = sent PLanA n @ map2 (\<lambda>f q. EncodeRCT f q 0) (frames_of xs) (seqs_of n xs)
    \<and> sent PLanB n' = sent PLanB n @ map2 (\<lambda>f q. EncodeRCT f q 1) (frames_of xs) (seqs_of n xs)
    \<and> sent PInterlink n' = sent PInterlink n"
  using assms
proof (induction xs arbitrary: n)
  case Nil
  then show ?case by simp
next
  case (Cons x xs)
  obtain e ev where x: "x = (e, ev)" by (cases x)
  have r: "san_ready n (e, ev)" using Cons.prems x by simp
  let ?src = "GetSrcMAC (ev_frame ev)"
  have "TrailerEnabled (n_Config n)" "VLANFilter (n_Config n) = []" "bound PLanA n" "bound PLanB n"
    "12 \<le> length (ev_frame ev)" using r by (simp_all add: san_ready_def)
  then obtain n1 where n1: "handleInterlinkFrame e ev n = Some n1"
    "sent PLanA n1 = sent PLanA n @ wrote e PLanA (EncodeRCT (ev_frame ev) (sm_peek (n_seqMgr n) ?src) 0)"
    "sent PLanB n1 = sent PLanB n @ wrote e PLanB (EncodeRCT (ev_frame ev) (sm_peek (n_seqMgr n) ?src) 1)"
    "sent PInterlink n1 = sent PInterlink n" "n_seqMgr n1 = snd (sm_Next (n_seqMgr n) ?src)"
    "n_Config n1 = n_Config n" "\<forall>p. bound p n1 = bound p n"
    by (rule handleInterlinkFrame_tags[where e = e])
  have "san_ready n1 y = san_ready n y" for y
    using n1(6,7) by (simp only: san_ready_def)
  then have "\<forall>x \<in> set xs. san_ready n1 x"
    using Cons.prems by simp
  moreover have "node_step x n = Some n1"
    using n1(1) r x by (simp add: handleFrame_interlink san_ready_def)
  moreover have "seqs_of n (x # xs) = sm_peek (n_seqMgr n) ?src # seqs_of n1 xs"
    using x n1(5) by (simp add: case_prod_beta sm_Next_fst)
  ultimately show ?case
    using Cons.IH[of n1] n1 r x by (auto simp: wrote_def san_ready_def)
qed

section \<open>From SAN to SAN\<close>

text \<open>
  An arrival is a copy (which frame, which LAN) of the frames on the sender's LAN ports, with the
  environment of its reception.
\<close>

definition arrival :: "node \<Rightarrow> env \<times> nat \<times> bool \<Rightarrow> env \<times> frameEvent" where
  "arrival n a = (case a of (e, i, lanB) \<Rightarrow>
     let f = sent (if lanB then PLanB else PLanA) n ! i in
     (e, mk_event (if lanB then ''lan_b'' else ''lan_a'') f))"

text \<open>Frames PRP can carry: they fit the 12-bit size field and are not supervision traffic.\<close>

definition prp_frame :: "bytes \<Rightarrow> bool" where
  "prp_frame f \<longleftrightarrow> 14 \<le> length f \<and> rct_lsdu f < 4096 \<and> GetEtherType f \<noteq> 0 \<and> GetEtherType f \<noteq> 0x88fb"

definition copy_of :: "bytes \<Rightarrow> u16 \<Rightarrow> env \<Rightarrow> bool \<Rightarrow> env \<times> frameEvent" where
  "copy_of f q e lanB = (let c = EncodeRCT f q (if lanB then 1 else 0) in
     (e, mk_event (if lanB then ''lan_b'' else ''lan_a'') c))"

lemma copy_of_fields [simp]:
  "fst (copy_of f q e b) = e"
  "ev_iface (snd (copy_of f q e b)) = (if b then ''lan_b'' else ''lan_a'')"
  "ev_frame (snd (copy_of f q e b)) = EncodeRCT f q (if b then 1 else 0)"
  by (simp_all add: copy_of_def Let_def)

lemma prp_ready_copy:
  "prp_frame f \<Longrightarrow> \<not> IsHSRNode (n_Config n) \<Longrightarrow> prp_ready n (copy_of f q e b)"
  by (simp add: prp_ready_def is_lan_def prp_frame_def EncodeRCT_header)

lemma DecodeRCT_copy:
  "prp_frame f \<Longrightarrow> DecodeRCT (EncodeRCT f q (if b then 1 else 0)) = Inr (if b then 1 else 0, uint q, rct_padded f)"
  by (simp add: prp_frame_def DecodeRCT_EncodeRCT)

lemma own_frame_EncodeRCT: "12 \<le> length f \<Longrightarrow> own_frame n (EncodeRCT f q l) = own_frame n f"
  using EncodeRCT_extends[of f q l]
  by (auto simp: own_frame_def srcMACBytes_def gslice_def cong: option.case_cong)

lemma prp_pair_copy:
  assumes "prp_frame f" and "\<not> own_frame n f"
  shows "prp_pair n (copy_of f q e b) = Some (GetSrcMAC f, uint q)"
proof -
  have l: "12 \<le> length f" using assms(1) by (simp add: prp_frame_def)
  then have "\<not> own_frame n (EncodeRCT f q l)" "GetSrcMAC (EncodeRCT f q l) = GetSrcMAC f" for l
    using assms(2) by (simp_all add: own_frame_EncodeRCT EncodeRCT_header)
  then show ?thesis
    by (simp add: prp_pair_def DecodeRCT_copy[OF assms(1)] lane_of_def)
qed

lemma prp_emit_copy:
  assumes "prp_frame f" and "bound PInterlink n" and "ForwardAll (n_Config n)" and "\<forall>p f. env_wr e p f"
  shows "prp_emit PInterlink n (copy_of f q e b) = [rct_padded f]"
  using assms(2-4)
  by (simp add: prp_emit_def wrote_def shouldForwardToInterlink_def DecodeRCT_copy[OF assms(1)])

lemma arrival_copy:
  assumes "sent PLanA n = map2 (\<lambda>f q. EncodeRCT f q 0) fs qs" and "sent PLanB n = map2 (\<lambda>f q. EncodeRCT f q 1) fs qs"
    and "i < length fs" and "length qs = length fs"
  shows "arrival n (e, i, b) = copy_of (fs ! i) (qs ! i) e b"
  using assms by (simp add: arrival_def copy_of_def Let_def)

text \<open>The pair a frame of the sender goes by, and what the LANs have to respect.\<close>

definition pair_of :: "node \<Rightarrow> (env \<times> frameEvent) list \<Rightarrow> nat \<Rightarrow> string \<times> int" where
  "pair_of a xs i = (GetSrcMAC (frames_of xs ! i), uint (seqs_of a xs ! i))"

definition timely :: "(nat \<Rightarrow> string \<times> int) \<Rightarrow> int \<Rightarrow> (env \<times> nat \<times> bool) list \<Rightarrow> bool" where
  "timely pairs w = sorted_wrt (\<lambda>(e, i, _) (e', j, _). pairs i = pairs j \<longrightarrow> (i = j \<longleftrightarrow> env_now e' - env_now e \<le> w))"

text \<open>Fewer than \<open>2\<^sup>1\<^sup>6\<close> frames go by different pairs, so that only copies of one frame need to be close.\<close>

lemma pair_of_inject:
  assumes "i < length xs" and "j < length xs" and "length xs \<le> 65536"
  shows "pair_of a xs i = pair_of a xs j \<longleftrightarrow> i = j"
  using assms sm_issue_distinct[of "map GetSrcMAC (frames_of xs)" i j "n_seqMgr a"]
  by (auto simp: pair_of_def word_uint_eq_iff)

lemma timely_short:
  assumes "length xs \<le> 65536" and "\<forall>(e, i, _) \<in> set as. i < length xs"
    and "sorted_wrt (\<lambda>(e, i, _) (e', j, _). i = j \<longrightarrow> env_now e' - env_now e \<le> w) as"
  shows "timely (pair_of a xs) w as"
  unfolding timely_def
  by (rule sorted_wrt_mono_rel[OF _ assms(3)]) (use assms(1,2) pair_of_inject[of _ xs _ a] in fastforce)

text \<open>
  The receiver hands the SAN one padded copy of every frame of which a copy arrives, in the order
  of the first arrivals.
\<close>

lemma prp_first_arrivals:
  assumes tx: "\<forall>x \<in> set xs. san_ready a x \<and> prp_frame (ev_frame (snd x)) \<and> \<not> own_frame b (ev_frame (snd x))"
    "run node_step xs a = Some a'" "sent PLanA a = []" "sent PLanB a = []"
    and rx: "\<not> IsHSRNode (n_Config b)" "bound PInterlink b" "ForwardAll (n_Config b)" "fresh_table b"
    and arr: "\<forall>(e, i, lanB) \<in> set as. i < length xs \<and> map_range (env_rng e) \<and> (\<forall>p f. env_wr e p f)"
    and lan: "timely (pair_of a xs) (ms_dur (entryForgetMs (n_Config b))) as"
    "rx_room b (offered prp_pair rx_stamp (quiet b) (map (arrival a') as))"
  shows "\<exists>b'. run node_step (map (arrival a') as) b = Some b' \<and> sent PInterlink b' = sent PInterlink b
      @ map (\<lambda>i. rct_padded (frames_of xs ! i)) (first_occ {} (map (\<lambda>(e, i, lanB). i) as))"
proof -
  let ?fs = "frames_of xs" and ?qs = "seqs_of a xs"
  have "sent PLanA a' = map2 (\<lambda>f q. EncodeRCT f q 0) ?fs ?qs" "sent PLanB a' = map2 (\<lambda>f q. EncodeRCT f q 1) ?fs ?qs"
    using prp_sends[of xs a] tx(1-4) by auto
  then have copy: "arrival a' (e, i, l) = copy_of (?fs ! i) (?qs ! i) e l" if "i < length xs" for e i l
    using that by (intro arrival_copy) simp_all
  have f: "prp_frame (?fs ! i)" "\<not> own_frame (quiet b) (?fs ! i)" if "i < length xs" for i
    using tx(1) that by (simp_all add: node_simps)
  have g: "prp_pair (quiet b) (arrival a' x) = Some (pair_of a xs ((\<lambda>(e, i, lanB). i) x))
      \<and> prp_emit PInterlink (quiet b) (arrival a' x) = [rct_padded (?fs ! (\<lambda>(e, i, lanB). i) x)]
      \<and> prp_ready b (arrival a' x) \<and> map_range (env_rng (fst (arrival a' x)))
      \<and> rx_stamp (quiet b) (arrival a' x) = (env_now (fst x), ms_dur (entryForgetMs (n_Config b)))" if "x \<in> set as" for x
  proof -
    obtain e i l where x: "x = (e, i, l)" by (metis prod_cases3)
    then have i: "i < length xs" and e: "map_range (env_rng e)" "\<forall>p f. env_wr e p f" using arr that by auto
    show ?thesis
      using prp_pair_copy[OF f[OF i]] prp_emit_copy[OF f(1)[OF i], of "quiet b" e] rx(1-3) e
        prp_ready_copy[OF f(1)[OF i] rx(1)]
      by (simp add: x copy[OF i] node_simps bound_quiet[of PInterlink, simplified] pair_of_def rx_stamp_def)
  qed
  have "window_copies prp_pair (prp_emit PInterlink) (\<lambda>c x. c) rx_stamp (quiet b) Map.empty (map (arrival a') as)
      = map (\<lambda>i. rct_padded (?fs ! i)) (first_occ {} (map (\<lambda>(e, i, lanB). i) as))"
    using g lan(1) ms_dur_bounds(1)[of "entryForgetMs (n_Config b)"] rx(4)
    by (intro window_copies_indexed[where w = "ms_dur (entryForgetMs (n_Config b))"
        and k = "pair_of a xs" and t = "\<lambda>x. env_now (fst x)"])
      (auto simp: fresh_table_def remembered_def timely_def case_prod_beta')
  moreover have "\<forall>x \<in> set (map (arrival a') as). prp_ready b x \<and> map_range (env_rng (fst x))"
    using g by simp
  then obtain b' where "run node_step (map (arrival a') as) b = Some b'"
    "\<forall>p. sent p b' = sent p b @ window_copies prp_pair (prp_emit p) (\<lambda>c x. c) rx_stamp (quiet b) Map.empty (map (arrival a') as)"
    using prp_delivers[OF rx(4) _ lan(2)] by blast
  ultimately show ?thesis by auto
qed

section \<open>Properties\<close>

text \<open>
  C1. End-to-end redundancy: a PRP RedBox tags the SAN frames \<open>xs\<close> and sends them on both LANs;
  the receiving RedBox gets any sequence \<open>as\<close> of copies (lost, repeated and reordered as the LANs
  please). It hands its SAN exactly one copy of each frame of which a copy arrived, padded to the
  Ethernet minimum, in the order of the first arrivals. The stream may be of any length, past the wrap
  of the sequence numbers: of the LANs it is required that two arrivals with the same source and number
  are within the entry lifetime of each other exactly when they are copies of one frame
  (\<open>timely\<close>), and that the receiver's table is large enough for what arrives in between (\<open>rx_room\<close>).
\<close>

theorem prp_exactly_once:
  assumes "\<forall>x \<in> set xs. san_ready a x \<and> prp_frame (ev_frame (snd x)) \<and> \<not> own_frame b (ev_frame (snd x))"
    and "run node_step xs a = Some a'" and "sent PLanA a = []" and "sent PLanB a = []"
    and "\<not> IsHSRNode (n_Config b)" and "bound PInterlink b" and "ForwardAll (n_Config b)" and "fresh_table b"
    and "\<forall>(e, i, lanB) \<in> set as. i < length xs \<and> map_range (env_rng e) \<and> (\<forall>p f. env_wr e p f)"
    and "timely (pair_of a xs) (ms_dur (entryForgetMs (n_Config b))) as"
    and "rx_room b (offered prp_pair rx_stamp (quiet b) (map (arrival a') as))"
  shows "\<exists>b' order. run node_step (map (arrival a') as) b = Some b'
    \<and> sent PInterlink b' = sent PInterlink b @ map (\<lambda>i. rct_padded (frames_of xs ! i)) order
    \<and> order = first_occ {} (map (\<lambda>(e, i, lanB). i) as)
    \<and> distinct order \<and> set order = (\<lambda>(e, i, lanB). i) ` set as"
  using prp_first_arrivals[OF assms] by (auto simp: distinct_first_occ set_first_occ)

lemma ex_san_ready: "14 \<le> length f \<Longrightarrow> san_ready (ex_node ''prp-san'' k) (ex_env t, mk_event ''interlink'' f)"
  by (simp add: san_ready_def role_predicates)

lemma ex_fresh [simp]: "fresh_table (ex_node r m)" "length os \<le> 256 \<Longrightarrow> rx_room (ex_node r m) os"
proof -
  show "fresh_table (ex_node r m)" by (auto simp: fresh_table_def intro!: exI[of _ 256])
  show "length os \<le> 256 \<Longrightarrow> rx_room (ex_node r m) os"
    by (auto simp: rx_room_def NewTable_def intro: table_room_short)
qed

lemma offered_length: "length (offered pair env c xs) \<le> length xs"
  by (induction xs) (auto split: option.split)

lemma ex_room: "length xs \<le> 256 \<Longrightarrow> rx_room (ex_node r m) (offered pair stamp c xs)"
  using offered_length[of pair stamp c xs] by simp

lemma prp_exactly_once_witness:
  "\<exists>a' b' order. run node_step [(ex_env 0, mk_event ''interlink'' ex_frame), (ex_env 1, mk_event ''interlink'' ex_frame)]
      (ex_node ''prp-san'' 1) = Some a'
    \<and> run node_step (map (arrival a') [(ex_env 5, 1, True), (ex_env 6, 0, False), (ex_env 7, 1, False)])
      (ex_node ''prp-san'' 2) = Some b'
    \<and> sent PInterlink b' = map (\<lambda>i. rct_padded ex_frame) order \<and> order = [1, 0]"
proof -
  let ?xs = "[(ex_env 0, mk_event ''interlink'' ex_frame), (ex_env 1, mk_event ''interlink'' ex_frame)]"
  let ?as = "[(ex_env 5, 1 :: nat, True), (ex_env 6, 0, False), (ex_env 7, 1, False)]"
  have l: "14 \<le> length ex_frame" by (simp add: ex_frame_def)
  have "\<exists>a'. run node_step ?xs (ex_node ''prp-san'' 1) = Some a'"
    using prp_sends[of ?xs "ex_node ''prp-san'' 1"] ex_san_ready[OF l] by auto
  then obtain a' where a': "run node_step ?xs (ex_node ''prp-san'' 1) = Some a'" by blast
  have f: "prp_frame ex_frame" "\<not> own_frame (ex_node ''prp-san'' 2) ex_frame" by code_simp+
  have "\<forall>x \<in> set ?xs. san_ready (ex_node ''prp-san'' 1) x \<and> prp_frame (ev_frame (snd x))
      \<and> \<not> own_frame (ex_node ''prp-san'' 2) (ev_frame (snd x))"
    using ex_san_ready[OF l] f by simp
  moreover have "timely (pair_of (ex_node ''prp-san'' 1) ?xs) (ms_dur (entryForgetMs (n_Config (ex_node ''prp-san'' 2)))) ?as"
    by (rule timely_short) simp_all
  moreover have "rx_room (ex_node ''prp-san'' 2) (offered prp_pair rx_stamp (quiet (ex_node ''prp-san'' 2)) (map (arrival a') ?as))"
    by (rule ex_room) simp
  ultimately obtain b' order where "run node_step (map (arrival a') ?as) (ex_node ''prp-san'' 2) = Some b'"
    "sent PInterlink b' = sent PInterlink (ex_node ''prp-san'' 2) @ map (\<lambda>i. rct_padded (frames_of ?xs ! i)) order"
    "order = first_occ {} (map (\<lambda>(e, i, lanB). i) ?as)"
    using prp_exactly_once[of ?xs "ex_node ''prp-san'' 1" "ex_node ''prp-san'' 2" a' ?as, OF _ a']
    by (auto simp: role_predicates)
  moreover have "first_occ {} (map (\<lambda>(e, i, lanB). i) ?as) = [1, (0 :: nat)]" by simp
  ultimately show ?thesis using a' by (intro exI[of _ a'] exI[of _ b'] exI[of _ order]) simp
qed

text \<open>
  C10. The PRP receive path implements its specification, a receiver with an unbounded memory: over
  any sequence of data frames from the LANs, at any clock readings, a node with an empty duplicate
  table writes to its interlink exactly the payloads of the frames with a valid trailer, the right lane
  and a foreign source whose (source, sequence number) pair it has not accepted within the entry
  lifetime, filtered by the forwarding policy, and to its LANs nothing. The table, which evicts its
  oldest entry when it is full, is only required to have room for the offers between two of one pair.
\<close>

theorem prp_receive_refines:
  assumes "fresh_table n" and "\<forall>x \<in> set xs. prp_ready n x \<and> map_range (env_rng (fst x))"
    and "rx_room n (offered prp_pair rx_stamp (quiet n) xs)"
  shows "\<exists>n'. run node_step xs n = Some n'
    \<and> sent PInterlink n' = sent PInterlink n
        @ window_copies prp_pair (prp_emit PInterlink) (\<lambda>c x. c) rx_stamp (quiet n) Map.empty xs
    \<and> sent PLanA n' = sent PLanA n \<and> sent PLanB n' = sent PLanB n"
proof -
  have "prp_emit p c x = []" if "p \<noteq> PInterlink" for p c x
    using that by (cases p; cases x) (simp_all add: prp_emit_def split: sum.split)
  then have "window_copies prp_pair (prp_emit p) (\<lambda>c x. c) rx_stamp c M xs = []" if "p \<noteq> PInterlink" for p c M
    using that by (intro window_copies_silent)
  then show ?thesis using prp_delivers[OF assms] by fastforce
qed

lemma prp_receive_refines_witness:
  "\<exists>n'. run node_step [copy_of ex_frame 3 (ex_env 0) False, copy_of ex_frame 3 (ex_env 1) True,
      copy_of ex_frame 3 (ex_env 640000001) True] (ex_node ''prp-san'' 1) = Some n'
    \<and> sent PInterlink n' = [rct_padded ex_frame, rct_padded ex_frame]"
proof -
  let ?n = "ex_node ''prp-san'' 1" and ?xs = "[copy_of ex_frame 3 (ex_env 0) False,
    copy_of ex_frame 3 (ex_env 1) True, copy_of ex_frame 3 (ex_env 640000001) True]"
  have f: "prp_frame ex_frame" "\<not> own_frame (quiet ?n) ex_frame" by code_simp+
  have "\<forall>x \<in> set ?xs. prp_ready ?n x \<and> map_range (env_rng (fst x))"
    using f by (simp add: prp_ready_copy role_predicates)
  moreover have "prp_emit PInterlink (quiet ?n) (copy_of ex_frame 3 (ex_env t) b) = [rct_padded ex_frame]" for t b
    by (rule prp_emit_copy[OF f(1)]) (simp_all add: node_simps ex_port_def quiet_def)
  ultimately show ?thesis
    using prp_receive_refines[of ?n ?xs] ex_room[of ?xs "''prp-san''" 1]
    by (auto simp: prp_pair_copy[OF f] rx_stamp_def remembered_def node_simps)
qed

end
