(* ===== verification/HSRNetwork.thy ===== *)
theory HSRNetwork
  imports PRPNetwork
begin

text \<open>
  HSR nodes as receivers: the ring ports of every HSR role, and the interlink of a QuadBox, offer
  each frame to the same duplicate table and act on the first copy only.
\<close>

unbundle bit_operations_syntax

section \<open>The receive paths of an HSR node\<close>

definition ring_env :: "node \<Rightarrow> env \<times> frameEvent \<Rightarrow> table_env" where
  "ring_env n x = \<lparr>te_now = env_now (fst x), te_rng = env_rng (fst x), te_lan = 0,
     te_ms = entryForgetMs (n_Config n)\<rparr>"

definition ring_upd :: "node \<Rightarrow> env \<times> frameEvent \<Rightarrow> node" where
  "ring_upd n x = (if ev_iface (snd x) = ''interlink'' then n else hsr_upd n x)"

definition ring_emit :: "portsel \<Rightarrow> node \<Rightarrow> env \<times> frameEvent \<Rightarrow> bytes list" where
  "ring_emit p n x = (if ev_iface (snd x) = ''interlink'' then quad_emit p x else hsr_emit p n x)"

text \<open>An HSR node with its ports bound, and a data frame from the ring or from the other ring.\<close>

definition ring_ready :: "node \<Rightarrow> env \<times> frameEvent \<Rightarrow> bool" where
  "ring_ready n x \<longleftrightarrow> hsr_bound n \<and> GetEtherType (ev_frame (snd x)) \<noteq> 0x88fb \<and>
     (is_lan (ev_iface (snd x)) \<or> (ev_iface (snd x) = ''interlink'' \<and> role_of (n_Config n) = RoleHSRHSR))"

lemma is_lan_interlink: "is_lan ifc \<Longrightarrow> ifc \<noteq> ''interlink''"
  by (auto simp: is_lan_def)

lemma handleFrame_ring:
  assumes "ring_ready n (e, ev)"
  shows "handleFrame e ev n = (if length (ev_frame ev) < 14 then Some n
    else if ev_iface ev = ''interlink'' then handleHSRInterlinkFrame e ev n else handleIncomingHSRFrame e ev n)"
  using assms by (auto simp: handleFrame_def ring_ready_def is_lan_def is_supervision_def hsr_bound_def role_predicates)

lemma hsr_pair_long: "hsr_pair n (e, ev) = Some p \<Longrightarrow> \<not> length (ev_frame ev) < 14"
  by (auto simp: hsr_pair_def split: sum.splits if_splits dest: DecodeHSR_long)

lemma ring_ready_quiet [simp]: "ring_ready (quiet n) x = ring_ready n x"
  by (simp add: ring_ready_def node_simps)

lemma ring_te:
  "dup_Find (fst x) n m s = te_find (ring_env (quiet n) x) (n_dupTable n) m s"
  "n_dupTable (dup_Insert (fst x) m s 0 n) = te_ins (ring_env (quiet n) x) (n_dupTable n) m s"
  by (simp_all add: dup_Find_def te_find_def dup_Insert_def te_ins_def ring_env_def node_simps)

text \<open>One step, on any of the ports, in terms of the pair and the duplicate table.\<close>

lemma ring_step:
  assumes "ring_ready n (e, ev)"
  shows "\<exists>n'. handleFrame e ev n = Some n' \<and>
    (case hsr_pair (quiet n) (e, ev) of
       None \<Rightarrow> quiet n' = quiet n \<and> n_dupTable n' = n_dupTable n \<and> (\<forall>p. sent p n' = sent p n)
     | Some (m, s) \<Rightarrow>
       if dup_Find e n m s then quiet n' = quiet n \<and> n_dupTable n' = n_dupTable n \<and> (\<forall>p. sent p n' = sent p n)
       else quiet n' = ring_upd (quiet n) (e, ev) \<and> n_dupTable n' = n_dupTable (dup_Insert e m s 0 n)
         \<and> (\<forall>p. sent p n' = sent p n @ ring_emit p (quiet n) (e, ev)))"
proof (cases "ev_iface ev = ''interlink''")
  case True
  then have "role_of (n_Config n) = RoleHSRHSR" "bound PLanA n" "bound PLanB n"
    using assms by (auto simp: ring_ready_def hsr_bound_def dest: is_lan_interlink)
  then obtain n' where "handleHSRInterlinkFrame e ev n = Some n'" "quiet n' = quiet n \<and>
    (case hsr_pair (quiet n) (e, ev) of
       None \<Rightarrow> n_dupTable n' = n_dupTable n \<and> (\<forall>p. sent p n' = sent p n)
     | Some (m, s) \<Rightarrow>
       if dup_Find e n m s then n_dupTable n' = n_dupTable n \<and> (\<forall>p. sent p n' = sent p n)
       else n_dupTable n' = n_dupTable (dup_Insert e m s 0 n)
         \<and> (\<forall>p. sent p n' = sent p n @ quad_emit p (e, ev)))"
    using quadboxInterlink_spec by blast
  then show ?thesis
    using True hsr_pair_long[of "quiet n" e ev] unfolding handleFrame_ring[OF assms]
    by (auto simp: ring_upd_def ring_emit_def split: option.splits)
next
  case False
  have b: "hsr_bound n" using assms by (simp add: ring_ready_def)
  show ?thesis
  proof (cases "hsr_pair (quiet n) (e, ev)")
    case None
    then show ?thesis
      using handleIncomingHSR_skip[OF None] False unfolding handleFrame_ring[OF assms]
      by (auto simp: only_counted_def)
  next
    case (Some p)
    then obtain m s where p: "hsr_pair (quiet n) (e, ev) = Some (m, s)" by (cases p) auto
    show ?thesis
      using False p hsr_pair_long[OF p] handleIncomingHSR_dup[OF p] handleIncomingHSR_accept[OF p _ b]
      unfolding handleFrame_ring[OF assms]
      by (cases "dup_Find e n m s") (auto simp: ring_upd_def ring_emit_def node_simps)
  qed
qed

lemma own_frame_hsr_upd: "own_frame (hsr_upd n x) f = own_frame n f"
  by (simp add: own_frame_def hsr_upd_def learnRingMember_def)

interpretation hsr_rx: dup_receiver te_find te_ins te_now "\<lambda>e. ms_dur (te_ms e)" te_ok room_for held
  table_inv "\<lambda>t. nat (t_maxSize t)" table_recd table_recent
  node_step n_dupTable quiet sent ring_env hsr_pair ring_emit ring_upd ring_ready
proof unfold_locales
  fix n :: node and x :: "env \<times> frameEvent"
  assume ready: "ring_ready (quiet n) x"
  have step: "\<exists>n'. node_step x n = Some n' \<and>
    (case hsr_pair (quiet n) x of
       None \<Rightarrow> quiet n' = quiet n \<and> n_dupTable n' = n_dupTable n \<and> (\<forall>p. sent p n' = sent p n)
     | Some (m, s) \<Rightarrow>
       if dup_Find (fst x) n m s then quiet n' = quiet n \<and> n_dupTable n' = n_dupTable n \<and> (\<forall>p. sent p n' = sent p n)
       else quiet n' = ring_upd (quiet n) x \<and> n_dupTable n' = n_dupTable (dup_Insert (fst x) m s 0 n)
         \<and> (\<forall>p. sent p n' = sent p n @ ring_emit p (quiet n) x))"
    using ring_step[of n "fst x" "snd x"] ready unfolding prod.collapse ring_ready_quiet .
  show "\<exists>s'. node_step x n = Some s' \<and> n_dupTable s' = n_dupTable n \<and> quiet s' = quiet n \<and> (\<forall>p. sent p s' = sent p n)"
    if "hsr_pair (quiet n) x = None"
    using step that by auto
  show "\<exists>s'. node_step x n = Some s' \<and> n_dupTable s' = n_dupTable n \<and> quiet s' = quiet n \<and> (\<forall>p. sent p s' = sent p n)"
    if "hsr_pair (quiet n) x = Some (m, q)" "te_find (ring_env (quiet n) x) (n_dupTable n) m q" for m q
    using step that ring_te(1)[of x n m q] by auto
  show "\<exists>s'. node_step x n = Some s' \<and> n_dupTable s' = te_ins (ring_env (quiet n) x) (n_dupTable n) m q
      \<and> quiet s' = ring_upd (quiet n) x \<and> (\<forall>p. sent p s' = sent p n @ ring_emit p (quiet n) x)"
    if "hsr_pair (quiet n) x = Some (m, q)" "\<not> te_find (ring_env (quiet n) x) (n_dupTable n) m q" for m q
    using step that ring_te[where x = x and m = m and s = q and n = n] by auto
next
  fix c :: node and x :: "env \<times> frameEvent"
  show "ring_env (ring_upd c x) = ring_env c"
    by (auto simp: ring_env_def ring_upd_def hsr_upd_def node_simps)
  have "hsr_bound (learnRingMember e m c) = hsr_bound c" for e m
    unfolding hsr_bound_def node_simps ..
  then show "ring_ready (ring_upd c x) = ring_ready c"
    by (auto simp: ring_ready_def ring_upd_def hsr_upd_def node_simps)
  show "hsr_pair (ring_upd c x) = hsr_pair c"
    by (rule ext) (auto simp: hsr_pair_def ring_upd_def own_frame_hsr_upd split: sum.split)
qed

lemma hsr_stamp: "hsr_rx.stamp = rx_stamp"
  by (simp add: fun_eq_iff hsr_rx.stamp_def rx_stamp_def ring_env_def)

section \<open>Properties\<close>



end
