(* ===== verification/HSRRing.thy ===== *)
theory HSRRing
  imports HSRNetwork
begin

text \<open>
  An HSR ring of hsr-san nodes. A frame injected by one node leaves on both ring ports; the two
  copies travel in opposite directions, hop by hop, in any interleaving, until a node that has
  seen the frame takes them off the ring.
\<close>

unbundle bit_operations_syntax

section \<open>One node\<close>

text \<open>A frame on the ring that carries the Ethernet frame \<open>orig\<close> under the pair \<open>(m, s)\<close>.\<close>

definition carries :: "bytes \<Rightarrow> string \<Rightarrow> int \<Rightarrow> bytes \<Rightarrow> bool" where
  "carries f m s orig \<longleftrightarrow> (\<exists>path encap payload. DecodeHSR f = Inr (path, s, encap, payload))
     \<and> StripHSR f = Inr orig \<and> GetSrcMAC f = m \<and> take 12 f = take 12 orig \<and> 12 \<le> length orig"

lemma DecodeHSR_EtherType: "DecodeHSR f = Inr x \<Longrightarrow> GetEtherType f = HSREtherType"
proof -
  assume d: "DecodeHSR f = Inr x"
  obtain path s encap payload where "x = (path, s, encap, payload)" by (metis prod_cases4)
  with d obtain h w s body where "f = hsr_frame h w s encap body" "eth_hdr h" by (metis DecodeHSR_InrE)
  then show ?thesis by (simp add: hsr_frame_def GetEtherType_hdr)
qed

lemma GetSrcMAC_take: "12 \<le> length f \<Longrightarrow> GetSrcMAC f = GetSrcMAC (take 12 f)"
  using GetSrcMAC_append[of "take 12 f" "drop 12 f"] by simp

lemma carries_lane:
  assumes "carries f m s orig"
  obtains g where "RewriteHSRPathLane f laneA = Inr g" and "carries g m s orig"
proof -
  obtain path encap payload where d: "DecodeHSR f = Inr (path, s, encap, payload)"
    using assms by (auto simp: carries_def)
  obtain g where g: "RewriteHSRPathLane f laneA = Inr g"
    "DecodeHSR g = Inr (2 * (path div 2) + (if laneA then 0 else 1), s, encap, payload)"
    "StripHSR g = StripHSR f" "length g = length f" "take 12 g = take 12 f"
    using DecodeHSR_lane[OF d] .
  moreover have "GetSrcMAC g = GetSrcMAC f"
    using GetSrcMAC_take[of g] GetSrcMAC_take[of f] g(4,5) DecodeHSR_long[OF d] by simp
  ultimately show thesis using assms by (intro that[of g]) (auto simp: carries_def)
qed

text \<open>
  A node of the ring that has not seen the pair and will deliver the frame, and a node that
  recognises the pair during the time from \<open>T0\<close> to \<open>T1\<close>.
\<close>

definition ring_fresh :: "time \<Rightarrow> time \<Rightarrow> string \<Rightarrow> int \<Rightarrow> bytes \<Rightarrow> node \<Rightarrow> bool" where
  "ring_fresh T0 T1 m s orig n \<longleftrightarrow> role_of (n_Config n) = RoleHSRSan \<and> hsr_bound n \<and> ForwardAll (n_Config n)
     \<and> \<not> own_frame n orig \<and> table_ok (n_dupTable n)
     \<and> int (length (t_entries (n_dupTable n))) < t_maxSize (n_dupTable n)
     \<and> gm_get (t_entries (n_dupTable n)) (key m s) = None
     \<and> ms_ok (entryForgetMs (n_Config n)) \<and> T1 - T0 \<le> ms_dur (entryForgetMs (n_Config n))"

definition ring_done :: "time \<Rightarrow> time \<Rightarrow> string \<Rightarrow> int \<Rightarrow> node \<Rightarrow> bool" where
  "ring_done T0 T1 m s n \<longleftrightarrow> role_of (n_Config n) = RoleHSRSan \<and> hsr_bound n
     \<and> (\<forall>now. T0 \<le> now \<and> now \<le> T1 \<longrightarrow> Find now (n_dupTable n) m s)"

text \<open>An environment in which the kernel accepts every write, at a time within the interval.\<close>

definition ring_time :: "time \<Rightarrow> time \<Rightarrow> env \<Rightarrow> bool" where
  "ring_time T0 T1 e \<longleftrightarrow> T0 \<le> env_now e \<and> env_now e \<le> T1 \<and> map_range (env_rng e) \<and> (\<forall>p f. env_wr e p f)"

lemma carries_ready:
  assumes "carries f m s orig" and "hsr_bound n" and "is_lan ifc"
  shows "ring_ready n (e, mk_event ifc f)"
  using assms DecodeHSR_EtherType[of f] by (auto simp: carries_def ring_ready_def HSREtherType_def)

lemma own_frame_take:
  assumes "take 12 f = take 12 g" and "12 \<le> length g" and "12 \<le> length f"
  shows "own_frame n f = own_frame n g"
proof -
  have "gslice 6 12 f = gslice 6 12 g"
    using assms(1) by (simp add: gslice_def take_drop)
  then show ?thesis using assms(2,3) by (simp add: own_frame_def srcMACBytes_def cong: option.case_cong)
qed

lemma carries_long: "carries f m s orig \<Longrightarrow> 20 \<le> length f"
  using DecodeHSR_long by (auto simp: carries_def)

lemma carries_pair:
  assumes "carries f m s orig" and "\<not> own_frame n orig"
  shows "hsr_pair n (e, mk_event ifc f) = Some (m, s)"
proof -
  have "own_frame n f = own_frame n orig"
    using assms(1) carries_long[OF assms(1)] by (intro own_frame_take) (auto simp: carries_def)
  with assms show ?thesis by (auto simp: hsr_pair_def carries_def)
qed

text \<open>A node that knows the pair takes the copy off the ring.\<close>

lemma ring_done_step:
  assumes "ring_done T0 T1 m s n" and "carries f m s orig" and "ring_time T0 T1 e" and "is_lan ifc"
  shows "\<exists>n'. handleFrame e (mk_event ifc f) n = Some n' \<and> ring_done T0 T1 m s n' \<and> (\<forall>p. sent p n' = sent p n)"
proof -
  have b: "hsr_bound n" using assms(1) by (simp add: ring_done_def)
  have find: "dup_Find e n m s" using assms(1,3) by (simp add: ring_done_def dup_Find_def ring_time_def)
  have pair: "hsr_pair (quiet n) (e, mk_event ifc f) \<in> {None, Some (m, s)}"
    using assms(2) by (cases "own_frame (quiet n) f") (auto simp: hsr_pair_def carries_def)
  obtain n' where n': "handleFrame e (mk_event ifc f) n = Some n'" "quiet n' = quiet n"
    "n_dupTable n' = n_dupTable n" "\<forall>p. sent p n' = sent p n"
    using ring_step[OF carries_ready[OF assms(2) b assms(4)], of e] pair find by auto
  have "ring_done T0 T1 m s n'"
    using assms(1) n'(2,3) hsr_bound_quiet[of n] hsr_bound_quiet[of n'] quiet_fields(1)[of n] quiet_fields(1)[of n']
    by (simp add: ring_done_def)
  with n' show ?thesis by blast
qed

text \<open>A node that does not know it delivers the frame once and passes the copy on.\<close>

lemma ring_fresh_step:
  assumes n: "ring_fresh T0 T1 m s orig n" and f: "carries f m s orig" and e: "ring_time T0 T1 e"
    and ifc: "is_lan ifc" and mc: "orig ! 0 AND 1 = 1"
  shows "\<exists>n' g. handleFrame e (mk_event ifc f) n = Some n' \<and> ring_done T0 T1 m s n' \<and> carries g m s orig
    \<and> (\<forall>p. sent p n' = sent p n @ (if p = PInterlink then [orig] else if p = other_port ifc then [g] else []))"
proof -
  have b: "hsr_bound n" and role: "role_of (n_Config n) = RoleHSRSan" and fwd: "ForwardAll (n_Config n)"
    and t: "table_ok (n_dupTable n)" "int (length (t_entries (n_dupTable n))) < t_maxSize (n_dupTable n)"
    "gm_get (t_entries (n_dupTable n)) (key m s) = None"
    and ms: "ms_ok (entryForgetMs (n_Config n))" "T1 - T0 \<le> ms_dur (entryForgetMs (n_Config n))"
    and own: "\<not> own_frame (quiet n) orig" using n by (auto simp: ring_fresh_def node_simps)
  have pair: "hsr_pair (quiet n) (e, mk_event ifc f) = Some (m, s)" by (rule carries_pair[OF f own])
  have nf: "\<not> dup_Find e n m s" using t(3) by (simp add: dup_Find_def Find_iff)
  obtain n' where n': "handleFrame e (mk_event ifc f) n = Some n'"
    "quiet n' = ring_upd (quiet n) (e, mk_event ifc f)" "n_dupTable n' = n_dupTable (dup_Insert e m s 0 n)"
    "\<forall>p. sent p n' = sent p n @ ring_emit p (quiet n) (e, mk_event ifc f)"
    using ring_step[OF carries_ready[OF f b ifc], of e] pair nf by auto
  obtain g where g: "RewriteHSRPathLane f (other_port ifc = PLanA) = Inr g" "carries g m s orig"
    using carries_lane[OF f] .
  have nil: "ifc \<noteq> ''interlink''" by (rule is_lan_interlink[OF ifc])
  have mc': "f ! 0 AND 1 = 1"
    using mc f carries_long[OF f] nth_take[of 0 12 f] nth_take[of 0 12 orig] by (simp add: carries_def)
  have uni: "\<not> unicastToRingMember c (take 6 f)" for c
    using mc' carries_long[OF f] by (simp add: unicastToRingMember_def)
  have cfg: "n_Config (hsr_upd (quiet n) (e, mk_event ifc f)) = n_Config n" by (simp add: hsr_upd_def node_simps)
  have il: "interlink_emit e (hsr_upd (quiet n) (e, mk_event ifc f)) f = [orig]"
    using f role fwd e uni
    by (auto simp: interlink_emit_def cfg carries_def shouldForwardToInterlink_def wrote_def ring_time_def)
  have emit: "ring_emit p (quiet n) (e, mk_event ifc f) =
      (if p = PInterlink then [orig] else if p = other_port ifc then [g] else [])" for p
    using nil g(1) e il by (simp add: ring_emit_def hsr_emit_def Let_def wrote_def ring_time_def)
  have "room_for (n_dupTable n) (env_now e) m s 0"
    using t newer_le[of "t_entries (n_dupTable n)" "key m s" "env_now e"] by (simp add: room_for_def)
  then have "held (n_dupTable n') (env_now e) (ms_dur (entryForgetMs (n_Config n))) m s 0"
    using e ms(1) unfolding n'(3) dup_Insert_def by (simp add: room_for_Insert ring_time_def)
  then have "\<forall>now. T0 \<le> now \<and> now \<le> T1 \<longrightarrow> Find now (n_dupTable n') m s"
    using e ms(2) held_Find by (fastforce simp: ring_time_def)
  moreover have "role_of (n_Config n') = RoleHSRSan"
    using role cfg n'(2) quiet_fields(1)[of n'] nil by (simp add: ring_upd_def)
  moreover have "hsr_bound n'"
  proof -
    have "hsr_bound (learnRingMember e m' (quiet n)) = hsr_bound (quiet n)" for m'
      unfolding hsr_bound_def node_simps ..
    then show ?thesis using b n'(2) hsr_bound_quiet[of n'] hsr_bound_quiet[of n] nil
      by (simp add: ring_upd_def hsr_upd_def)
  qed
  ultimately have "ring_done T0 T1 m s n'" by (simp add: ring_done_def)
  with n'(1,4) g(2) emit show ?thesis by auto
qed

section \<open>The ring\<close>

text \<open>
  Node \<open>i\<close>'s LAN B port is wired to the LAN A port of node \<open>i + 1\<close>, around the ring. One copy
  travels up (it comes in on \<open>lan_a\<close>), one down; each is the index of the node it is about to reach
  and its bytes, or none once it has been taken off. Link \<open>i\<close> leads down from node \<open>i\<close>; at most one link
  is broken, and what is sent over it is lost.
\<close>

record ring =
  rg_nodes :: "node list"
  rg_up :: "(nat \<times> bytes) option"
  rg_down :: "(nat \<times> bytes) option"

text \<open>What a step put on a port, and the copy it makes of it on the next link.\<close>

definition new_out :: "portsel \<Rightarrow> node \<Rightarrow> node \<Rightarrow> bytes list" where
  "new_out p n n' = drop (length (sent p n)) (sent p n')"

fun on_link :: "nat option \<Rightarrow> nat \<Rightarrow> nat \<Rightarrow> bytes list \<Rightarrow> (nat \<times> bytes) option" where
  "on_link brk l i [] = None"
| "on_link brk l i (g # _) = (if brk = Some l then None else Some (i, g))"

text \<open>One hop of the copy that travels up (\<open>True\<close>) or down; without a copy nothing happens.\<close>

definition ring_move :: "nat option \<Rightarrow> env \<times> bool \<Rightarrow> ring \<Rightarrow> ring option" where
  "ring_move brk x r =
     (let k = length (rg_nodes r) in
      case (if snd x then rg_up r else rg_down r) of
        None \<Rightarrow> Some r
      | Some (i, f) \<Rightarrow>
        let n = rg_nodes r ! i in
        do { n' \<leftarrow> handleFrame (fst x) (mk_event (if snd x then ''lan_a'' else ''lan_b'') f) n;
             let r = r\<lparr>rg_nodes := (rg_nodes r)[i := n']\<rparr>;
             Some (if snd x then r\<lparr>rg_up := on_link brk (Suc i mod k) (Suc i mod k) (new_out PLanB n n')\<rparr>
                   else r\<lparr>rg_down := on_link brk i ((i + k - 1) mod k) (new_out PLanA n n')\<rparr>) })"

text \<open>
  The nodes during a run. \<open>a\<close> counts the nodes the upward copy has passed, \<open>b\<close> is the lowest node
  the downward copy has passed (\<open>k\<close>, the originator, before its first hop). Nodes below \<open>a\<close> and from
  \<open>b\<close> on know the pair and have delivered the frame, the others have not.
\<close>

definition ring_nodes :: "time \<Rightarrow> time \<Rightarrow> string \<Rightarrow> int \<Rightarrow> bytes \<Rightarrow> node list \<Rightarrow> nat \<Rightarrow> nat \<Rightarrow> nat \<Rightarrow> node list \<Rightarrow> bool" where
  "ring_nodes T0 T1 m s orig ns k a b nodes \<longleftrightarrow> length nodes = Suc k \<and> length ns = Suc k \<and> a \<le> k \<and> b \<le> k
     \<and> (\<forall>i \<le> k. (if i < a \<or> b \<le> i then ring_done T0 T1 m s (nodes ! i) else ring_fresh T0 T1 m s orig (nodes ! i))
         \<and> sent PInterlink (nodes ! i) =
           sent PInterlink (ns ! i) @ (if i < k \<and> (i < a \<or> b \<le> i) then [orig] else []))"

text \<open>The run after \<open>c\<close> hops up and \<open>d\<close> hops down.\<close>

definition ring_inv :: "nat option \<Rightarrow> time \<Rightarrow> time \<Rightarrow> string \<Rightarrow> int \<Rightarrow> bytes \<Rightarrow> node list \<Rightarrow> nat \<Rightarrow> nat \<Rightarrow> nat \<Rightarrow> ring \<Rightarrow> bool" where
  "ring_inv brk T0 T1 m s orig ns k c d r \<longleftrightarrow> (\<exists>a b. ring_nodes T0 T1 m s orig ns k a b (rg_nodes r)
     \<and> (case rg_up r of None \<Rightarrow> b \<le> a \<or> brk = Some a | Some (i, f) \<Rightarrow> i = a \<and> a = c \<and> carries f m s orig)
     \<and> (case rg_down r of None \<Rightarrow> b \<le> a \<or> brk = Some b
        | Some (j, f) \<Rightarrow> carries f m s orig \<and> b + d = k \<and> (if b = 0 then j = k else Suc j = b)))"

lemma ring_nodes_done:
  assumes "ring_nodes T0 T1 m s orig ns k a b nodes" and "i \<le> k" and "i < a \<or> b \<le> i"
    and "ring_done T0 T1 m s n'" and "sent PInterlink n' = sent PInterlink (nodes ! i)"
  shows "ring_nodes T0 T1 m s orig ns k a b (nodes[i := n'])"
  using assms unfolding ring_nodes_def by (auto simp: nth_list_update)

lemma ring_nodes_fresh:
  assumes "ring_nodes T0 T1 m s orig ns k a b nodes" and "i < k" and "\<not> (i < a \<or> b \<le> i)"
    and "ring_done T0 T1 m s n'" and "sent PInterlink n' = sent PInterlink (nodes ! i) @ [orig]"
    and "\<And>j. j < a' \<or> b' \<le> j \<longleftrightarrow> j < a \<or> b \<le> j \<or> j = i" and "a' \<le> k" and "b' \<le> k"
  shows "ring_nodes T0 T1 m s orig ns k a' b' (nodes[i := n'])"
  unfolding ring_nodes_def assms(6) using assms(1-5,7,8)
  by (auto simp: ring_nodes_def nth_list_update)

lemma new_out_append: "sent p n' = sent p n @ fs \<Longrightarrow> new_out p n n' = fs"
  by (simp add: new_out_def)

text \<open>A hop onto a node that knows the pair, and onto one that does not, in either direction.\<close>

lemma hop_done:
  assumes "ring_nodes T0 T1 m s orig ns k a b (rg_nodes r)" and "i \<le> k" and "i < a \<or> b \<le> i"
    and "(if up then rg_up r else rg_down r) = Some (i, f)" and "carries f m s orig" and "ring_time T0 T1 e"
  shows "\<exists>nodes. ring_nodes T0 T1 m s orig ns k a b nodes \<and> ring_move brk (e, up) r =
    Some (if up then r\<lparr>rg_nodes := nodes, rg_up := None\<rparr> else r\<lparr>rg_nodes := nodes, rg_down := None\<rparr>)"
proof -
  let ?n = "rg_nodes r ! i" and ?ifc = "if up then ''lan_a'' else ''lan_b''"
  have "ring_done T0 T1 m s ?n" using assms(1-3) by (auto simp: ring_nodes_def)
  moreover have "is_lan ?ifc" by (simp add: is_lan_def)
  ultimately obtain n' where n': "handleFrame e (mk_event ?ifc f) ?n = Some n'" "ring_done T0 T1 m s n'"
    "\<forall>p. sent p n' = sent p ?n"
    using ring_done_step assms(5,6) by blast
  then have "new_out p ?n n' = []" for p by (simp add: new_out_def)
  then have "ring_move brk (e, up) r = Some (if up then r\<lparr>rg_nodes := (rg_nodes r)[i := n'], rg_up := None\<rparr>
      else r\<lparr>rg_nodes := (rg_nodes r)[i := n'], rg_down := None\<rparr>)"
    using assms(4) n'(1) by (cases up) (simp_all add: ring_move_def)
  with ring_nodes_done[OF assms(1-3) n'(2)] n'(3) show ?thesis by auto
qed

lemma hop_fresh:
  assumes "ring_nodes T0 T1 m s orig ns k a b (rg_nodes r)" and "i < k" and "\<not> (i < a \<or> b \<le> i)"
    and "(if up then rg_up r else rg_down r) = Some (i, f)" and "carries f m s orig" and "ring_time T0 T1 e"
    and "orig ! 0 AND 1 = 1" and "\<And>j. j < a' \<or> b' \<le> j \<longleftrightarrow> j < a \<or> b \<le> j \<or> j = i" and "a' \<le> k" and "b' \<le> k"
  shows "\<exists>nodes g. ring_nodes T0 T1 m s orig ns k a' b' nodes \<and> carries g m s orig \<and> ring_move brk (e, up) r =
    Some (if up then r\<lparr>rg_nodes := nodes, rg_up := on_link brk (Suc i mod Suc k) (Suc i mod Suc k) [g]\<rparr>
          else r\<lparr>rg_nodes := nodes, rg_down := on_link brk i ((i + k) mod Suc k) [g]\<rparr>)"
proof -
  let ?n = "rg_nodes r ! i" and ?ifc = "if up then ''lan_a'' else ''lan_b''"
  have "ring_fresh T0 T1 m s orig ?n" using assms(1-3) by (auto simp: ring_nodes_def)
  moreover have "is_lan ?ifc" by (simp add: is_lan_def)
  ultimately obtain n' g where n': "handleFrame e (mk_event ?ifc f) ?n = Some n'" "ring_done T0 T1 m s n'"
    "carries g m s orig"
    "\<forall>p. sent p n' = sent p ?n @ (if p = PInterlink then [orig] else if p = other_port ?ifc then [g] else [])"
    using ring_fresh_step assms(5-7) by blast
  have "new_out (if up then PLanB else PLanA) ?n n' = [g]"
    using n'(4) by (intro new_out_append) (simp add: other_port_def)
  moreover have "length (rg_nodes r) = Suc k" using assms(1) by (simp add: ring_nodes_def)
  ultimately have "ring_move brk (e, up) r =
      Some (if up then r\<lparr>rg_nodes := (rg_nodes r)[i := n'], rg_up := on_link brk (Suc i mod Suc k) (Suc i mod Suc k) [g]\<rparr>
            else r\<lparr>rg_nodes := (rg_nodes r)[i := n'], rg_down := on_link brk i ((i + k) mod Suc k) [g]\<rparr>)"
    using assms(4) n'(1) by (cases up) (simp_all add: ring_move_def)
  with ring_nodes_fresh[OF assms(1-3) n'(2) _ assms(8-10)] n'(3,4) show ?thesis by auto
qed

lemma ring_move_up:
  assumes "ring_inv brk T0 T1 m s orig ns k c d r" and "ring_time T0 T1 e" and "orig ! 0 AND 1 = 1"
  shows "\<exists>r'. ring_move brk (e, True) r = Some r' \<and> ring_inv brk T0 T1 m s orig ns k (Suc c) d r'"
proof -
  from assms(1) obtain a b where nodes: "ring_nodes T0 T1 m s orig ns k a b (rg_nodes r)"
    and up: "case rg_up r of None \<Rightarrow> b \<le> a \<or> brk = Some a | Some (i, f) \<Rightarrow> i = a \<and> a = c \<and> carries f m s orig"
    and down: "case rg_down r of None \<Rightarrow> b \<le> a \<or> brk = Some b
      | Some (j, f) \<Rightarrow> carries f m s orig \<and> b + d = k \<and> (if b = 0 then j = k else Suc j = b)"
    unfolding ring_inv_def by blast
  have k: "a \<le> k" "b \<le> k" using nodes by (simp_all add: ring_nodes_def)
  show ?thesis
  proof (cases "rg_up r")
    case None
    with assms(1) show ?thesis by (auto simp: ring_move_def ring_inv_def)
  next
    case (Some x)
    then obtain f where x: "(if True then rg_up r else rg_down r) = Some (a, f)" "a = c" "carries f m s orig"
      using up by (cases x) auto
    show ?thesis
    proof (cases "b \<le> a")
      case True
      then obtain nodes' where n: "ring_nodes T0 T1 m s orig ns k a b nodes'"
        "ring_move brk (e, True) r = Some (r\<lparr>rg_nodes := nodes', rg_up := None\<rparr>)"
        using hop_done[OF nodes k(1) _ x(1,3) assms(2)] by auto
      have "ring_inv brk T0 T1 m s orig ns k (Suc c) d (r\<lparr>rg_nodes := nodes', rg_up := None\<rparr>)"
        unfolding ring_inv_def by (rule exI[of _ a], rule exI[of _ b]) (use n(1) True down in simp)
      with n(2) show ?thesis by blast
    next
      case False
      then have lt: "a < k" using k by simp
      have "j < Suc a \<or> b \<le> j \<longleftrightarrow> j < a \<or> b \<le> j \<or> j = a" for j by auto
      then obtain nodes' g where n: "ring_nodes T0 T1 m s orig ns k (Suc a) b nodes'" "carries g m s orig"
        "ring_move brk (e, True) r = Some (r\<lparr>rg_nodes := nodes', rg_up := on_link brk (Suc a) (Suc a) [g]\<rparr>)"
        using hop_fresh[OF nodes lt _ x(1,3) assms(2,3), of "Suc a" b brk] False lt k by auto
      have "ring_inv brk T0 T1 m s orig ns k (Suc c) d (r\<lparr>rg_nodes := nodes', rg_up := on_link brk (Suc a) (Suc a) [g]\<rparr>)"
        unfolding ring_inv_def
        by (rule exI[of _ "Suc a"], rule exI[of _ b]) (use n(1,2) x(2) down in \<open>auto split: option.splits\<close>)
      with n(3) show ?thesis by blast
    qed
  qed
qed

lemma ring_move_down:
  assumes "ring_inv brk T0 T1 m s orig ns k c d r" and "ring_time T0 T1 e" and "orig ! 0 AND 1 = 1"
  shows "\<exists>r'. ring_move brk (e, False) r = Some r' \<and> ring_inv brk T0 T1 m s orig ns k c (Suc d) r'"
proof -
  from assms(1) obtain a b where nodes: "ring_nodes T0 T1 m s orig ns k a b (rg_nodes r)"
    and up: "case rg_up r of None \<Rightarrow> b \<le> a \<or> brk = Some a | Some (i, f) \<Rightarrow> i = a \<and> a = c \<and> carries f m s orig"
    and down: "case rg_down r of None \<Rightarrow> b \<le> a \<or> brk = Some b
      | Some (j, f) \<Rightarrow> carries f m s orig \<and> b + d = k \<and> (if b = 0 then j = k else Suc j = b)"
    unfolding ring_inv_def by blast
  have k: "a \<le> k" "b \<le> k" using nodes by (simp_all add: ring_nodes_def)
  show ?thesis
  proof (cases "rg_down r")
    case None
    with assms(1) show ?thesis by (auto simp: ring_move_def ring_inv_def)
  next
    case (Some x)
    then obtain j f where x: "(if False then rg_up r else rg_down r) = Some (j, f)" "carries f m s orig"
      "b + d = k" "if b = 0 then j = k else Suc j = b"
      using down by (cases x) auto
    have j: "j \<le> k" using x(4) k by (auto split: if_splits)
    show ?thesis
    proof (cases "b \<le> a")
      case True
      then have "j < a \<or> b \<le> j" using x(4) by (auto split: if_splits)
      then obtain nodes' where n: "ring_nodes T0 T1 m s orig ns k a b nodes'"
        "ring_move brk (e, False) r = Some (r\<lparr>rg_nodes := nodes', rg_down := None\<rparr>)"
        using hop_done[OF nodes j _ x(1,2) assms(2)] by auto
      have "ring_inv brk T0 T1 m s orig ns k c (Suc d) (r\<lparr>rg_nodes := nodes', rg_down := None\<rparr>)"
        unfolding ring_inv_def by (rule exI[of _ a], rule exI[of _ b]) (use n(1) True up in simp)
      with n(2) show ?thesis by blast
    next
      case False
      then have jb: "Suc j = b" "j < k" using x(4) k by (auto split: if_splits)
      have "i < a \<or> j \<le> i \<longleftrightarrow> i < a \<or> b \<le> i \<or> i = j" for i using jb by auto
      then obtain nodes' g where n: "ring_nodes T0 T1 m s orig ns k a j nodes'" "carries g m s orig"
        "ring_move brk (e, False) r = Some (r\<lparr>rg_nodes := nodes', rg_down := on_link brk j ((j + k) mod Suc k) [g]\<rparr>)"
        using hop_fresh[OF nodes jb(2) _ x(1,2) assms(2,3), of a j brk] False jb k by auto
      have "if j = 0 then (j + k) mod Suc k = k else Suc ((j + k) mod Suc k) = j"
        using jb(2) by (cases j) (simp_all add: mod_if)
      then have "ring_inv brk T0 T1 m s orig ns k c (Suc d) (r\<lparr>rg_nodes := nodes', rg_down := on_link brk j ((j + k) mod Suc k) [g]\<rparr>)"
        unfolding ring_inv_def
        by (intro exI[of _ a] exI[of _ j]) (use n(1,2) x(3) jb up False in \<open>auto split: option.splits\<close>)
      with n(3) show ?thesis by blast
    qed
  qed
qed

lemma ring_run:
  assumes "ring_inv brk T0 T1 m s orig ns k c d r" and "\<forall>x \<in> set sched. ring_time T0 T1 (fst x)" and "orig ! 0 AND 1 = 1"
  shows "\<exists>r'. run (ring_move brk) sched r = Some r' \<and> ring_inv brk T0 T1 m s orig ns k
    (c + length (filter snd sched)) (d + length (filter (Not \<circ> snd) sched)) r'"
  using assms(1,2)
proof (induction sched arbitrary: c d r)
  case Nil
  then show ?case by simp
next
  case (Cons x sched)
  obtain e up where x: "x = (e, up)" by (cases x)
  have e: "ring_time T0 T1 e" using Cons.prems(2) x by simp
  obtain r1 where r1: "ring_move brk x r = Some r1"
    "ring_inv brk T0 T1 m s orig ns k (if up then Suc c else c) (if up then d else Suc d) r1"
    using ring_move_up[OF Cons.prems(1) e assms(3)] ring_move_down[OF Cons.prems(1) e assms(3)] x by (cases up) auto
  then show ?case using Cons.IH[OF r1(2)] Cons.prems(2) x by (cases up) simp_all
qed

text \<open>The node that injects the frame knows it from then on.\<close>

definition ring_origin :: "time \<Rightarrow> time \<Rightarrow> node \<Rightarrow> bool" where
  "ring_origin T0 T1 n \<longleftrightarrow> role_of (n_Config n) = RoleHSRSan \<and> hsr_bound n \<and> table_ok (n_dupTable n)
     \<and> int (length (t_entries (n_dupTable n))) < t_maxSize (n_dupTable n)
     \<and> ms_ok (entryForgetMs (n_Config n)) \<and> T1 - T0 \<le> ms_dur (entryForgetMs (n_Config n))"

lemma inject_done:
  assumes o: "ring_origin T0 T1 n" and e: "ring_time T0 T1 e"
    and f: "eth_frame f" "length f < 4096"
  defines "m \<equiv> GetSrcMAC f"
  defines "q \<equiv> sm_peek (n_seqMgr n) m"
  shows "\<exists>n' body. handleFrame e (mk_event ''interlink'' f) n = Some n' \<and> ring_done T0 T1 m (uint q) n'
    \<and> carries body m (uint q) f \<and> (\<forall>p. sent p n' = sent p n @ (if p = PInterlink then [] else [body]))"
proof -
  have role: "role_of (n_Config n) = RoleHSRSan" and b: "hsr_bound n" using o by (simp_all add: ring_origin_def)
  have l: "14 \<le> length f" using f(1) by (simp add: eth_frame_def)
  obtain body where body: "hsrBody f (couplingPath (n_Config n)) q = Some body" "StripHSR body = Inr f"
    "\<exists>encap payload. DecodeHSR body = Inr (couplingPath (n_Config n) AND 0x0F, uint q, encap, payload)"
    "take 12 body = take 12 f" "length body = length f + 6"
    using hsrBody_round_trip[OF f] by metis
  have c: "carries body m (uint q) f"
    using body l GetSrcMAC_take[of body] GetSrcMAC_take[of f] by (auto simp: carries_def m_def)
  have "body \<noteq> []" using body(5) by auto
  moreover have "bound PLanA n" "bound PLanB n" using b by (simp_all add: hsr_bound_def)
  moreover have "inject_seq n f = Some q" using role by (simp add: inject_seq_def q_def m_def)
  ultimately obtain n' where n': "handleHSRInterlinkFrame e (mk_event ''interlink'' f) n = Some n'"
    "n_Config n' = n_Config n" "\<forall>p. bound p n' = bound p n" "n_dupTable n' = n_dupTable (dup_Insert e m (uint q) 0 n)"
    "\<forall>p. sent p n' = sent p n @ (if p = PInterlink then [] else wrote e p body)"
    using handleHSRInterlink_injects[of n "mk_event ''interlink'' f" q body e] role body l by (auto simp: m_def)
  have "handleFrame e (mk_event ''interlink'' f) n = Some n'"
    using n'(1) role l by (simp add: handleFrame_def is_supervision_def role_predicates)
  moreover have "room_for (n_dupTable n) (env_now e) m (uint q) 0"
    using o newer_le[of "t_entries (n_dupTable n)" "key m (uint q)" "env_now e"] by (simp add: room_for_def ring_origin_def)
  then have "held (n_dupTable n') (env_now e) (ms_dur (entryForgetMs (n_Config n))) m (uint q) 0"
    using e o unfolding n'(4) dup_Insert_def by (simp add: room_for_Insert ring_time_def ring_origin_def)
  then have "\<forall>now. T0 \<le> now \<and> now \<le> T1 \<longrightarrow> Find now (n_dupTable n') m (uint q)"
    using e o held_Find by (fastforce simp: ring_time_def ring_origin_def)
  moreover have "hsr_bound n'" using b n'(2,3) unfolding hsr_bound_def by metis
  ultimately show ?thesis
    using n'(2,5) role c e by (intro exI[of _ n'] exI[of _ body]) (auto simp: ring_done_def wrote_def ring_time_def)
qed

section \<open>Properties\<close>

text \<open>
  C3. Exactly-once delivery around an HSR ring, intact or with any one link broken: a node injects a
  multicast frame of its SAN; the two copies travel around the ring in opposite directions, their
  hops interleaved in any order; what is sent over the broken link is lost. Once each copy has had as many hops as the ring has nodes, both are off the ring, every other node has
  handed its SAN exactly one copy of the frame, byte for byte, and the injecting node none.
\<close>

theorem hsr_ring_exactly_once:
  assumes "ring_origin T0 T1 n0" and "ring_time T0 T1 e0" and "eth_frame f" and "length f < 4096"
    and "f ! 0 AND 1 = 1" and "ns \<noteq> []"
    and "\<forall>n \<in> set ns. ring_fresh T0 T1 (GetSrcMAC f) (uint (sm_peek (n_seqMgr n0) (GetSrcMAC f))) f n"
    and "\<forall>x \<in> set sched. ring_time T0 T1 (fst x)"
    and "length ns < length (filter snd sched)" and "length ns < length (filter (Not \<circ> snd) sched)"
  shows "\<exists>n0' body r'. handleFrame e0 (mk_event ''interlink'' f) n0 = Some n0'
    \<and> sent PLanA n0' = sent PLanA n0 @ [body] \<and> sent PLanB n0' = sent PLanB n0 @ [body]
    \<and> run (ring_move brk) sched \<lparr>rg_nodes = ns @ [n0'], rg_up = on_link brk 0 0 [body], rg_down = on_link brk (length ns) (length ns - 1) [body]\<rparr> = Some r'
    \<and> rg_up r' = None \<and> rg_down r' = None
    \<and> (\<forall>i < length ns. sent PInterlink (rg_nodes r' ! i) = sent PInterlink (ns ! i) @ [f])
    \<and> sent PInterlink (rg_nodes r' ! length ns) = sent PInterlink n0"
proof -
  let ?m = "GetSrcMAC f" and ?s = "uint (sm_peek (n_seqMgr n0) (GetSrcMAC f))" and ?k = "length ns"
  obtain n0' body where n0': "handleFrame e0 (mk_event ''interlink'' f) n0 = Some n0'"
    "ring_done T0 T1 ?m ?s n0'" "carries body ?m ?s f"
    "\<forall>p. sent p n0' = sent p n0 @ (if p = PInterlink then [] else [body])"
    using inject_done[OF assms(1-4)] by blast
  let ?r = "\<lparr>rg_nodes = ns @ [n0'], rg_up = on_link brk 0 0 [body], rg_down = on_link brk ?k (?k - 1) [body]\<rparr>"
  have "ring_nodes T0 T1 ?m ?s f (ns @ [n0']) ?k 0 ?k (ns @ [n0'])"
    using assms(7) n0'(2) by (auto simp: ring_nodes_def nth_append)
  then have "ring_inv brk T0 T1 ?m ?s f (ns @ [n0']) ?k 0 0 ?r"
    unfolding ring_inv_def by (intro exI[of _ 0] exI[of _ ?k]) (use n0'(3) assms(6) in simp)
  then obtain r' where r': "run (ring_move brk) sched ?r = Some r'"
    "ring_inv brk T0 T1 ?m ?s f (ns @ [n0']) ?k (length (filter snd sched)) (length (filter (Not \<circ> snd) sched)) r'"
    using ring_run[OF _ assms(8,5)] by fastforce
  then obtain a b where nodes: "ring_nodes T0 T1 ?m ?s f (ns @ [n0']) ?k a b (rg_nodes r')"
    and up: "case rg_up r' of None \<Rightarrow> b \<le> a \<or> brk = Some a | Some (i, g) \<Rightarrow> i = a \<and> a = length (filter snd sched) \<and> carries g ?m ?s f"
    and down: "case rg_down r' of None \<Rightarrow> b \<le> a \<or> brk = Some b
      | Some (j, g) \<Rightarrow> carries g ?m ?s f \<and> b + length (filter (Not \<circ> snd) sched) = ?k \<and> (if b = 0 then j = ?k else Suc j = b)"
    unfolding ring_inv_def by blast
  have "a \<le> ?k" using nodes by (simp add: ring_nodes_def)
  then have gone: "rg_up r' = None" "rg_down r' = None" "b \<le> a"
    using up down assms(9,10) by (auto split: option.splits)
  then have "\<forall>i < ?k. sent PInterlink (rg_nodes r' ! i) = sent PInterlink (ns ! i) @ [f]"
    "sent PInterlink (rg_nodes r' ! ?k) = sent PInterlink n0"
    using nodes n0'(4) by (auto simp: ring_nodes_def nth_append)
  with n0' r'(1) gone show ?thesis by auto
qed

lemma hsr_ring_exactly_once_witness:
  "\<exists>n0' body r'. handleFrame (ex_env 0) (mk_event ''interlink'' ex_frame) (ex_node ''hsr-san'' 1) = Some n0'
    \<and> run (ring_move (Some 1)) (map (\<lambda>b. (ex_env 9, b)) [True, False, False, True, False, True])
        \<lparr>rg_nodes = [ex_node ''hsr-san'' 2, ex_node ''hsr-san'' 3, n0'], rg_up = Some (0, body), rg_down = Some (1, body)\<rparr> = Some r'
    \<and> rg_up r' = None \<and> rg_down r' = None \<and> sent PInterlink (rg_nodes r' ! 1) = [ex_frame]"
proof -
  let ?ns = "[ex_node ''hsr-san'' 2, ex_node ''hsr-san'' 3]"
  let ?sched = "map (\<lambda>b. (ex_env 9, b)) [True, False, False, True, False, True]"
  have f: "eth_frame ex_frame" "length ex_frame < 4096" "ex_frame ! 0 AND 1 = 1"
    "\<not> own_frame (ex_node ''hsr-san'' 2) ex_frame" "\<not> own_frame (ex_node ''hsr-san'' 3) ex_frame"
    by code_simp+
  have b: "hsr_bound (ex_node ''hsr-san'' k)" for k by (simp add: hsr_bound_def)
  have t: "table_ok (NewTable 256)" "t_entries (NewTable 256) = []" "t_maxSize (NewTable 256) = 256"
    by (simp_all add: table_ok_new) (simp_all add: NewTable_def)
  have "ring_origin 0 10 (ex_node ''hsr-san'' 1)" using b t by (simp add: ring_origin_def)
  moreover have "\<forall>n \<in> set ?ns. ring_fresh 0 10 (GetSrcMAC ex_frame)
      (uint (sm_peek (n_seqMgr (ex_node ''hsr-san'' 1)) (GetSrcMAC ex_frame))) ex_frame n"
    using b t f by (simp add: ring_fresh_def)
  moreover have "ring_time 0 10 (ex_env 0)" "\<forall>x \<in> set ?sched. ring_time 0 10 (fst x)"
    by (simp_all add: ring_time_def)
  ultimately show ?thesis
    using hsr_ring_exactly_once[of 0 10 "ex_node ''hsr-san'' 1" "ex_env 0" ex_frame ?ns ?sched "Some 1"] f(1-3)
    by (fastforce simp: nth_Cons')
qed

end
