(* ===== verification/HSRCoupling.thy ===== *)
theory HSRCoupling
  imports HSRRing
begin

text \<open>
  HSR-PRP coupling (role hsr-prp): frames of a PRP LAN injected into the ring with the PathId of the
  coupled network, and ring frames delivered to the PRP LAN.
\<close>

unbundle bit_operations_syntax

lemma eth_frame_append: "eth_frame f \<Longrightarrow> eth_frame (f @ g)"
  by (auto simp: eth_frame_def IsVLANFrame_append get16_append1)

lemma eth_frame_EncodeRCT: "eth_frame f \<Longrightarrow> eth_frame (EncodeRCT f q l)"
  using EncodeRCT_extends[of f q l] eth_frame_append by auto

text \<open>A coupling RedBox: its role, its ports, and a NetId that fits the three bits of the PathId.\<close>

definition coupler :: "node \<Rightarrow> bool" where
  "coupler n \<longleftrightarrow> role_of (n_Config n) = RoleHSRPRP \<and> hsr_bound n \<and> 1 \<le> cfg_NetID (n_Config n) \<and> cfg_NetID (n_Config n) \<le> 7"

lemma coupler_NetID: "coupler n \<Longrightarrow> NetID (n_Config n) = cfg_NetID (n_Config n)"
  by (simp add: coupler_def NetID_def role_predicates)

lemma coupler_path:
  assumes "coupler n"
  shows "couplingPath (n_Config n) AND 0x0F = 2 * cfg_NetID (n_Config n) + LanID (n_Config n)"
    and "(couplingPath (n_Config n) AND 0x0F) div 2 = cfg_NetID (n_Config n)"
proof -
  have "couplingPath (n_Config n) = 2 * cfg_NetID (n_Config n) + LanID (n_Config n)"
    using assms by (intro couplingPath_eq) (simp_all add: coupler_def)
  moreover have "2 * cfg_NetID (n_Config n) + LanID (n_Config n) < 16" "0 \<le> 2 * cfg_NetID (n_Config n) + LanID (n_Config n)"
    using assms LanID_01[of "n_Config n"] by (auto simp: coupler_def)
  ultimately show "couplingPath (n_Config n) AND 0x0F = 2 * cfg_NetID (n_Config n) + LanID (n_Config n)"
    by (simp add: and_0x0F)
  then show "(couplingPath (n_Config n) AND 0x0F) div 2 = cfg_NetID (n_Config n)"
    using LanID_01[of "n_Config n"] by auto
qed

text \<open>
  What a coupler does with a frame \<open>p\<close> from its PRP LAN: both ring ports get \<open>p\<close>, trailer and all,
  under an HSR tag that carries the trailer's sequence number and the coupler's PathId.
\<close>

lemma coupler_injects:
  assumes "coupler n" and "eth_frame p" and "length p < 4096" and "DecodeRCT p = Inr (l, s, payload)"
    and "\<forall>q f. env_wr e q f"
  obtains n' body encap inner where "handleFrame e (mk_event ''interlink'' p) n = Some n'"
    and "\<forall>q. sent q n' = sent q n @ (if q = PInterlink then [] else [body])"
    and "carries body (GetSrcMAC p) s p"
    and "DecodeHSR body = Inr (2 * cfg_NetID (n_Config n) + LanID (n_Config n), s, encap, inner)"
proof -
  have role: "role_of (n_Config n) = RoleHSRPRP" and b: "hsr_bound n" using assms(1) by (simp_all add: coupler_def)
  have l: "14 \<le> length p" using assms(2) by (simp add: eth_frame_def)
  define q where "q = (word_of_int s :: u16)"
  have "0 \<le> s" "s < 65536" using assms(4) by (auto elim: DecodeRCT_InrE)
  then have q: "uint q = s" by (simp add: q_def take_bit_int_eq_self unsigned_of_int)
  obtain body where body: "hsrBody p (couplingPath (n_Config n)) q = Some body" "StripHSR body = Inr p"
    "\<exists>encap inner. DecodeHSR body = Inr (couplingPath (n_Config n) AND 0x0F, uint q, encap, inner)"
    "take 12 body = take 12 p" "length body = length p + 6"
    using hsrBody_round_trip[OF assms(2,3)] by metis
  have c: "carries body (GetSrcMAC p) s p"
    using body l q GetSrcMAC_take[of body] GetSrcMAC_take[of p] by (auto simp: carries_def)
  have "body \<noteq> []" using body(5) by auto
  moreover have "bound PLanA n" "bound PLanB n" using b by (simp_all add: hsr_bound_def)
  moreover have "inject_seq n p = Some q" using role assms(4) by (simp add: inject_seq_def q_def)
  ultimately obtain n' where n': "handleHSRInterlinkFrame e (mk_event ''interlink'' p) n = Some n'"
    "\<forall>q. sent q n' = sent q n @ (if q = PInterlink then [] else wrote e q body)"
    using handleHSRInterlink_injects[of n "mk_event ''interlink'' p" q body e] role body(1) l by auto
  have "handleFrame e (mk_event ''interlink'' p) n = Some n'"
    using n'(1) role l by (simp add: handleFrame_def is_supervision_def role_predicates)
  moreover obtain encap inner where "DecodeHSR body = Inr (2 * cfg_NetID (n_Config n) + LanID (n_Config n), s, encap, inner)"
    using body(3) coupler_path(1)[OF assms(1)] q by auto
  ultimately show thesis
    using that[of n' body] n'(2) c assms(5) by (auto simp: wrote_def)
qed

section \<open>Relaying around the ring\<close>

text \<open>The lane rewrites of the nodes a frame passes.\<close>

fun relay :: "bool list \<Rightarrow> bytes \<Rightarrow> bytes option" where
  "relay [] f = Some f"
| "relay (laneA # ls) f = (case RewriteHSRPathLane f laneA of Inl _ \<Rightarrow> None | Inr g \<Rightarrow> relay ls g)"

lemma relay_DecodeHSR:
  assumes "DecodeHSR f = Inr (path, s, encap, inner)"
  shows "\<exists>g path'. relay ls f = Some g \<and> DecodeHSR g = Inr (path', s, encap, inner) \<and> path' div 2 = path div 2
    \<and> StripHSR g = StripHSR f \<and> take 12 g = take 12 f \<and> length g = length f"
  using assms
proof (induction ls arbitrary: f path)
  case Nil
  then show ?case by auto
next
  case (Cons laneA ls)
  obtain g where g: "RewriteHSRPathLane f laneA = Inr g"
    "DecodeHSR g = Inr (2 * (path div 2) + (if laneA then 0 else 1), s, encap, inner)"
    "StripHSR g = StripHSR f" "length g = length f" "take 12 g = take 12 f"
    using DecodeHSR_lane[OF Cons.prems] .
  have "(2 * (path div 2) + (if laneA then 0 else 1)) div 2 = path div 2" by simp
  then show ?case using Cons.IH[OF g(2)] g by simp
qed

section \<open>Properties\<close>

lemma no_reinjection:
  assumes "coupler x" and "coupler y" and "cfg_NetID (n_Config x) = cfg_NetID (n_Config y)"
    and "eth_frame p" and "length p < 4096" and "DecodeRCT p = Inr (l, s, payload)"
    and "\<forall>q f. env_wr e q f" and "is_lan ifc"
  shows "\<exists>x' y' body g. handleFrame e (mk_event ''interlink'' p) x = Some x'
    \<and> sent PLanA x' = sent PLanA x @ [body] \<and> sent PLanB x' = sent PLanB x @ [body]
    \<and> relay ls body = Some g \<and> handleFrame e' (mk_event ifc g) y = Some y'
    \<and> sent PInterlink y' = sent PInterlink y"
proof -
  obtain x' body encap inner where x': "handleFrame e (mk_event ''interlink'' p) x = Some x'"
    "\<forall>q. sent q x' = sent q x @ (if q = PInterlink then [] else [body])" "carries body (GetSrcMAC p) s p"
    "DecodeHSR body = Inr (2 * cfg_NetID (n_Config x) + LanID (n_Config x), s, encap, inner)"
    using coupler_injects[OF assms(1,4-7)] .
  obtain g path where g: "relay ls body = Some g" "DecodeHSR g = Inr (path, s, encap, inner)"
    "path div 2 = (2 * cfg_NetID (n_Config x) + LanID (n_Config x)) div 2" "StripHSR g = StripHSR body"
    "take 12 g = take 12 body" "length g = length body"
    using relay_DecodeHSR[OF x'(4)] by blast
  have path: "path div 2 = NetID (n_Config y)"
    using g(3) LanID_01[of "n_Config x"] assms(3) coupler_NetID[OF assms(2)] by auto
  have "GetSrcMAC g = GetSrcMAC body"
    using GetSrcMAC_take[of g] GetSrcMAC_take[of body] g(5,6) carries_long[OF x'(3)] by simp
  then have c: "carries g (GetSrcMAC p) s p" using x'(3) g by (auto simp: carries_def)
  have y: "hsr_bound y" "role_of (n_Config y) = RoleHSRPRP" using assms(2) by (simp_all add: coupler_def)
  have none: "ring_emit PInterlink (quiet y) (e', mk_event ifc g) = []"
    using is_lan_interlink[OF assms(8)] y(2) g(2) path c
    by (simp add: ring_emit_def hsr_emit_def interlink_emit_def hsr_upd_def node_simps carries_def)
  obtain y' where "handleFrame e' (mk_event ifc g) y = Some y'" "sent PInterlink y' = sent PInterlink y"
    using ring_step[OF carries_ready[OF c y(1) assms(8)], of e'] none
    by (cases "hsr_pair (quiet y) (e', mk_event ifc g)") (auto split: if_splits)
  with x' g show ?thesis by auto
qed

text \<open>
  No reinjection across a coupling: whatever a coupling RedBox injects from its PRP LAN, and
  however many ring nodes rewrite the lane bit on the way, no RedBox coupled to the same network
  (the other LAN's, or the same one after a lap) puts it on its PRP LAN again.
\<close>

theorem coupling_no_reinjection:
  assumes "coupler x" and "coupler y" and "cfg_NetID (n_Config x) = cfg_NetID (n_Config y)"
    and "eth_frame p" and "length p < 4096" and "DecodeRCT p = Inr (l, s, payload)"
    and "\<forall>q f. env_wr e q f" and "is_lan ifc"
  shows "\<exists>x' y' body g. handleFrame e (mk_event ''interlink'' p) x = Some x'
    \<and> sent PLanA x' = sent PLanA x @ [body] \<and> sent PLanB x' = sent PLanB x @ [body]
    \<and> relay ls body = Some g \<and> handleFrame e' (mk_event ifc g) y = Some y'
    \<and> sent PInterlink y' = sent PInterlink y"
  by (rule no_reinjection[OF assms])

lemma ex_coupler: "coupler (ex_node ''hsr-prp'' k)"
  by (simp add: coupler_def hsr_bound_def)

lemma ex_prp_frame:
  "eth_frame ex_frame" "eth_frame (EncodeRCT ex_frame 5 1)" "length (EncodeRCT ex_frame 5 1) < 4096"
  "DecodeRCT (EncodeRCT ex_frame 5 1) = Inr (1, 5, rct_padded ex_frame)"
  by code_simp+

lemma coupling_no_reinjection_witness:
  "\<exists>x' y' body g. handleFrame (ex_env 0) (mk_event ''interlink'' (EncodeRCT ex_frame 5 1)) (ex_node ''hsr-prp'' 1) = Some x'
    \<and> sent PLanA x' = [body] \<and> relay [True, False, True] body = Some g
    \<and> handleFrame (ex_env 3) (mk_event ''lan_b'' g) (ex_node ''hsr-prp'' 2) = Some y' \<and> sent PInterlink y' = []"
  using coupling_no_reinjection[OF ex_coupler[of 1] ex_coupler[of 2] _ ex_prp_frame(2,3,4), of "ex_env 0" "''lan_b''"
      "[True, False, True]" "ex_env 3"]
  by (auto simp: is_lan_def)





end
