(* ===== verification/NodeLoop.thy ===== *)
theory NodeLoop
  imports Examples
begin

text \<open>
  The life of a node (\<open>internal/prp/prp.go\<close>): \<open>Start\<close>, the read loops, the event loop, the
  clean-up timer and \<open>Stop\<close>, as a step relation, with the invariant every step keeps and the
  condition under which no step panics.
\<close>

unbundle bit_operations_syntax

section \<open>Start and stop\<close>

text \<open>What the operating system answers: a raw socket for an interface, or whether its MTU could be set.\<close>

record os =
  os_socket :: "string \<Rightarrow> PacketPort option"
  os_setMTU :: "string \<Rightarrow> int \<Rightarrow> bool"

datatype start_error =
    BindLanA string
  | SetMTUOn string string
  | BindLanB string
  | BindInterlink string
  | SetMTUInterlink string

definition port_Close :: "PacketPort option \<Rightarrow> PacketPort option" where
  "port_Close p = (case p of None \<Rightarrow> None | Some pp \<Rightarrow> Some (pp\<lparr>pp_open := False\<rparr>))"

definition closePorts :: "node \<Rightarrow> node" where
  "closePorts n = n\<lparr>n_LanA := port_Close (n_LanA n), n_LanB := port_Close (n_LanB n),
     n_Interlink := port_Close (n_Interlink n)\<rparr>"

text \<open>The end of \<open>Start\<close>: arm the timer and start the read loops, whose port names are the result.\<close>

definition start_loops :: "node \<Rightarrow> (start_error + string list) \<times> node" where
  "start_loops n =
     (Inr ([''lan_a'', ''lan_b''] @ (if n_Interlink n \<noteq> None then [''interlink''] else [])),
      n\<lparr>n_cleanupTimer := True\<rparr>)"

definition Start :: "os \<Rightarrow> env \<Rightarrow> node \<Rightarrow> (start_error + string list) \<times> node" where
  "Start os e n =
     (let cfg = n_Config n in
      case os_socket os (LanAInterface cfg) of
        None \<Rightarrow> (Inl (BindLanA (LanAInterface cfg)), n)
      | Some lanA \<Rightarrow>
        let n = n\<lparr>n_LanA := Some lanA\<rparr>;
            n = n\<lparr>n_mac := nodeMAC e n\<rparr> in
        case List.find (\<lambda>(port, name). \<not> os_setMTU os name 1506)
               [(''LAN A'', LanAInterface cfg), (''LAN B'', LanBInterface cfg)] of
          Some (port, name) \<Rightarrow> (Inl (SetMTUOn port name), closePorts n)
        | None \<Rightarrow>
          case os_socket os (LanBInterface cfg) of
            None \<Rightarrow> (Inl (BindLanB (LanBInterface cfg)), closePorts n)
          | Some lanB \<Rightarrow>
            let n = n\<lparr>n_LanB := Some lanB\<rparr> in
            if InterlinkInterface cfg \<noteq> ''''
            then (case os_socket os (InterlinkInterface cfg) of
                    None \<Rightarrow> (Inl (BindInterlink (InterlinkInterface cfg)), closePorts n)
                  | Some interlink \<Rightarrow>
                    let n = n\<lparr>n_Interlink := Some interlink\<rparr> in
                    if \<not> os_setMTU os (InterlinkInterface cfg) 1506
                    then (Inl (SetMTUInterlink (InterlinkInterface cfg)), closePorts n)
                    else start_loops n)
            else start_loops n)"

definition Stop :: "node \<Rightarrow> node" where
  "Stop n =
     (if n_stopped n then n
      else let n = n\<lparr>n_stopped := True\<rparr>;
               n = (if n_cleanupTimer n then n\<lparr>n_cleanupTimer := False\<rparr> else n)
           in closePorts n)"

section \<open>The loops\<close>

definition frameBufferCap :: nat where "frameBufferCap = 10000"
definition readBufLen :: nat where "readBufLen = 2048"

text \<open>
  One iteration of \<open>readLoop\<close>; the first component says whether the loop goes on. \<open>None\<close> is a read
  error; the kernel copies at most the length of the buffer.
\<close>

definition readLoop_body :: "string \<Rightarrow> bytes option \<Rightarrow> node \<Rightarrow> node" where
  "readLoop_body ifaceName res n =
     (case res of
        None \<Rightarrow> n
      | Some pkt \<Rightarrow>
        let frame = take readBufLen pkt;
            ev = mk_event ifaceName frame
        in if length (n_frameBuffer n) < frameBufferCap
           then n\<lparr>n_frameBuffer := n_frameBuffer n @ [ev]\<rparr> else n)"

definition readLoop_iter :: "string \<Rightarrow> bytes option \<Rightarrow> node \<Rightarrow> bool \<times> node" where
  "readLoop_iter ifaceName res n =
     (if n_stopped n then (False, n) else (True, readLoop_body ifaceName res n))"

text \<open>
  One iteration of \<open>processFrames\<close> on a non-empty queue; once the node is stopped, \<open>select\<close> may
  still pick the queue.
\<close>

definition processFrames_iter :: "env \<Rightarrow> node \<Rightarrow> node option" where
  "processFrames_iter e n =
     (case n_frameBuffer n of
        [] \<Rightarrow> Some n
      | ev # rest \<Rightarrow> handleFrame e ev (n\<lparr>n_frameBuffer := rest\<rparr>))"

text \<open>
  The goroutines of a running node, interleaved. The frames \<open>Read\<close> returns satisfy \<open>F\<close>; a step to
  \<^const>\<open>None\<close> is a panic. A reader looks at the stop channel and then blocks in \<open>Read\<close>, so the rest of its
  iteration may run after \<open>Stop\<close>: the step does not ask whether the node is stopped.
\<close>

inductive node_moves :: "(bytes \<Rightarrow> bool) \<Rightarrow> node \<Rightarrow> node option \<Rightarrow> bool" for F where
  read: "ifc \<in> {''lan_a'', ''lan_b'', ''interlink''} \<Longrightarrow> pred_option (\<lambda>pkt. F (take readBufLen pkt)) res
    \<Longrightarrow> node_moves F n (Some (readLoop_body ifc res n))"
| process: "n_frameBuffer n \<noteq> [] \<Longrightarrow> map_range (env_rng e) \<Longrightarrow> node_moves F n (processFrames_iter e n)"
| cleanup: "n_cleanupTimer n \<Longrightarrow> node_moves F n (Some (periodicCleanup now n))"
| supervise: "node_moves F n (SendSupervisionFrame e n)"
| stop: "node_moves F n (Some (Stop n))"

inductive node_reaches :: "(bytes \<Rightarrow> bool) \<Rightarrow> node \<Rightarrow> node option \<Rightarrow> bool" for F n where
  start: "node_reaches F n (Some n)"
| move: "node_reaches F n (Some n1) \<Longrightarrow> node_moves F n1 n2 \<Longrightarrow> node_reaches F n n2"

inductive_cases node_movesE: "node_moves F n x"

section \<open>The invariant\<close>

text \<open>
  Well-formed state: the duplicate table is within its bound, no map has a key twice, the queue is
  within its capacity and holds frames that fit the read buffer and satisfy \<open>F\<close>.
\<close>

definition node_inv :: "(bytes \<Rightarrow> bool) \<Rightarrow> node \<Rightarrow> bool" where
  "node_inv F n \<longleftrightarrow> table_ok (n_dupTable n) \<and> gm_ok (n_dropCounters n) \<and> gm_ok (n_supervisionSeen n)
     \<and> gm_ok (n_supervisionSeqs n) \<and> gm_ok (n_proxyTable n) \<and> gm_ok (n_ringMembers n)
     \<and> gm_ok (sm_seqs (n_seqMgr n)) \<and> length (n_frameBuffer n) \<le> frameBufferCap
     \<and> (\<forall>ev \<in> set (n_frameBuffer n). length (ev_frame ev) \<le> readBufLen \<and> F (ev_frame ev))"

text \<open>The ports the handlers of the role write to are bound.\<close>

definition ports_bound :: "node \<Rightarrow> bool" where
  "ports_bound n \<longleftrightarrow> bound PLanA n \<and> bound PLanB n
     \<and> (role_of (n_Config n) \<in> {RoleHSRSan, RoleHSRPRP} \<longrightarrow> bound PInterlink n)"

lemma node_inv_core: "same_core n n' \<Longrightarrow> node_inv F n' = node_inv F n"
  using quiet_fields[of n] quiet_fields[of n'] unfolding same_core_def node_inv_def by metis

lemma ports_bound_quiet: "quiet n' = quiet n \<Longrightarrow> ports_bound n' = ports_bound n"
  using bound_quiet[of _ n] bound_quiet[of _ n'] quiet_fields(1)[of n] quiet_fields(1)[of n']
  unfolding ports_bound_def by metis

lemma port_Write_core:
  assumes "port_Write e p f n = Some (ok, n')"
  shows "same_core n n'"
proof -
  have "bound p n" "f \<noteq> []" using assms by (auto simp: port_Write_def split: option.splits if_splits)
  then obtain n1 where "port_Write e p f n = Some (env_wr e p f, n1)" "same_core n n1"
    using port_Write_spec by metis
  with assms show ?thesis by simp
qed

lemma write_count_core: "write_count e p nm f n = Some n' \<Longrightarrow> same_core n n'"
  by (auto simp: write_count_def same_core_def node_simps split: bind_splits if_splits dest!: port_Write_core)

lemma write_only_core: "write_only e p f n = Some n' \<Longrightarrow> same_core n n'"
  by (auto simp: write_only_def split: bind_splits dest!: port_Write_core)

text \<open>Both predicates at once, as what each operation keeps.\<close>

definition good :: "(bytes \<Rightarrow> bool) \<Rightarrow> node \<Rightarrow> bool" where
  "good F n \<longleftrightarrow> node_inv F n \<and> ports_bound n"

lemma good_core: "same_core n n' \<Longrightarrow> good F n' = good F n"
  using node_inv_core[of n n'] ports_bound_quiet[of n' n] by (simp add: good_def same_core_def)

lemma good_helpers [simp]:
  "good F n \<Longrightarrow> good F (noteDrop r n)"
  "good F n \<Longrightarrow> good F (countFrame p d n)"
  "good F n \<Longrightarrow> good F (learnRingMember e m n)"
  "good F n \<Longrightarrow> good F (learnProxy e m n)"
  "good F n \<Longrightarrow> good F (n\<lparr>n_seqMgr := snd (sm_Next (n_seqMgr n) m)\<rparr>)"
  by (simp_all add: good_def ports_bound_def node_inv_def noteDrop_def countFrame_def learnRingMember_def
      learnProxy_def gm_ok_put sm_Next_def Let_def)

lemma good_dup_Insert [simp]: "good F n \<Longrightarrow> map_range (env_rng e) \<Longrightarrow> good F (dup_Insert e m s l n)"
  by (simp add: good_def ports_bound_def node_inv_def dup_Insert_def table_ok_Insert)

lemma good_maps [simp]:
  "good F n \<Longrightarrow> good F (n\<lparr>n_supervisionSeen := gm_put m t (n_supervisionSeen n)\<rparr>)"
  "good F n \<Longrightarrow> good F (n\<lparr>n_ringMembers := gm_put m t (n_ringMembers n)\<rparr>)"
  "good F n \<Longrightarrow> good F (n\<lparr>n_supervisionSeqs := gm_put m q (n_supervisionSeqs n)\<rparr>)"
  "good F n \<Longrightarrow> good F (n\<lparr>n_dupTable := snd (FlushFor (n_dupTable n) m)\<rparr>)"
  by (simp_all add: good_def ports_bound_def node_inv_def gm_ok_put table_ok_FlushFor)

text \<open>What a parsed supervision frame does, step by step.\<close>

definition note_alive :: "env \<Rightarrow> frameEvent \<Rightarrow> string \<Rightarrow> node \<Rightarrow> node" where
  "note_alive e ev mac n =
     (let n = n\<lparr>n_supervisionSeen := gm_put mac (env_now e) (n_supervisionSeen n)\<rparr> in
        if IsHSRNode (n_Config n) \<and> is_lan (ev_iface ev)
        then n\<lparr>n_ringMembers := gm_put mac (env_now e) (n_ringMembers n)\<rparr> else n)"

definition note_seq :: "string \<Rightarrow> u16 \<Rightarrow> node \<Rightarrow> node" where
  "note_seq mac seq n =
     (let n = (case gm_get (n_supervisionSeqs n) mac of
                 Some prev \<Rightarrow> if seq_regressed prev seq then n\<lparr>n_dupTable := snd (FlushFor (n_dupTable n) mac)\<rparr> else n
               | None \<Rightarrow> n)
      in n\<lparr>n_supervisionSeqs := gm_put mac seq (n_supervisionSeqs n)\<rparr>)"

lemma handleSupervisionFrame_notes:
  "handleSupervisionFrame e ev n =
     (case SupParse (ev_frame ev) of
        None \<Rightarrow> None
      | Some None \<Rightarrow> Some n
      | Some (Some sf) \<Rightarrow> Some (note_seq (sf_SrcMAC sf) (sf_Seq sf) (note_alive e ev (sf_SrcMAC sf) n)))"
proof (cases "SupParse (ev_frame ev)")
  case (Some r)
  then show ?thesis
    unfolding handleSupervisionFrame_def note_seq_def note_alive_def is_lan_def Let_def
    by (cases r) simp_all
qed (simp add: handleSupervisionFrame_def)

lemma note_fields:
  "get_port p (note_alive e ev m n) = get_port p n" "get_port p (note_seq m q n) = get_port p n"
  "n_Config (note_alive e ev m n) = n_Config n" "n_Config (note_seq m q n) = n_Config n"
  "n_dupTable (note_alive e ev m n) = n_dupTable n"
  "n_supervisionSeqs (note_alive e ev m n) = n_supervisionSeqs n"
  "n_supervisionSeqs (note_seq m q n) = gm_put m q (n_supervisionSeqs n)"
  "n_dupTable (note_seq m q n) = (case gm_get (n_supervisionSeqs n) m of
     None \<Rightarrow> n_dupTable n
   | Some prev \<Rightarrow> if seq_regressed prev q then snd (FlushFor (n_dupTable n) m) else n_dupTable n)"
  by (cases p; simp add: note_alive_def note_seq_def Let_def split: option.split)+

section \<open>What every handler keeps\<close>

text \<open>
  A predicate that the small updates of the node keep is kept by every handler. The invariant is
  one instance, the contents of the frame queue another.
\<close>

locale node_kept =
  fixes P :: "node \<Rightarrow> bool"
  assumes core: "same_core n n' \<Longrightarrow> P n' = P n"
    and helpers [simp]: "P n \<Longrightarrow> P (noteDrop r n)" "P n \<Longrightarrow> P (countFrame p d n)" "P n \<Longrightarrow> P (learnRingMember e m n)"
      "P n \<Longrightarrow> P (learnProxy e m n)" "P n \<Longrightarrow> P (n\<lparr>n_seqMgr := snd (sm_Next (n_seqMgr n) m)\<rparr>)"
    and insert [simp]: "P n \<Longrightarrow> map_range (env_rng e) \<Longrightarrow> P (dup_Insert e m s l n)"
    and maps [simp]: "P n \<Longrightarrow> P (n\<lparr>n_supervisionSeen := gm_put m t (n_supervisionSeen n)\<rparr>)"
      "P n \<Longrightarrow> P (n\<lparr>n_ringMembers := gm_put m t (n_ringMembers n)\<rparr>)"
      "P n \<Longrightarrow> P (n\<lparr>n_supervisionSeqs := gm_put m q (n_supervisionSeqs n)\<rparr>)"
      "P n \<Longrightarrow> P (n\<lparr>n_dupTable := snd (FlushFor (n_dupTable n) m)\<rparr>)"
begin

lemma kept_writes:
  "port_Write e p f n = Some (ok, n') \<Longrightarrow> P n' = P n"
  "write_count e p nm f n = Some n' \<Longrightarrow> P n' = P n"
  "write_only e p f n = Some n' \<Longrightarrow> P n' = P n"
  using core port_Write_core write_count_core write_only_core by metis+

lemma kept_PRP:
  "P n \<Longrightarrow> map_range (env_rng e) \<Longrightarrow> handleIncomingPRPFrame e ev n = Some n' \<Longrightarrow> P n'"
  by (auto simp: handleIncomingPRPFrame_def Let_def split: if_splits sum.splits dest!: kept_writes(2))

lemma kept_interlink:
  assumes "P n" and "handleInterlinkFrame e ev n = Some n'"
  shows "P n'"
proof -
  define n1 where "n1 = countFrame ''interlink'' ''in'' n"
  define n2 where "n2 = (if length (ev_frame ev) \<ge> 12 then learnProxy e (GetSrcMAC (ev_frame ev)) n1 else n1)"
  define n3 where "n3 = n2\<lparr>n_seqMgr := snd (sm_Next (n_seqMgr n2) (GetSrcMAC (ev_frame ev)))\<rparr>"
  have g: "P n1" "P n2" "P n3" using assms(1) by (simp_all add: n1_def n2_def n3_def)
  show ?thesis
    using assms(2) g
    unfolding handleInterlinkFrame_def Let_def n1_def[symmetric] n2_def[symmetric]
    by (auto simp: case_prod_beta n3_def[symmetric] split: bind_splits if_splits
        dest!: kept_writes(1,2))
qed

lemma kept_hsrDeliver:
  assumes "P n" and "hsrDeliver e f path seq payload n = Some n'"
  shows "P n'"
  using assms
  by (auto simp: hsrDeliver_def couplingToPRP_def Let_def split: bind_splits if_splits sum.splits
      dest!: kept_writes(2))

lemma kept_HSR:
  assumes "P n" and "map_range (env_rng e)" and "handleIncomingHSRFrame e ev n = Some n'"
  shows "P n'"
proof -
  define n1 where "n1 = countFrame (ev_iface ev) ''in'' n"
  have g: "P n1" using assms(1) by (simp add: n1_def)
  show ?thesis
  proof (cases "\<exists>path s encap payload. DecodeHSR (ev_frame ev) = Inr (path, s, encap, payload)
      \<and> \<not> own_frame n1 (ev_frame ev) \<and> \<not> dup_Find e n1 (GetSrcMAC (ev_frame ev)) s")
    case False
    then show ?thesis
      using assms(3) g unfolding handleIncomingHSRFrame_def Let_def n1_def[symmetric]
      by (auto split: sum.splits if_splits)
  next
    case True
    then obtain path s encap payload where d: "DecodeHSR (ev_frame ev) = Inr (path, s, encap, payload)"
      "\<not> own_frame n1 (ev_frame ev)" "\<not> dup_Find e n1 (GetSrcMAC (ev_frame ev)) s" by blast
    define n2 where "n2 = learnRingMember e (GetSrcMAC (ev_frame ev)) (dup_Insert e (GetSrcMAC (ev_frame ev)) s 0 n1)"
    have "P n2" using g assms(2) by (simp add: n2_def)
    moreover obtain n3 where "n3 = n2 \<or> (\<exists>p nm f. write_count e p nm f n2 = Some n3)"
      and n3: "hsrDeliver e (ev_frame ev) path s payload n3 = Some n'"
      using assms(3) d unfolding handleIncomingHSRFrame_def Let_def n1_def[symmetric]
      by (auto simp: n2_def[symmetric] split: bind_splits sum.splits)
    ultimately have "P n3" using kept_writes(2) by auto
    then show ?thesis using n3 by (rule kept_hsrDeliver)
  qed
qed

lemma kept_quadbox:
  "P n \<Longrightarrow> map_range (env_rng e) \<Longrightarrow> quadboxInterlink e ev m n = Some n' \<Longrightarrow> P n'"
  by (auto simp: quadboxInterlink_def Let_def split: bind_splits if_splits sum.splits dest!: kept_writes(2))

lemma kept_HSRInterlink:
  assumes "P n" and "map_range (env_rng e)" and "handleHSRInterlinkFrame e ev n = Some n'"
  shows "P n'"
proof -
  let ?src = "GetSrcMAC (ev_frame ev)"
  define n1 where "n1 = countFrame ''interlink'' ''in'' n"
  define n2 where "n2 = (if length (ev_frame ev) \<ge> 12 then learnProxy e ?src n1 else n1)"
  define n3 where "n3 = n2\<lparr>n_seqMgr := snd (sm_Next (n_seqMgr n2) ?src)\<rparr>"
  have g: "P n1" "P n2" "P n3" using assms(1) by (simp_all add: n1_def n2_def n3_def)
  then have d: "P (dup_Insert e ?src s 0 n2)" "P (dup_Insert e ?src s 0 n3)" for s using assms(2) by simp_all
  show ?thesis
    using assms(3) g d kept_quadbox[OF g(1) assms(2)]
    unfolding handleHSRInterlinkFrame_def Let_def n1_def[symmetric] n2_def[symmetric]
    by (auto simp: case_prod_beta n3_def[symmetric] split: bind_splits if_splits sum.splits dest!: kept_writes(2))
qed

lemma kept_notes: "P n \<Longrightarrow> P (note_alive e ev m n)" "P n \<Longrightarrow> P (note_seq m q n)"
  using maps(2)[OF maps(1)[of n m "env_now e"], of m "env_now e"]
  by (simp_all add: note_alive_def note_seq_def Let_def split: option.split)

lemma kept_supervision: "P n \<Longrightarrow> handleSupervisionFrame e ev n = Some n' \<Longrightarrow> P n'"
  by (auto simp: handleSupervisionFrame_notes kept_notes split: option.splits)

lemma kept_handleFrame:
  assumes "P n" and "map_range (env_rng e)" and "handleFrame e ev n = Some n'"
  shows "P n'"
proof (cases "length (ev_frame ev) < 14 \<or> \<not> is_supervision (n_Config n) ev")
  case True
  then show ?thesis
    using assms(3) assms(1) kept_HSR[OF assms(1,2)] kept_PRP[OF assms(1,2)] kept_interlink[OF assms(1)]
      kept_HSRInterlink[OF assms(1,2)]
    unfolding handleFrame_def by (simp split: if_splits)
next
  case False
  then obtain n1 where "handleSupervisionFrame e ev n = Some n1"
    using assms(3) by (auto simp: handleFrame_def split: bind_splits)
  moreover then have "P n1" by (rule kept_supervision[OF assms(1)])
  ultimately show ?thesis
    using False assms(3) by (auto simp: handleFrame_def split: bind_splits if_splits dest!: kept_writes(2))
qed

end

interpretation inv: node_kept "good F" for F
  by unfold_locales (simp_all add: good_core)

lemmas good_writes = inv.kept_writes
  and good_handleFrame = inv.kept_handleFrame

lemma queue_core: "same_core n n' \<Longrightarrow> n_frameBuffer n' = n_frameBuffer n"
  using quiet_fields(11)[of n] quiet_fields(11)[of n'] unfolding same_core_def by metis

interpretation queue: node_kept "\<lambda>n. n_frameBuffer n = q" for q
  by unfold_locales
    (auto simp: queue_core noteDrop_def countFrame_def learnRingMember_def learnProxy_def dup_Insert_def)

lemma good_bump [simp]: "good F (bump_supSent n) = good F n" "good F (n\<lparr>n_supSeq := q\<rparr>) = good F n"
  by (simp_all add: good_def ports_bound_def node_inv_def bump_supSent_def)

lemma good_SendSupervision: "good F n \<Longrightarrow> SendSupervisionFrame e n = Some n' \<Longrightarrow> good F n'"
  by (auto simp: SendSupervisionFrame_def Let_def split: bind_splits if_splits dest!: good_writes(3))

lemma good_periodicCleanup: "good F n \<Longrightarrow> good F (periodicCleanup now n)"
  by (simp add: good_def ports_bound_def node_inv_def periodicCleanup_def cleanupSupervisionSeen_def Let_def
      table_ok_Cleanup gm_ok_filter)

lemma bound_closePorts: "bound p (closePorts n) = bound p n"
  by (cases p) (auto simp: closePorts_def port_Close_def split: option.splits)

lemma good_closePorts [simp]: "good F (closePorts n) = good F n"
proof -
  have "ports_bound (closePorts n) = ports_bound n"
    unfolding ports_bound_def bound_closePorts by (simp add: closePorts_def)
  then show ?thesis by (simp add: good_def node_inv_def closePorts_def)
qed

lemma good_flags [simp]: "good F (n\<lparr>n_stopped := b\<rparr>) = good F n" "good F (n\<lparr>n_cleanupTimer := b\<rparr>) = good F n"
  by (simp_all add: good_def ports_bound_def node_inv_def)

lemma good_Stop: "good F n \<Longrightarrow> good F (Stop n)"
  by (simp add: Stop_def Let_def)

lemma good_readLoop: "good F n \<Longrightarrow> pred_option (\<lambda>pkt. F (take readBufLen pkt)) res \<Longrightarrow> good F (readLoop_body ifc res n)"
  by (auto simp: good_def ports_bound_def node_inv_def readLoop_body_def Let_def split: option.splits)

lemma good_move:
  assumes "good F n" and "node_moves F n x" and "x = Some n'"
  shows "good F n'"
  using assms(2)
proof cases
  case (process e)
  then obtain ev rest where "n_frameBuffer n = ev # rest" by (cases "n_frameBuffer n") auto
  moreover then have "good F (n\<lparr>n_frameBuffer := rest\<rparr>)"
    using assms(1) by (simp add: good_def ports_bound_def node_inv_def)
  ultimately show ?thesis
    using process assms(3) good_handleFrame by (auto simp: processFrames_iter_def)
next
  case (read ifc res)
  then show ?thesis using assms(1,3) good_readLoop[of F n res ifc] by simp
qed (use assms(1,3) in \<open>auto intro: good_periodicCleanup good_Stop good_SendSupervision\<close>)

section \<open>No panics\<close>

lemma hsr_bound_ports: "ports_bound n \<Longrightarrow> IsHSRNode (n_Config n) \<Longrightarrow> hsr_bound n"
  by (cases "role_of (n_Config n)") (simp_all add: hsr_bound_def ports_bound_def role_predicates)

lemma write_pair_Some:
  assumes "bound PLanA n" and "bound PLanB n" and "f \<noteq> []" and "g \<noteq> []"
  shows "do { n \<leftarrow> write_count e PLanA a f n; write_count e PLanB b g n } \<noteq> None"
proof -
  obtain n1 where "write_count e PLanA a f n = Some n1" "same_core n n1"
    using write_count_spec[OF assms(1,3)] by metis
  then show ?thesis using same_coreD(7)[of n n1 PLanB] assms(2,4) by (simp add: write_count_None)
qed

lemma port_pair_Some:
  assumes "bound PLanA n" and "bound PLanB n" and "f \<noteq> []"
  shows "do { (_, n) \<leftarrow> port_Write e PLanA f n; (_, n) \<leftarrow> port_Write e PLanB f n; Some (h n) } \<noteq> None"
proof -
  obtain n1 where n1: "port_Write e PLanA f n = Some (env_wr e PLanA f, n1)" "same_core n n1"
    using port_Write_spec[OF assms(1,3)] by metis
  then have "bound PLanB n1" using same_coreD(7)[of n n1 PLanB] assms(2) by blast
  then obtain n2 where "port_Write e PLanB f n1 = Some (env_wr e PLanB f, n2)"
    using port_Write_spec[OF _ assms(3)] by metis
  then show ?thesis using n1 by simp
qed

lemma GetVLANID_Some:
  assumes "16 \<le> length f"
  obtains v t where "GetVLANID f = Some (v, t)"
  using assms that[of 0 False] that[of "uint (get16 f 14 AND 0x0FFF)" True]
  by (cases "IsVLANFrame f") (simp_all add: GetVLANID_def)

lemma handleInterlinkFrame_Some:
  assumes "bound PLanA n" and "bound PLanB n" and "16 \<le> length (ev_frame ev)"
  shows "handleInterlinkFrame e ev n \<noteq> None"
proof -
  have ne: "EncodeRCT f q l \<noteq> []" for f q l by (simp add: EncodeRCT_eq put16_def)
  define n1 where "n1 = learnProxy e (GetSrcMAC (ev_frame ev)) (countFrame ''interlink'' ''in'' n)"
  define n2 where "n2 = n1\<lparr>n_seqMgr := snd (sm_Next (n_seqMgr n1) (GetSrcMAC (ev_frame ev)))\<rparr>"
  have b: "bound p n1 = bound p n" "bound p n2 = bound p n" for p
    by (simp_all add: n1_def n2_def node_simps)
  have f: "ev_frame ev \<noteq> []" using assms(3) by auto
  obtain v t where v: "GetVLANID (ev_frame ev) = Some (v, t)" using GetVLANID_Some[OF assms(3)] .
  have plain: "do { (_, n) \<leftarrow> port_Write e PLanA (ev_frame ev) n1; (_, n) \<leftarrow> port_Write e PLanB (ev_frame ev) n;
      Some (countFrame ''lan_b'' ''out'' (countFrame ''lan_a'' ''out'' n)) } \<noteq> None"
    by (rule port_pair_Some) (use assms(1,2) b f in blast)+
  have tagged: "do { n \<leftarrow> write_count e PLanA ''lan_a'' (EncodeRCT (ev_frame ev) q 0) n2;
      write_count e PLanB ''lan_b'' (EncodeRCT (ev_frame ev) q 1) n } \<noteq> None" for q
    by (rule write_pair_Some) (use assms(1,2) b ne in blast)+
  show ?thesis
    using assms(3) v plain tagged
    by (simp add: handleInterlinkFrame_def Let_def n1_def[symmetric] case_prod_beta n2_def[symmetric])
qed

lemma hsrBody_Some: "18 \<le> length f \<Longrightarrow> \<exists>g. hsrBody f path seq = Some g \<and> g \<noteq> []"
  by (auto simp: hsrBody_def Let_def EncodeHSR_def put16_def)

lemma handleHSRInterlinkFrame_Some:
  assumes "ports_bound n" and "IsHSRNode (n_Config n)" and "18 \<le> length (ev_frame ev)"
  shows "handleHSRInterlinkFrame e ev n \<noteq> None"
proof (cases "role_of (n_Config n) = RoleHSRHSR")
  case True
  then show ?thesis using quadboxInterlink_spec[OF True, of e ev] assms(1) unfolding ports_bound_def by blast
next
  case False
  with assms(2) have r: "role_of (n_Config n) = RoleHSRSan \<or> role_of (n_Config n) = RoleHSRPRP"
    by (cases "role_of (n_Config n)") (simp_all add: role_predicates)
  show ?thesis
  proof (cases "inject_seq n (ev_frame ev)")
    case None
    then show ?thesis
      by (auto simp: handleHSRInterlinkFrame_def inject_seq_def role_predicates Let_def node_simps split: if_splits sum.splits)
  next
    case (Some q)
    obtain g where "hsrBody (ev_frame ev) (couplingPath (n_Config n)) q = Some g" "g \<noteq> []"
      using hsrBody_Some[OF assms(3)] by blast
    then show ?thesis
      using handleHSRInterlink_injects[OF r _ _ _ Some, of g e] assms(1,3) unfolding ports_bound_def by force
  qed
qed

lemma handleIncoming_Some:
  assumes "ports_bound n"
  shows "IsHSRNode (n_Config n) \<Longrightarrow> handleIncomingHSRFrame e ev n \<noteq> None"
    and "\<not> IsHSRNode (n_Config n) \<Longrightarrow> handleIncomingPRPFrame e ev n \<noteq> None"
proof -
  assume "IsHSRNode (n_Config n)"
  then have b: "hsr_bound n" by (rule hsr_bound_ports[OF assms])
  show "handleIncomingHSRFrame e ev n \<noteq> None"
    using handleIncomingHSR_skip[of n e ev] handleIncomingHSR_dup[of n e ev] handleIncomingHSR_accept[OF _ _ b, of e ev]
    by (cases "hsr_pair (quiet n) (e, ev)") (fastforce, metis option.distinct(1) surj_pair)
next
  assume p: "\<not> IsHSRNode (n_Config n)"
  show "handleIncomingPRPFrame e ev n \<noteq> None"
    using handleIncomingPRP_skip[of n e ev] handleIncomingPRP_dup[of n e ev] handleIncomingPRP_accept[OF _ _ p, of e ev]
    by (cases "prp_pair (quiet n) (e, ev)") (fastforce, metis option.distinct(1) surj_pair)
qed

lemma handleFrame_supervision_Some:
  assumes "ports_bound n" and "26 \<le> length (ev_frame ev)" and "is_supervision (n_Config n) ev"
  shows "handleFrame e ev n \<noteq> None"
proof -
  obtain r where r: "SupParse (ev_frame ev) = Some r" using SupParse_long[OF assms(2)] by auto
  then obtain n1 where n1: "handleSupervisionFrame e ev n = Some n1"
    by (cases r) (simp_all add: handleSupervisionFrame_notes)
  have "bound p n1 = bound p n" for p
    using n1 by (auto simp: handleSupervisionFrame_notes note_fields split: option.splits)
  then have b: "bound PLanA n1" "bound PLanB n1" using assms(1) unfolding ports_bound_def by blast+
  have f: "ev_frame ev \<noteq> []" using assms(2) by auto
  have "do { n \<leftarrow> write_count e PLanA ''lan_a'' (ev_frame ev) n1; write_count e PLanB ''lan_b'' (ev_frame ev) n } \<noteq> None"
    using b f f by (rule write_pair_Some)
  moreover have "n_Interlink n1 \<noteq> None \<Longrightarrow> write_count e PInterlink ''interlink'' (ev_frame ev) n1 \<noteq> None"
    using f unfolding write_count_None by simp
  ultimately show ?thesis
    using n1 assms(2,3) unfolding handleFrame_def by (cases "n_Interlink n1 = None") simp_all
qed

lemma handleFrame_Some:
  assumes "ports_bound n" and "26 \<le> length (ev_frame ev)"
  shows "handleFrame e ev n \<noteq> None"
proof (cases "is_supervision (n_Config n) ev")
  case True
  then show ?thesis by (rule handleFrame_supervision_Some[OF assms])
next
  case False
  have "bound PLanA n" "bound PLanB n" using assms(1) by (simp_all add: ports_bound_def)
  then show ?thesis
    using False assms(2) handleIncoming_Some[OF assms(1), of e ev] handleInterlinkFrame_Some[of n ev e]
      handleHSRInterlinkFrame_Some[OF assms(1), of ev e]
    by (simp add: handleFrame_def)
qed

lemma SendSupervisionFrame_Some:
  assumes "ports_bound n"
  shows "SendSupervisionFrame e n \<noteq> None"
proof -
  have ne: "BuildRCTed m q l \<noteq> []" "BuildHSR m q p \<noteq> []" for m q l p
    by (simp_all add: BuildRCTed_def BuildHSR_def Let_def put16_def supMulticast_def sup_pad_def)
  have w: "\<exists>n'. write_only e p f n = Some n' \<and> (\<forall>q. bound q n' = bound q n)" if bf: "bound p n" "f \<noteq> []" for p f n
  proof -
    obtain n' where "port_Write e p f n = Some (env_wr e p f, n')" "same_core n n'"
      using port_Write_spec[OF bf] by metis
    then show ?thesis using same_coreD(7)[of n n'] by (auto simp: write_only_def)
  qed
  define n0 where "n0 = n\<lparr>n_supSeq := n_supSeq n + 1\<rparr>"
  have b0: "bound PLanA n0" "bound PLanB n0"
    using assms by (simp_all add: n0_def ports_bound_def)
  have both: "\<exists>n1 n2. write_only e PLanA f n0 = Some n1 \<and> write_only e PLanB g n1 = Some n2 \<and> (\<forall>q. bound q n2 = bound q n0)"
    if ne: "f \<noteq> []" "g \<noteq> []" for f g
  proof -
    obtain n1 where n1: "write_only e PLanA f n0 = Some n1" "\<forall>q. bound q n1 = bound q n0"
      using w[OF b0(1) ne(1)] by blast
    then have "bound PLanB n1" using b0(2) by blast
    then obtain n2 where "write_only e PLanB g n1 = Some n2" "\<forall>q. bound q n2 = bound q n1"
      using w ne(2) by blast
    then show ?thesis using n1 by metis
  qed
  have il: "\<exists>n2. (if c \<and> n_Interlink n1 \<noteq> None then write_only e PInterlink f n1 else Some n1) = Some n2" if "f \<noteq> []" for c f n1
    using w[of PInterlink n1 f] that by auto
  let ?mac = "case n_mac n of Some m \<Rightarrow> m | None \<Rightarrow> (case nodeMAC e n of Some m \<Rightarrow> m | None \<Rightarrow> [])"
  let ?q = "n_supSeq n0"
  show ?thesis
  proof (cases "IsHSRNode (n_Config n)")
    case False
    obtain n1 n2 where "write_only e PLanA (BuildRCTed ?mac ?q 0) n0 = Some n1"
      "write_only e PLanB (BuildRCTed ?mac ?q 1) n1 = Some n2"
      using both[OF ne(1,1)] by blast
    then show ?thesis
      using False unfolding SendSupervisionFrame_def Let_def n0_def[symmetric] by simp
  next
    case True
    let ?f = "BuildHSR ?mac ?q (couplingPath (n_Config n))"
    obtain n1 n2 where n2: "write_only e PLanA ?f n0 = Some n1" "write_only e PLanB ?f n1 = Some n2"
      using both[OF ne(2,2)] by blast
    obtain n3 where n3: "(if IsHSRHSR (n_Config n) \<and> n_Interlink (bump_supSent n2) \<noteq> None
        then write_only e PInterlink ?f (bump_supSent n2) else Some (bump_supSent n2)) = Some n3"
      using il[OF ne(2)] by blast
    obtain n4 where "(if IsHSRPRPCoupling (n_Config n) \<and> n_Interlink n3 \<noteq> None
        then write_only e PInterlink (BuildRCTed ?mac ?q (LanID (n_Config n))) n3 else Some n3) = Some n4"
      using il[OF ne(1)] by blast
    then show ?thesis
      using True n2 n3 unfolding SendSupervisionFrame_def Let_def n0_def[symmetric] by simp
  qed
qed

section \<open>Starting and stopping\<close>

lemma table_ok_NewNode: "table_ok (n_dupTable (NewNode st cfg))"
  by (simp add: NewNode_def or_default_def table_ok_new)

lemma node_inv_NewNode: "node_inv F (NewNode st cfg)"
  using table_ok_NewNode[of st cfg]
  by (simp add: node_inv_def) (simp add: NewNode_def NewSequenceManagerWithStart_def)

lemma NewNode_fields [simp]:
  "n_Config (NewNode st cfg) = cfg" "n_LanA (NewNode st cfg) = None" "n_LanB (NewNode st cfg) = None"
  "n_Interlink (NewNode st cfg) = None"
  by (simp_all add: NewNode_def)

lemma node_inv_ports [simp]:
  "node_inv F (n\<lparr>n_LanA := p\<rparr>) = node_inv F n" "node_inv F (n\<lparr>n_LanB := p\<rparr>) = node_inv F n"
  "node_inv F (n\<lparr>n_Interlink := p\<rparr>) = node_inv F n" "node_inv F (n\<lparr>n_mac := m\<rparr>) = node_inv F n"
  "node_inv F (n\<lparr>n_cleanupTimer := b\<rparr>) = node_inv F n"
  by (simp_all add: node_inv_def)

text \<open>All bound ports are closed.\<close>

definition all_closed :: "node \<Rightarrow> bool" where
  "all_closed n \<longleftrightarrow> (\<forall>p pp. get_port p n = Some pp \<longrightarrow> \<not> pp_open pp)"

lemma all_closed_closePorts: "all_closed (closePorts n)"
  unfolding all_closed_def
proof (intro allI impI)
  fix p pp
  assume "get_port p (closePorts n) = Some pp"
  then show "\<not> pp_open pp"
    by (cases p) (auto simp: closePorts_def port_Close_def split: option.splits)
qed

section \<open>Properties\<close>

lemma good_reaches:
  assumes "good (\<lambda>f. 26 \<le> length f) n" and "node_reaches (\<lambda>f. 26 \<le> length f) n x"
  shows "\<exists>n'. x = Some n' \<and> good (\<lambda>f. 26 \<le> length f) n'"
  using assms(2)
proof induction
  case start
  then show ?case using assms(1) by blast
next
  case (move n1 n2)
  let ?F = "\<lambda>f :: bytes. 26 \<le> length f"
  have g: "good ?F n1" using move.IH by simp
  have "n2 \<noteq> None"
    using move.hyps(2)
  proof cases
    case (process e)
    then obtain ev rest where q: "n_frameBuffer n1 = ev # rest" by (cases "n_frameBuffer n1") auto
    then have "26 \<le> length (ev_frame ev)" using g by (simp add: good_def node_inv_def)
    moreover have "ports_bound (n1\<lparr>n_frameBuffer := rest\<rparr>)" using g by (simp add: good_def ports_bound_def)
    ultimately show ?thesis using process q handleFrame_Some by (simp add: processFrames_iter_def)
  next
    case (supervise e)
    then show ?thesis using g SendSupervisionFrame_Some[of n1 e] by (simp add: good_def)
  qed simp_all
  then show ?case using good_move[OF g move.hyps(2)] by auto
qed

text \<open>
  No panic in any reachable state: a node whose ports are bound as its role needs, and to
  which the sockets deliver frames of at least 26 bytes, never panics, whatever the interleaving
  of its read loops, event loop, clean-up timer, supervision ticker and \<open>Stop\<close>.
\<close>

theorem reachable_no_panic:
  assumes "good (\<lambda>f. 26 \<le> length f) n" and "node_reaches (\<lambda>f. 26 \<le> length f) n x"
  shows "\<exists>n'. x = Some n' \<and> good (\<lambda>f. 26 \<le> length f) n'"
  by (rule good_reaches[OF assms])

lemma ex_good: "good F (ex_node r k)"
  using node_inv_NewNode[of F 7 "ex_cfg r"]
  by (simp add: good_def ports_bound_def node_inv_def ex_node_def SetNodeMAC_def NewNode_def ex_port_def)

lemma reachable_no_panic_witness:
  "\<exists>n'. processFrames_iter (ex_env 5) (snd (readLoop_iter ''lan_b'' (Some (EncodeRCT ex_frame 3 1)) (ex_node ''prp-san'' 1)))
      = Some n' \<and> good (\<lambda>f. 26 \<le> length f) n'"
proof -
  let ?F = "\<lambda>f :: bytes. 26 \<le> length f" and ?n = "ex_node ''prp-san'' 1" and ?f = "EncodeRCT ex_frame 3 1"
  define n1 where "n1 = snd (readLoop_iter ''lan_b'' (Some ?f) ?n)"
  have "\<not> n_stopped ?n" and q: "n_frameBuffer n1 \<noteq> []" unfolding n1_def by code_simp+
  then have n1: "n1 = readLoop_body ''lan_b'' (Some ?f) ?n" by (simp add: n1_def readLoop_iter_def)
  have "26 \<le> length (take readBufLen ?f)" by code_simp
  then have "node_moves ?F ?n (Some n1)"
    unfolding n1 by (intro node_moves.read) simp_all
  then have "node_reaches ?F ?n (Some n1)" by (rule node_reaches.move[OF node_reaches.start])
  moreover have "node_moves ?F n1 (processFrames_iter (ex_env 5) n1)" using q by (intro node_moves.process) simp_all
  ultimately have "node_reaches ?F ?n (processFrames_iter (ex_env 5) n1)" by (rule node_reaches.move)
  from reachable_no_panic[OF ex_good this] show ?thesis unfolding n1_def .
qed

text \<open>
  C6. State invariant: every state a node reaches from a good one keeps the duplicate table within
  its configured size, the frame queue within its capacity of 10000, every map free of repeated
  keys and the ports of the role bound.
\<close>

theorem reachable_invariant:
  assumes "good F n" and "node_reaches F n (Some n')"
  shows "good F n' \<and> Size (n_dupTable n') \<le> t_maxSize (n_dupTable n') \<and> length (n_frameBuffer n') \<le> 10000"
proof -
  have "good F n'"
    using assms(2)
  proof (induction "Some n'" arbitrary: n')
    case start
    then show ?case using assms(1) by simp
  next
    case (move n1)
    then show ?case using good_move by blast
  qed
  then show ?thesis
    by (auto simp: good_def node_inv_def table_ok_def Size_def frameBufferCap_def)
qed

lemma reachable_invariant_witness:
  "good (\<lambda>f. True) (Stop (ex_node ''hsr-prp'' 1)) \<and> length (n_frameBuffer (Stop (ex_node ''hsr-prp'' 1))) \<le> 10000"
  using reachable_invariant[OF ex_good node_reaches.move[OF node_reaches.start node_moves.stop]] by blast

lemma Start_good:
  assumes "Start os e (NewNode st cfg) = (Inr loops, n')"
    and "role_of cfg \<in> {RoleHSRSan, RoleHSRPRP} \<longrightarrow> InterlinkInterface cfg \<noteq> ''''"
  shows "good F n' \<and> n_cleanupTimer n' \<and> (bound PInterlink n' \<longleftrightarrow> InterlinkInterface cfg \<noteq> '''')
    \<and> loops = [''lan_a'', ''lan_b''] @ (if bound PInterlink n' then [''interlink''] else [])"
  using assms node_inv_NewNode[of F st cfg]
  by (auto simp: Start_def Let_def start_loops_def good_def ports_bound_def split: option.splits if_splits prod.splits)

text \<open>
  A successful \<open>Start\<close> of a new node whose role has the interlink it needs puts it in a good
  state and starts one read loop per bound port; the interlink is bound iff one is configured.
\<close>

theorem start_good:
  assumes "Start os e (NewNode st cfg) = (Inr loops, n')"
    and "role_of cfg \<in> {RoleHSRSan, RoleHSRPRP} \<longrightarrow> InterlinkInterface cfg \<noteq> ''''"
  shows "good F n' \<and> n_cleanupTimer n' \<and> (bound PInterlink n' \<longleftrightarrow> InterlinkInterface cfg \<noteq> '''')
    \<and> loops = [''lan_a'', ''lan_b''] @ (if bound PInterlink n' then [''interlink''] else [])"
  by (rule Start_good[OF assms])

definition ex_os :: os where
  "ex_os = \<lparr>os_socket = (\<lambda>nm. ex_port nm), os_setMTU = (\<lambda>_ _. True)\<rparr>"

lemma start_good_witness:
  "good (\<lambda>f. True) (snd (Start ex_os (ex_env 0) (NewNode 7 (ex_cfg ''hsr-san''))))"
proof -
  have "\<exists>loops. Start ex_os (ex_env 0) (NewNode 7 (ex_cfg ''hsr-san'')) =
      (Inr loops, snd (Start ex_os (ex_env 0) (NewNode 7 (ex_cfg ''hsr-san''))))"
    by (simp add: Start_def Let_def start_loops_def NewNode_def ex_os_def ex_port_def)
  moreover have "InterlinkInterface (ex_cfg ''hsr-san'') \<noteq> ''''" by (simp add: ex_cfg_def)
  ultimately show ?thesis using start_good by blast
qed

text \<open>C24. A failed \<open>Start\<close> of a new node leaves no port open.\<close>

theorem start_failure_closes:
  assumes "Start os e (NewNode st cfg) = (Inl err, n')"
  shows "all_closed n'"
proof -
  have new: "all_closed (NewNode st cfg)"
    unfolding all_closed_def by (intro allI impI, rename_tac p pp, case_tac p) (simp_all add: NewNode_def)
  show ?thesis
    using assms new all_closed_closePorts
    by (auto simp: Start_def Let_def start_loops_def split: option.splits if_splits prod.splits)
qed

lemma start_failure_closes_witness:
  "all_closed (snd (Start (ex_os\<lparr>os_setMTU := \<lambda>nm _. nm \<noteq> ''eth1''\<rparr>) (ex_env 0) (NewNode 7 (ex_cfg ''prp-san''))))
   \<and> bound PLanA (snd (Start (ex_os\<lparr>os_setMTU := \<lambda>nm _. nm \<noteq> ''eth1''\<rparr>) (ex_env 0) (NewNode 7 (ex_cfg ''prp-san''))))"
proof -
  let ?r = "Start (ex_os\<lparr>os_setMTU := \<lambda>nm _. nm \<noteq> ''eth1''\<rparr>) (ex_env 0) (NewNode 7 (ex_cfg ''prp-san''))"
  have "?r = (Inl (SetMTUOn ''LAN B'' ''eth1''), snd ?r)" and "bound PLanA (snd ?r)"
    by (simp_all add: Start_def Let_def NewNode_def ex_os_def ex_port_def ex_cfg_def closePorts_def port_Close_def)
  then show ?thesis using start_failure_closes by blast
qed

section \<open>Shutdown\<close>

text \<open>
  The frame loops after \<open>Stop\<close>: \<open>k\<close> read loops are still in the iteration they had begun, and \<open>b\<close> says
  whether \<open>processFrames\<close> still runs. A read loop ends its iteration and then sees the stop channel;
  \<open>processFrames\<close> may pick the queue again, if there is something in it, or the stop channel.
\<close>

inductive shutdown_moves :: "nat \<times> bool \<times> node \<Rightarrow> nat \<times> bool \<times> node \<Rightarrow> bool" where
  reader: "shutdown_moves (Suc k, b, n) (k, b, readLoop_body ifc res n)"
| drain: "n_frameBuffer n \<noteq> [] \<Longrightarrow> map_range (env_rng e) \<Longrightarrow> processFrames_iter e n = Some n' \<Longrightarrow> shutdown_moves (k, True, n) (k, True, n')"
| leave: "shutdown_moves (k, True, n) (k, False, n)"

inductive_cases shutdown_movesE: "shutdown_moves x y"

text \<open>A step of the frame loops uses up a reader, a queued frame or the event loop.\<close>

fun shutdown_work :: "nat \<times> bool \<times> node \<Rightarrow> nat" where
  "shutdown_work (k, b, n) = 2 * k + length (n_frameBuffer n) + (if b then 1 else 0)"

lemma length_readLoop_body: "length (n_frameBuffer (readLoop_body ifc res n)) \<le> Suc (length (n_frameBuffer n))"
  by (simp add: readLoop_body_def Let_def split: option.split)

lemma drain_queue:
  assumes "processFrames_iter e n = Some n'" and "n_frameBuffer n \<noteq> []" and "map_range (env_rng e)"
  shows "n_frameBuffer n' = tl (n_frameBuffer n)"
proof -
  obtain ev rest where q: "n_frameBuffer n = ev # rest" using assms(2) by (cases "n_frameBuffer n") auto
  have h: "handleFrame e ev (n\<lparr>n_frameBuffer := rest\<rparr>) = Some n'" using assms(1) q by (simp add: processFrames_iter_def)
  have "n_frameBuffer (n\<lparr>n_frameBuffer := rest\<rparr>) = rest" by simp
  from queue.kept_handleFrame[OF this assms(3) h] q show ?thesis by simp
qed

lemma shutdown_decreases: "shutdown_moves x y \<Longrightarrow> shutdown_work y < shutdown_work x"
proof (induction rule: shutdown_moves.induct)
  case (reader k b n ifc res)
  then show ?case using length_readLoop_body[of ifc res n] by simp
next
  case (drain n e n' k)
  then show ?case using drain_queue[of e n n'] by simp
qed simp

lemma shutdown_steps: "(shutdown_moves ^^ m) x y \<Longrightarrow> m + shutdown_work y \<le> shutdown_work x"
proof (induction m arbitrary: y)
  case (Suc m)
  then obtain z where "(shutdown_moves ^^ m) x z" "shutdown_moves z y" by auto
  then show ?case using Suc.IH[of z] shutdown_decreases[of z y] by simp
qed simp

lemma shutdown_stuck: "(\<nexists>y. shutdown_moves x y) \<longleftrightarrow> (\<exists>n. x = (0, False, n))"
proof
  assume stuck: "\<nexists>y. shutdown_moves x y"
  obtain k b n where x: "x = (k, b, n)" by (cases x)
  have "k = 0" using stuck shutdown_moves.reader unfolding x by (cases k) blast+
  moreover have "\<not> b" using stuck shutdown_moves.leave[of k n] unfolding x by (cases b) auto
  ultimately show "\<exists>n. x = (0, False, n)" using x by simp
qed (auto elim: shutdown_movesE)



end
