(* ===== verification/NodePolicy.thy ===== *)
theory NodePolicy
  imports NodeLoop PRPNetwork "HOL-Library.Sublist"
begin

text \<open>
  Properties of single operations of the node: restart detection, forwarding policy, proxy learning,
  own frames, supervision traffic, and the inputs on which a handler panics.
\<close>

unbundle bit_operations_syntax

section \<open>Restart detection\<close>

text \<open>The wrap-aware comparison of supervision sequence numbers.\<close>

lemma seq_regressed_iff: "seq_regressed prev seq \<longleftrightarrow> 32768 \<le> uint (seq - prev)"
proof -
  have "sint w < 0 \<longleftrightarrow> 32768 \<le> uint w" for w :: u16
  proof -
    have "sint w = (uint w + 32768) mod 65536 - 32768"
      by (simp add: sint_uint signed_take_bit_eq_take_bit_shift take_bit_eq_mod)
    moreover have "(u + 32768) mod 65536 = (if u < 32768 then u + 32768 else u - 32768)"
      if "0 \<le> u" "u < 65536" for u :: int
      using that mod_add_self2[of "u - 32768" 65536] by (auto simp: add.commute)
    ultimately show ?thesis using uint_u16_bounds[of w] by auto
  qed
  then show ?thesis by (simp add: seq_regressed_def)
qed

lemma handleSupervision_flush:
  assumes "SupParse (ev_frame ev) = Some (Some sf)" and "table_ok (n_dupTable n)"
  shows "\<exists>n'. handleSupervisionFrame e ev n = Some n'
    \<and> gm_get (n_supervisionSeqs n') (sf_SrcMAC sf) = Some (sf_Seq sf)
    \<and> gm_get (n_supervisionSeen n') (sf_SrcMAC sf) = Some (env_now e)
    \<and> (\<forall>now m s. Find now (n_dupTable n') m s \<longleftrightarrow> Find now (n_dupTable n) m s \<and>
        \<not> (m = sf_SrcMAC sf \<and> (\<exists>prev. gm_get (n_supervisionSeqs n) m = Some prev \<and> seq_regressed prev (sf_Seq sf))))"
proof -
  let ?n = "note_seq (sf_SrcMAC sf) (sf_Seq sf) (note_alive e ev (sf_SrcMAC sf) n)"
  have "gm_get (n_supervisionSeen ?n) (sf_SrcMAC sf) = Some (env_now e)"
    by (auto simp: note_seq_def note_alive_def Let_def split: option.split)
  moreover have "Find now (n_dupTable ?n) m s \<longleftrightarrow> Find now (n_dupTable n) m s \<and>
        \<not> (m = sf_SrcMAC sf \<and> (\<exists>prev. gm_get (n_supervisionSeqs n) m = Some prev \<and> seq_regressed prev (sf_Seq sf)))" for now m s
    using Find_FlushFor[OF assms(2), of now "sf_SrcMAC sf" m s] by (auto simp: note_fields split: option.split)
  moreover have "handleSupervisionFrame e ev n = Some ?n" using assms(1) by (simp add: handleSupervisionFrame_notes)
  ultimately show ?thesis by (auto simp: note_fields)
qed

text \<open>
  C15. Restart detection: a supervision frame of a known peer forgets exactly that peer's pairs, and
  does so exactly when its sequence number lies behind the last one by up to half the 16-bit range
  (wrap-around included); every other pair, and every pair of a peer that merely moved on, stays.
\<close>

theorem restart_flushes_peer:
  assumes "SupParse (ev_frame ev) = Some (Some sf)" and "table_ok (n_dupTable n)"
    and "gm_get (n_supervisionSeqs n) (sf_SrcMAC sf) = Some prev"
  shows "\<exists>n'. handleSupervisionFrame e ev n = Some n'
    \<and> gm_get (n_supervisionSeqs n') (sf_SrcMAC sf) = Some (sf_Seq sf)
    \<and> (\<forall>now m s. Find now (n_dupTable n') m s \<longleftrightarrow> Find now (n_dupTable n) m s \<and>
        \<not> (m = sf_SrcMAC sf \<and> 32768 \<le> uint (sf_Seq sf - prev)))"
  using handleSupervision_flush[OF assms(1,2), of e] assms(3) seq_regressed_iff by fastforce

lemma restart_flushes_peer_witness:
  "\<exists>n'. handleSupervisionFrame (ex_env 9) (mk_event ''lan_a'' (BuildRCTed [2, 0, 0, 0, 0, 8] 1 0))
      ((dup_Insert (ex_env 5) (mac_string [2, 0, 0, 0, 0, 8]) 3 0 (ex_node ''prp-san'' 1))
        \<lparr>n_supervisionSeqs := [(mac_string [2, 0, 0, 0, 0, 8], 40)]\<rparr>) = Some n'
    \<and> \<not> Find 9 (n_dupTable n') (mac_string [2, 0, 0, 0, 0, 8]) 3"
proof -
  let ?mac = "[2, 0, 0, 0, 0, 8] :: bytes" and ?ev = "mk_event ''lan_a'' (BuildRCTed [2, 0, 0, 0, 0, 8] 1 0)"
  let ?n = "(dup_Insert (ex_env 5) (mac_string ?mac) 3 0 (ex_node ''prp-san'' 1))\<lparr>n_supervisionSeqs := [(mac_string ?mac, 40)]\<rparr>"
  obtain sf where sf: "SupParse (ev_frame ?ev) = Some (Some sf)" "sf_SrcMAC sf = mac_string ?mac" "sf_Seq sf = 1"
  proof
    show "SupParse (ev_frame ?ev) = Some (Some \<lparr>sf_SrcMAC = mac_string ?mac, sf_Seq = 1, sf_Path = 0, sf_TLVType = 20,
        sf_MacAddrA = ?mac, sf_IsRedBox = False, sf_RedBoxMAC = replicate 6 0\<rparr>)"
      by code_simp
  qed simp_all
  have "table_ok (n_dupTable ?n)"
    by (simp add: dup_Insert_def) (intro table_ok_Insert table_ok_new, simp_all)
  moreover have "32768 \<le> uint (1 - 40 :: u16)" by code_simp
  ultimately show ?thesis
    using restart_flushes_peer[OF sf(1), of ?n 40 "ex_env 9"] sf(2,3) by auto
qed

section \<open>Own frames\<close>



section \<open>Forwarding policy\<close>

lemma list_all_prefix:
  "length p \<le> length f \<Longrightarrow> list_all (\<lambda>i. f ! i = p ! i) [0..<length p] \<longleftrightarrow> prefix p f"
  by (auto simp: list_all_iff prefix_def nth_append intro!: exI[of _ "drop (length p) f"] nth_equalityI)

lemma multicastAllowed_prefix:
  "multicastAllowed c f \<longleftrightarrow> take 6 f = replicate 6 0xff \<or> prefix (parseMulticastPattern (MulticastFirstOctet c)) f"
proof -
  have ff: "6 \<le> length f \<and> list_all (\<lambda>b. b = 0xff) (gslice 0 6 f) \<longleftrightarrow> take 6 f = replicate 6 0xff"
  proof
    assume "6 \<le> length f \<and> list_all (\<lambda>b. b = 0xff) (gslice 0 6 f)"
    then show "take 6 f = replicate 6 0xff"
      by (intro replicate_eqI) (auto simp: gslice_def list_all_iff)
  next
    assume a: "take 6 f = replicate 6 0xff"
    then have "length (take 6 f) = 6" by simp
    then have "6 \<le> length f" by simp
    with a show "6 \<le> length f \<and> list_all (\<lambda>b. b = 0xff) (gslice 0 6 f)"
      by (auto simp: gslice_def list_all_iff)
  qed
  show ?thesis
    unfolding multicastAllowed_def ff Let_def using list_all_prefix by (auto simp: not_less dest: prefix_length_le)
qed

text \<open>
  C32. The forwarding policy of \<open>forward_all = false\<close>: a frame goes to the interlink exactly if it is a
  broadcast, a multicast whose destination starts with the configured prefix (every multicast when
  the pattern is empty or malformed), or a unicast to a SAN last heard on the interlink within
  the proxy lifetime.
\<close>

theorem forwarding_policy:
  assumes "\<not> ForwardAll (n_Config n)" and "0 \<le> n_proxyTableForget n" and "n_proxyTableForget n < maxDuration"
  shows "shouldForwardToInterlink e n f \<longleftrightarrow>
    (if IsMulticastMAC f
     then take 6 f = replicate 6 0xff \<or> prefix (parseMulticastPattern (MulticastFirstOctet (n_Config n))) f
     else (\<exists>t. gm_get (n_proxyTable n) (GetDstMAC f) = Some t \<and> env_now e - t \<le> n_proxyTableForget n))"
  using assms time_Sub_le_iff[of "n_proxyTableForget n" "env_now e"]
  by (auto simp: shouldForwardToInterlink_def multicastAllowed_prefix minDuration_def maxDuration_def split: option.split)

definition ex_filtering :: "string \<Rightarrow> node" where
  "ex_filtering pat = (ex_node ''prp-san'' 1)\<lparr>n_Config := (ex_cfg ''prp-san'')\<lparr>ForwardAll := False, MulticastFirstOctet := pat\<rparr>\<rparr>"

lemma forwarding_policy_witness:
  "shouldForwardToInterlink (ex_env 0) (ex_filtering ''01-00-5E'') ex_frame
    \<and> \<not> shouldForwardToInterlink (ex_env 0) (ex_filtering ''33-33'') ex_frame"
proof -
  have "\<not> ForwardAll (n_Config (ex_filtering p))" "0 \<le> n_proxyTableForget (ex_filtering p)"
    "n_proxyTableForget (ex_filtering p) < maxDuration" for p
    by (simp_all add: ex_filtering_def ex_node_def SetNodeMAC_def NewNode_def ex_cfg_def or_default_def ms_dur_def i64_def maxDuration_def)
  note pol = forwarding_policy[OF this, where e = "ex_env 0" and f = ex_frame]
  have "IsMulticastMAC ex_frame" "take 6 ex_frame \<noteq> replicate 6 0xff"
    "parseMulticastPattern (MulticastFirstOctet (n_Config (ex_filtering ''01-00-5E''))) = [0x01, 0x00, 0x5e]"
    "parseMulticastPattern (MulticastFirstOctet (n_Config (ex_filtering ''33-33''))) = [0x33, 0x33]"
    by code_simp+
  moreover have "prefix [0x01, 0x00, 0x5e] ex_frame" "\<not> prefix [0x33, 0x33] ex_frame" by (simp_all add: ex_frame_def)
  ultimately show ?thesis using pol by simp
qed

text \<open>
  Proxy learning: once a frame of a SAN has passed from the interlink to the LANs, unicast
  frames to that SAN are forwarded to the interlink until the proxy lifetime is over, whatever the
  policy.
\<close>

theorem proxy_learning:
  assumes "handleInterlinkFrame e ev n = Some n'" and "VLANFilter (n_Config n) = []" and "12 \<le> length (ev_frame ev)"
    and "take 6 g = gslice 6 12 (ev_frame ev)" and "\<not> IsMulticastMAC g"
    and "env_now e' - env_now e \<le> n_proxyTableForget n" and "0 \<le> n_proxyTableForget n" and "n_proxyTableForget n < maxDuration"
  shows "shouldForwardToInterlink e' n' g"
proof -
  let ?src = "GetSrcMAC (ev_frame ev)"
  define n1 where "n1 = learnProxy e ?src (countFrame ''interlink'' ''in'' n)"
  define n2 where "n2 = n1\<lparr>n_seqMgr := snd (sm_Next (n_seqMgr n1) ?src)\<rparr>"
  have quiet: "n_proxyTable n' = n_proxyTable n1 \<and> n_proxyTableForget n' = n_proxyTableForget n1"
  proof -
    have eq: "n_proxyTable b = n_proxyTable a \<and> n_proxyTableForget b = n_proxyTableForget a" if "quiet b = quiet a" for a b
      using that quiet_fields(4,5) by metis
    have "n_proxyTable n2 = n_proxyTable n1" "n_proxyTableForget n2 = n_proxyTableForget n1" by (simp_all add: n2_def)
    moreover have "quiet n' = quiet n1 \<or> quiet n' = quiet n2"
      using assms(1-3) unfolding handleInterlinkFrame_def Let_def
      by (auto simp: n1_def[symmetric] case_prod_beta n2_def[symmetric] node_simps split: bind_splits if_splits
          dest!: port_Write_core write_count_core simp: same_core_def)
    ultimately show ?thesis using eq by metis
  qed
  have "12 \<le> length (ev_frame ev)" by (rule assms(3))
  then have "length (take 6 g) = 6" using assms(4) by (simp add: gslice_def)
  then have l: "6 \<le> length g" by simp
  have nth: "g ! i = ev_frame ev ! (6 + i)" if "i < 6" for i
    using arg_cong[OF assms(4), of "\<lambda>xs. xs ! i"] that assms(3) by (simp add: gslice_def)
  have "GetDstMAC g = ?src"
    using l assms(3) nth[of 0] nth[of 1] nth[of 2] nth[of 3] nth[of 4] nth[of 5] by (simp add: GetDstMAC_def GetSrcMAC_def)
  moreover have "n_proxyTableForget n1 = n_proxyTableForget n" by (simp add: n1_def learnProxy_def countFrame_def)
  ultimately show ?thesis
    using quiet assms(5-8) time_Sub_le_iff[of "n_proxyTableForget n" "env_now e'" "env_now e"]
    by (simp add: shouldForwardToInterlink_def n1_def learnProxy_def minDuration_def maxDuration_def)
qed

lemma proxy_learning_witness:
  "\<exists>n'. handleInterlinkFrame (ex_env 0) (mk_event ''interlink'' ex_frame) (ex_filtering '''') = Some n'
    \<and> shouldForwardToInterlink (ex_env 64000000000) n' [0x02, 0, 0, 0, 0, 8]"
proof -
  let ?n = "ex_filtering ''''" and ?ev = "mk_event ''interlink'' ex_frame"
  have n: "VLANFilter (n_Config ?n) = []" "0 \<le> n_proxyTableForget ?n" "n_proxyTableForget ?n < maxDuration"
    "n_proxyTableForget ?n = 64000000000" "bound PLanA ?n" "bound PLanB ?n"
    by (simp_all add: ex_filtering_def ex_node_def SetNodeMAC_def NewNode_def ex_cfg_def or_default_def ms_dur_def
        i64_def maxDuration_def ex_port_def)
  obtain n' where n': "handleInterlinkFrame (ex_env 0) ?ev ?n = Some n'"
    using handleInterlinkFrame_Some[OF n(5,6), of ?ev "ex_env 0"] by (auto simp: ex_frame_def)
  have "12 \<le> length (ev_frame ?ev)" "take 6 [0x02, 0, 0, 0, 0, 8] = gslice 6 12 (ev_frame ?ev)"
    "\<not> IsMulticastMAC [0x02, 0, 0, 0, 0, 8]" by code_simp+
  then show ?thesis
    using proxy_learning[OF n' n(1), of "[0x02, 0, 0, 0, 0, 8]" "ex_env 64000000000"] n n' by simp
qed

section \<open>Supervision traffic\<close>

lemma BuildRCTed_shape:
  assumes "length mac = 6"
  obtains r where "BuildRCTed mac q l = sup_frame mac SupVersion q LifeCheckDD @ r"
  using SupBuild_frame[OF assms, of q] by (simp add: BuildRCTed_def Let_def)

lemma GetEtherType_supervision:
  assumes "length mac = 6"
  shows "GetEtherType (sup_frame mac w q tlv @ r) = 0x88fb"
proof -
  have "put16 (0x88fb :: u16) = [0x88, 0xfb]" by code_simp
  then have eq: "sup_frame mac w q tlv @ r =
      (supMulticast @ mac) @ put16 0x88fb @ (put16 w @ put16 q @ [tlv, 6] @ mac @ replicate 34 0 @ r)"
    by (simp add: sup_frame_def)
  have "eth_hdr (supMulticast @ mac)" "\<not> is_tpid 0x88fb"
    using assms by (simp_all add: eth_hdr_def supMulticast_def is_tpid_def)
  then show ?thesis unfolding eq by (rule GetEtherType_hdr)
qed

lemma supervision_received:
  assumes "length mac = 6" and "role_of (n_Config b) \<noteq> RoleHSRHSR" and "table_ok (n_dupTable b)"
    and "is_lan (ev_iface ev)" and "ev_frame ev = BuildRCTed mac q l"
  shows "\<exists>b'. handleFrame e ev b = Some b' \<and> (\<forall>p. sent p b' = sent p b)
    \<and> gm_get (n_supervisionSeen b') (mac_string mac) = Some (env_now e)
    \<and> gm_get (n_supervisionSeqs b') (mac_string mac) = Some q"
proof -
  obtain r where r: "ev_frame ev = sup_frame mac SupVersion q LifeCheckDD @ r"
    using BuildRCTed_shape[OF assms(1)] assms(5) by metis
  obtain sf where sf: "SupParse (ev_frame ev) = Some (Some sf)" "sf_SrcMAC sf = mac_string mac" "sf_Seq sf = q"
    using SupParse_frame[OF assms(1), of LifeCheckDD SupVersion q r] r by (simp add: LifeCheckDD_def)
  then obtain b' where b': "handleSupervisionFrame e ev b = Some b'"
    "gm_get (n_supervisionSeqs b') (mac_string mac) = Some q" "gm_get (n_supervisionSeen b') (mac_string mac) = Some (env_now e)"
    using handleSupervision_flush[OF sf(1) assms(3), of e] by auto
  have "sent p b' = sent p b" "n_Config b' = n_Config b" for p
    using b'(1) sf(1) by (auto simp: handleSupervisionFrame_notes sent_def note_fields)
  moreover have "14 \<le> length (ev_frame ev)" using r length_sup_frame[OF assms(1)] by simp
  moreover have "is_supervision (n_Config b) ev"
    using assms(4) r GetEtherType_supervision[OF assms(1)] by (auto simp: is_supervision_def is_lan_def)
  ultimately show ?thesis using b' assms(2) by (simp add: handleFrame_def role_predicates)
qed

lemma write_only_spec:
  assumes "bound p n" and "f \<noteq> []" and "\<forall>p f. env_wr e p f"
  shows "\<exists>n'. write_only e p f n = Some n' \<and> (\<forall>q. sent q n' = sent q n @ (if q = p then [f] else [])) \<and> same_core n n'"
  by (rule port_Write_spec[OF assms(1,2), where e = e]) (use assms(3) in \<open>auto simp: write_only_def wrote_def\<close>)

lemma SendSupervision_PRP:
  assumes "role_of (n_Config a) = RolePRPSan" and "n_mac a = Some mac"
    and "bound PLanA a" and "bound PLanB a" and "\<forall>p f. env_wr e p f"
  shows "\<exists>a'. SendSupervisionFrame e a = Some a'
    \<and> sent PLanA a' = sent PLanA a @ [BuildRCTed mac (n_supSeq a + 1) 0]
    \<and> sent PLanB a' = sent PLanB a @ [BuildRCTed mac (n_supSeq a + 1) 1]"
proof -
  let ?q = "n_supSeq a + 1"
  define n0 where "n0 = a\<lparr>n_supSeq := ?q\<rparr>"
  have ne: "BuildRCTed mac ?q l \<noteq> []" for l by (simp add: BuildRCTed_def Let_def put16_def)
  have n0: "bound PLanA n0" "bound PLanB n0" "sent p n0 = sent p a" for p
    using assms(3,4) by (cases p; simp add: n0_def sent_def)+
  obtain n1 where n1: "write_only e PLanA (BuildRCTed mac ?q 0) n0 = Some n1"
    "\<forall>p. sent p n1 = sent p n0 @ (if p = PLanA then [BuildRCTed mac ?q 0] else [])" "same_core n0 n1"
    using write_only_spec[OF n0(1) ne assms(5)] by blast
  then have "bound PLanB n1" using same_coreD(7) n0(2) by blast
  then obtain n2 where n2: "write_only e PLanB (BuildRCTed mac ?q 1) n1 = Some n2"
    "\<forall>p. sent p n2 = sent p n1 @ (if p = PLanB then [BuildRCTed mac ?q 1] else [])"
    using write_only_spec[OF _ ne assms(5)] by blast
  have "SendSupervisionFrame e a = Some (bump_supSent n2)"
    using assms(1,2) n1(1) n2(1) by (simp add: SendSupervisionFrame_def role_predicates Let_def n0_def)
  moreover have "sent p (bump_supSent n2) = sent p n2" for p by (cases p) (simp_all add: bump_supSent_def sent_def)
  ultimately show ?thesis using n0(3) n1(2) n2(2) by auto
qed

text \<open>
  C31. Supervision end to end: a PRP node with a 6-byte address sends one supervision frame per LAN,
  with the next sequence number; the peer that receives either copy marks the sender as alive at
  the time of reception, records that number and forwards nothing.
\<close>

theorem supervision_end_to_end:
  assumes "role_of (n_Config a) = RolePRPSan" and "n_mac a = Some mac" and "length mac = 6"
    and "bound PLanA a" and "bound PLanB a" and "\<forall>p f. env_wr e p f"
    and "role_of (n_Config b) \<noteq> RoleHSRHSR" and "table_ok (n_dupTable b)" and "is_lan ifc"
  shows "\<exists>a' fA fB. SendSupervisionFrame e a = Some a' \<and> sent PLanA a' = sent PLanA a @ [fA] \<and> sent PLanB a' = sent PLanB a @ [fB]
    \<and> (\<forall>f \<in> {fA, fB}. \<exists>b'. handleFrame e' (mk_event ifc f) b = Some b' \<and> (\<forall>p. sent p b' = sent p b)
        \<and> gm_get (n_supervisionSeen b') (mac_string mac) = Some (env_now e')
        \<and> gm_get (n_supervisionSeqs b') (mac_string mac) = Some (n_supSeq a + 1))"
proof -
  obtain a' where a': "SendSupervisionFrame e a = Some a'"
    "sent PLanA a' = sent PLanA a @ [BuildRCTed mac (n_supSeq a + 1) 0]"
    "sent PLanB a' = sent PLanB a @ [BuildRCTed mac (n_supSeq a + 1) 1]"
    using SendSupervision_PRP[OF assms(1,2,4-6)] by blast
  have "\<exists>b'. handleFrame e' (mk_event ifc (BuildRCTed mac (n_supSeq a + 1) l)) b = Some b' \<and> (\<forall>p. sent p b' = sent p b)
        \<and> gm_get (n_supervisionSeen b') (mac_string mac) = Some (env_now e')
        \<and> gm_get (n_supervisionSeqs b') (mac_string mac) = Some (n_supSeq a + 1)" for l
    by (rule supervision_received[OF assms(3,7,8)]) (use assms(9) in simp_all)
  with a' show ?thesis by blast
qed

lemma supervision_end_to_end_witness:
  "\<exists>a' fA. SendSupervisionFrame (ex_env 0) (ex_node ''prp-san'' 1) = Some a' \<and> sent PLanA a' = [fA]
    \<and> (\<exists>b'. handleFrame (ex_env 3) (mk_event ''lan_a'' fA) (ex_node ''prp-san'' 2) = Some b'
        \<and> gm_get (n_supervisionSeen b') (mac_string [2, 0, 0, 0, 0, 1]) = Some 3)"
  using supervision_end_to_end[of "ex_node ''prp-san'' 1" "[2, 0, 0, 0, 0, 1]" "ex_env 0" "ex_node ''prp-san'' 2" "''lan_a''" "ex_env 3"]
  by (fastforce simp: table_ok_new is_lan_def)

section \<open>Inputs that panic\<close>

lemma GetEtherType_12: "14 \<le> length f \<Longrightarrow> \<not> is_tpid (get16 f 12) \<Longrightarrow> GetEtherType f = get16 f 12"
  by (simp add: GetEtherType_def GetEtherType_loop.simps[of _ 12] is_tpid_def)

text \<open>
  C40. A short supervision frame stops the daemon: on a LAN or ring port of any role, a frame of 20
  to 25 bytes with the supervision address and EtherType makes the event loop panic.
\<close>

theorem short_supervision_panics:
  assumes "20 \<le> length f" and "length f < 26" and "take 6 f = supMulticast" and "f ! 12 = 0x88" and "f ! 13 = 0xfb"
    and "is_lan ifc"
  shows "handleFrame e (mk_event ifc f) n = None"
proof -
  have et: "get16 f 12 = 0x88fb" using assms(4,5) by (simp add: get16_def Uint16_def)
  then have "GetEtherType f = 0x88fb" using assms(1) by (subst GetEtherType_12) (simp_all add: is_tpid_def)
  moreover have "SupParse f = None" using assms(1-5) by (simp add: SupParse_None_iff)
  ultimately show ?thesis
    using assms(1,6) by (auto simp: handleFrame_def is_supervision_def is_lan_def handleSupervisionFrame_notes)
qed

lemma short_supervision_panics_witness:
  "handleFrame (ex_env 0) (mk_event ''lan_a'' (supMulticast @ replicate 6 2 @ [0x88, 0xfb] @ replicate 6 0)) (ex_node ''prp-san'' 1) = None"
  by (rule short_supervision_panics) (simp_all add: supMulticast_def is_lan_def nth_append)

text \<open>
  An hsr-san node without an interlink port panics on the first multicast data frame it should
  deliver: nothing between configuration and handler requires the port the handler writes to.
\<close>

theorem hsr_san_without_interlink_panics:
  assumes "role_of (n_Config n) = RoleHSRSan" and "n_Interlink n = None" and "bound PLanA n" and "bound PLanB n"
    and "ForwardAll (n_Config n)" and "DecodeHSR f = Inr (path, s, encap, payload)" and "f ! 0 AND 1 = 1"
    and "\<not> own_frame n f" and "\<not> dup_Find e n (GetSrcMAC f) s" and "is_lan ifc" and "GetEtherType f \<noteq> 0x88fb"
  shows "handleFrame e (mk_event ifc f) n = None"
proof -
  let ?src = "GetSrcMAC f"
  define n1 where "n1 = learnRingMember e ?src (dup_Insert e ?src s 0 (countFrame ifc ''in'' n))"
  obtain orig where orig: "StripHSR f = Inr orig" "14 \<le> length orig" using StripHSR_decoded[OF assms(6)] .
  have long: "20 \<le> length f" by (rule DecodeHSR_long[OF assms(6)])
  obtain g where g: "RewriteHSRPathLane f (other_port ifc = PLanA) = Inr g" "g \<noteq> []"
    using DecodeHSR_lane[OF assms(6)] long by (metis list.size(3) not_numeral_le_zero)
  have b: "bound (other_port ifc) n1"
    using assms(3,4) by (simp add: n1_def node_simps other_port_def)
  obtain n2 where n2: "write_count e (other_port ifc) (if ifc = ''lan_b'' then ''lan_a'' else ''lan_b'') g n1 = Some n2"
    "same_core n1 n2" using write_count_spec[OF b g(2)] by metis
  have c2: "n_Config n2 = n_Config n" "n_Interlink n2 = None"
    using same_coreD(1,8)[OF n2(2)] assms(2) by (simp_all add: n1_def node_simps)
  have "\<not> unicastToRingMember n2 (take 6 f)" using assms(7) long by (simp add: unicastToRingMember_def)
  then have "hsrDeliver e f path s payload n2 = None"
    using assms(1,5) orig c2 by (simp add: hsrDeliver_def role_predicates shouldForwardToInterlink_def write_count_None)
  then have "handleIncomingHSRFrame e (mk_event ifc f) n = None"
    using assms(6,8,9) g n2(1)
    by (auto simp: handleIncomingHSRFrame_def node_simps Let_def n1_def other_port_def split: if_splits)
  then show ?thesis
    using long assms(1,10,11) by (auto simp: handleFrame_def is_supervision_def is_lan_def role_predicates)
qed

lemma hsr_san_without_interlink_panics_witness:
  "handleFrame (ex_env 0) (mk_event ''lan_a'' (the (hsrBody ex_frame 0 4))) ((ex_node ''hsr-san'' 1)\<lparr>n_Interlink := None\<rparr>) = None"
proof -
  let ?f = "the (hsrBody ex_frame 0 4)" and ?n = "(ex_node ''hsr-san'' 1)\<lparr>n_Interlink := None\<rparr>"
  have "DecodeHSR ?f = Inr (0, 4, 0x0800, [1, 2, 3])" "?f ! 0 AND 1 = 1" "\<not> own_frame ?n ?f"
    "\<not> dup_Find (ex_env 0) ?n (GetSrcMAC ?f) 4" "GetEtherType ?f \<noteq> 0x88fb"
    by code_simp+
  then show ?thesis
    by (intro hsr_san_without_interlink_panics) (simp_all add: is_lan_def)
qed

text \<open>
  Truncated VLAN frames from the SAN: with a VLAN filter, a PRP node panics on a tagged frame of
  14 or 15 bytes; an hsr-san node panics on a tagged frame of 14 to 17 bytes.
\<close>

theorem short_vlan_panics:
  assumes "IsVLANFrame f"
    and "(role_of (n_Config n) = RolePRPSan \<and> VLANFilter (n_Config n) \<noteq> [] \<and> length f < 16)
      \<or> (role_of (n_Config n) = RoleHSRSan \<and> length f < 18)"
  shows "handleFrame e (mk_event ''interlink'' f) n = None"
  using assms IsVLANFrame_14[OF assms(1)]
  by (auto simp: handleFrame_def is_supervision_def role_predicates handleInterlinkFrame_def handleHSRInterlinkFrame_def
      GetVLANID_def hsrBody_def Let_def node_simps case_prod_beta)

lemma short_vlan_panics_witness:
  "handleFrame (ex_env 0) (mk_event ''interlink'' (replicate 12 2 @ [0x81, 0x00, 0, 5])) (ex_node ''hsr-san'' 1) = None"
proof -
  have "IsVLANFrame (replicate 12 2 @ [0x81, 0x00, 0, 5])" by code_simp
  then show ?thesis by (rule short_vlan_panics) simp
qed

end
