(* ===== verification/ConfigLoad.thy ===== *)
theory ConfigLoad
  imports Node
begin

text \<open>
  \<open>internal/config/config.go\<close>, and the part of \<open>cmd/prpd/main.go\<close> that turns the loaded
  configuration into the configuration of the node.

  The nested structs of the YAML file are one record, its field names carrying the section. What the
  code asks of the outside is the record \<open>sysenv\<close>: the file, the decoder of \<open>gopkg.in/yaml.v3\<close>, the
  host name and its SHA-256, the environment variables, \<open>net.ParseCIDR\<close> and \<open>time.ParseDuration\<close>.
  Every theorem holds for all of them. An error is a left value that carries what the message shows.
\<close>

record YamlConfig =
  y_Node_Name :: string
  y_Node_Role :: string
  y_LanA :: string
  y_LanB :: string
  y_Interlink :: string
  y_IPv4_LanA :: string
  y_IPv4_LanB :: string
  y_IPv4_Interlink :: string
  y_HSR_PRPID :: int
  y_HSR_LanID :: string
  y_PRP_PRPID :: int
  y_TrailerEnabled :: bool
  y_Sup_Enabled :: bool
  y_LifeCheckInterval :: string
  y_NodeForgetTime :: string
  y_ProxyNodeForgetTime :: string
  y_EntryForgetTime :: string
  y_MaxNodeTableSize :: int
  y_FirstOctet :: string
  y_ForwardAll :: bool
  y_VLANFilter :: "int list"

text \<open>\<open>sys_ParseCIDR\<close> gives the address; \<open>sys_ports\<close> is the order in which the range over the map of
  port addresses visits its three keys.\<close>

datatype ipv4_port = IPv4LanA | IPv4LanB | IPv4Interlink

record sysenv =
  sys_ReadFile :: "string \<Rightarrow> bytes option"
  sys_Unmarshal :: "bytes \<Rightarrow> YamlConfig option"
  sys_Hostname :: string
  sys_Sum256 :: "string \<Rightarrow> bytes"
  sys_Getenv :: "string \<Rightarrow> string"
  sys_ParseCIDR :: "string \<Rightarrow> bytes option"
  sys_ParseDuration :: "string \<Rightarrow> int option"
  sys_ports :: "ipv4_port list"

datatype config_error =
    ReadConfig string
  | ParseConfig
  | InvalidRole string
  | LansMissing
  | InterlinkRequired
  | LanIDRequired string
  | PRPIDRequired int
  | InvalidFirstOctet string
  | InvalidPortIP ipv4_port string
  | InvalidPRP_ROLE string
  | InvalidHSR_LAN_ID string
  | InvalidHSR_PRP_ID string
  | InvalidEnvIP ipv4_port string

named_theorems load_iff \<open>when a stage of a load succeeds\<close>

section \<open>Validation helpers\<close>

text \<open>\<open>True\<close> is the nil error. \<open>ParseCIDR\<close> returns a network whenever it returns no error.\<close>

definition validateCIDR :: "sysenv \<Rightarrow> string \<Rightarrow> bool" where
  "validateCIDR sys s = (case sys_ParseCIDR sys s of None \<Rightarrow> False | Some ip \<Rightarrow> To4 ip \<noteq> None)"

definition normalizeHex :: "string \<Rightarrow> string" where
  "normalizeHex s =
     (let hex = map ascii_lower s;
          hex = trimPrefix0x hex;
          hex = filter (\<lambda>c. c \<noteq> CHR ''-'') hex
      in filter (\<lambda>c. c \<noteq> CHR '':'') hex)"

definition validMulticastPattern :: "string \<Rightarrow> bool" where
  "validMulticastPattern s =
     (let hex = normalizeHex s in
        if hex = '''' \<or> length hex > 12 \<or> length hex mod 2 \<noteq> 0 then False
        else list_all (\<lambda>r. (48 \<le> (of_char r :: nat) \<and> of_char r \<le> (57 :: nat))
                         \<or> (97 \<le> (of_char r :: nat) \<and> of_char r \<le> (102 :: nat))) hex)"

text \<open>\<open>strconv.Atoi\<close>: an optional sign, at least one decimal digit, nothing else, within 64 bits.\<close>

definition digits :: "string \<Rightarrow> int option" where
  "digits s =
     (if s \<noteq> [] \<and> list_all (\<lambda>c. 48 \<le> (of_char c :: nat) \<and> of_char c \<le> (57 :: nat)) s
      then Some (foldl (\<lambda>v c. 10 * v + (of_char c - 48)) 0 s) else None)"

definition Atoi :: "string \<Rightarrow> int option" where
  "Atoi s =
     (case (if s \<noteq> [] \<and> hd s \<in> {CHR ''+'', CHR ''-''} then digits (tl s) else digits s) of
        None \<Rightarrow> None
      | Some u \<Rightarrow>
        let v = (if s \<noteq> [] \<and> hd s = CHR ''-'' then - u else u)
        in if - (2 ^ 63) \<le> v \<and> v < 2 ^ 63 then Some v else None)"

section \<open>Load\<close>

text \<open>\<open>Load\<close> is a sequence of checks and updates of the decoded struct, each of which may return early.\<close>

fun and_then :: "'e + 'a \<Rightarrow> ('a \<Rightarrow> 'e + 'b) \<Rightarrow> 'e + 'b" where
  "and_then (Inl e) f = Inl e"
| "and_then (Inr x) f = f x"

definition known_roles :: "string list" where
  "known_roles = [''prp-san'', ''hsr-san'', ''hsr-prp'', ''hsr-hsr'']"

definition load_role :: "YamlConfig \<Rightarrow> config_error + YamlConfig" where
  "load_role c =
     (if y_Node_Role c = ''redbox'' then Inr (c\<lparr>y_Node_Role := ''prp-san''\<rparr>)
      else if y_Node_Role c \<in> set known_roles then Inr c
      else Inl (InvalidRole (y_Node_Role c)))"

definition load_checks :: "YamlConfig \<Rightarrow> config_error + YamlConfig" where
  "load_checks c =
     (if y_LanA c = '''' \<or> y_LanB c = '''' then Inl LansMissing
      else if y_Node_Role c = ''hsr-prp'' \<and> y_Interlink c = '''' then Inl InterlinkRequired
      else if y_Node_Role c = ''hsr-prp'' \<and> y_HSR_LanID c \<noteq> ''A'' \<and> y_HSR_LanID c \<noteq> ''B''
      then Inl (LanIDRequired (y_HSR_LanID c))
      else if y_Node_Role c = ''hsr-prp'' \<and> (y_HSR_PRPID c < 1 \<or> y_HSR_PRPID c > 6)
      then Inl (PRPIDRequired (y_HSR_PRPID c))
      else if y_FirstOctet c \<noteq> '''' \<and> \<not> validMulticastPattern (y_FirstOctet c)
      then Inl (InvalidFirstOctet (y_FirstOctet c))
      else Inr c)"

fun port_ip :: "ipv4_port \<Rightarrow> YamlConfig \<Rightarrow> string" where
  "port_ip IPv4LanA c = y_IPv4_LanA c"
| "port_ip IPv4LanB c = y_IPv4_LanB c"
| "port_ip IPv4Interlink c = y_IPv4_Interlink c"

fun set_port_ip :: "ipv4_port \<Rightarrow> string \<Rightarrow> YamlConfig \<Rightarrow> YamlConfig" where
  "set_port_ip IPv4LanA v c = c\<lparr>y_IPv4_LanA := v\<rparr>"
| "set_port_ip IPv4LanB v c = c\<lparr>y_IPv4_LanB := v\<rparr>"
| "set_port_ip IPv4Interlink v c = c\<lparr>y_IPv4_Interlink := v\<rparr>"

definition load_ips :: "sysenv \<Rightarrow> YamlConfig \<Rightarrow> config_error + YamlConfig" where
  "load_ips sys c =
     (case List.find (\<lambda>p. port_ip p c \<noteq> '''' \<and> \<not> validateCIDR sys (port_ip p c)) (sys_ports sys) of
        Some p \<Rightarrow> Inl (InvalidPortIP p (port_ip p c))
      | None \<Rightarrow> Inr c)"

definition derive_prp_id :: "sysenv \<Rightarrow> YamlConfig \<Rightarrow> YamlConfig" where
  "derive_prp_id sys c =
     (if y_PRP_PRPID c = 0 \<and> sys_Hostname sys \<noteq> ''''
      then let sum = sys_Sum256 sys (sys_Hostname sys);
               c = c\<lparr>y_PRP_PRPID := (256 * uint (sum ! 0) + uint (sum ! 1)) mod 65535 + 1\<rparr>
           in if y_Node_Name c = '''' then c\<lparr>y_Node_Name := sys_Hostname sys\<rparr> else c
      else c)"

definition env_role :: "sysenv \<Rightarrow> YamlConfig \<Rightarrow> config_error + YamlConfig" where
  "env_role sys c =
     (let role = sys_Getenv sys ''PRP_ROLE'' in
        if role = '''' then Inr c
        else if role = ''redbox'' then Inr (c\<lparr>y_Node_Role := ''prp-san''\<rparr>)
        else if role \<in> set known_roles then Inr (c\<lparr>y_Node_Role := role\<rparr>)
        else Inl (InvalidPRP_ROLE role))"

definition env_lan_id :: "sysenv \<Rightarrow> YamlConfig \<Rightarrow> config_error + YamlConfig" where
  "env_lan_id sys c =
     (let lanID = sys_Getenv sys ''HSR_LAN_ID'' in
        if lanID = '''' then Inr c
        else if lanID \<noteq> ''A'' \<and> lanID \<noteq> ''B'' then Inl (InvalidHSR_LAN_ID lanID)
        else Inr (c\<lparr>y_HSR_LanID := lanID\<rparr>))"

definition env_net_id :: "sysenv \<Rightarrow> YamlConfig \<Rightarrow> config_error + YamlConfig" where
  "env_net_id sys c =
     (let netID = sys_Getenv sys ''HSR_PRP_ID'' in
        if netID = '''' then Inr c
        else case Atoi netID of
            None \<Rightarrow> Inl (InvalidHSR_PRP_ID netID)
          | Some v \<Rightarrow> if v < 1 \<or> v > 6 then Inl (InvalidHSR_PRP_ID netID) else Inr (c\<lparr>y_HSR_PRPID := v\<rparr>))"

definition env_prp_id :: "sysenv \<Rightarrow> YamlConfig \<Rightarrow> YamlConfig" where
  "env_prp_id sys c =
     (let prpID = sys_Getenv sys ''PRP_PRP_ID'' in
        if prpID = '''' then c
        else case Atoi prpID of None \<Rightarrow> c | Some v \<Rightarrow> if v > 0 then c\<lparr>y_PRP_PRPID := v\<rparr> else c)"

definition env_ip :: "sysenv \<Rightarrow> string \<Rightarrow> ipv4_port \<Rightarrow> YamlConfig \<Rightarrow> config_error + YamlConfig" where
  "env_ip sys var p c =
     (let v = sys_Getenv sys var in
        if v = '''' then Inr c
        else if \<not> validateCIDR sys v then Inl (InvalidEnvIP p v)
        else Inr (set_port_ip p v c))"

definition env_overrides :: "sysenv \<Rightarrow> YamlConfig \<Rightarrow> config_error + YamlConfig" where
  "env_overrides sys c =
     and_then (env_role sys c) (\<lambda>c.
     and_then (env_lan_id sys c) (\<lambda>c.
     and_then (env_net_id sys c) (\<lambda>c.
     and_then (env_ip sys ''PRP_LAN_A_IP'' IPv4LanA (env_prp_id sys c)) (\<lambda>c.
     and_then (env_ip sys ''PRP_LAN_B_IP'' IPv4LanB c)
       (env_ip sys ''PRP_INTERLINK_IP'' IPv4Interlink)))))"

definition Load :: "sysenv \<Rightarrow> string \<Rightarrow> config_error + YamlConfig" where
  "Load sys path =
     (case sys_ReadFile sys path of
        None \<Rightarrow> Inl (ReadConfig path)
      | Some data \<Rightarrow>
        (case sys_Unmarshal sys data of
           None \<Rightarrow> Inl ParseConfig
         | Some c \<Rightarrow>
           and_then (load_role c) (\<lambda>c.
           and_then (load_checks c) (\<lambda>c.
           and_then (load_ips sys c) (\<lambda>c.
           env_overrides sys (derive_prp_id sys c))))))"

section \<open>The configuration of the node\<close>

text \<open>\<open>if d, err := time.ParseDuration(s); err == nil && d > 0 { field = int(d / time.Millisecond) }\<close>\<close>

definition duration_ms :: "sysenv \<Rightarrow> string \<Rightarrow> int" where
  "duration_ms sys s =
     (case sys_ParseDuration sys s of None \<Rightarrow> 0 | Some d \<Rightarrow> if d > 0 then d div 1000000 else 0)"

definition prpConfig :: "sysenv \<Rightarrow> YamlConfig \<Rightarrow> Config" where
  "prpConfig sys c =
     \<lparr>NodeName = y_Node_Name c, cfg_Role = y_Node_Role c, LanAInterface = y_LanA c, LanBInterface = y_LanB c,
      InterlinkInterface = y_Interlink c, cfg_LanID = y_HSR_LanID c, cfg_NetID = y_HSR_PRPID c,
      PRPID = y_PRP_PRPID c, TrailerEnabled = y_TrailerEnabled c,
      Debug = (sys_Getenv sys ''DEBUG_FRAMES'' = ''1''),
      ForwardAll = y_ForwardAll c, VLANFilter = y_VLANFilter c, MulticastFirstOctet = y_FirstOctet c,
      EntryForgetMs = duration_ms sys (y_EntryForgetTime c), MaxNodeTableSize = y_MaxNodeTableSize c,
      ProxyNodeForgetMs = duration_ms sys (y_ProxyNodeForgetTime c),
      NodeForgetMs = duration_ms sys (y_NodeForgetTime c)\<rparr>"

section \<open>The two readings of a multicast pattern\<close>

lemma normHex_eq: "normHex s = normalizeHex s"
  by (simp add: normHex_def normalizeHex_def)

lemma ascii_lower_not_upper: "\<not> (65 \<le> (of_char (ascii_lower c) :: nat) \<and> of_char (ascii_lower c) \<le> (90 :: nat))"
proof (cases "65 \<le> (of_char c :: nat) \<and> of_char c \<le> (90 :: nat)")
  case True
  then have "(of_char (ascii_lower c) :: nat) = of_char c + 32" by (simp add: ascii_lower_def)
  with True show ?thesis by simp
next
  case False
  then show ?thesis by (auto simp: ascii_lower_def)
qed

lemma normalizeHex_lower: "r \<in> set (normalizeHex s) \<Longrightarrow> \<not> (65 \<le> (of_char r :: nat) \<and> of_char r \<le> (90 :: nat))"
proof -
  assume "r \<in> set (normalizeHex s)"
  then have "r \<in> set (map ascii_lower s)"
    by (auto simp: normalizeHex_def trimPrefix0x_def Let_def simp del: set_map split: if_splits dest: in_set_dropD)
  then show ?thesis using ascii_lower_not_upper by auto
qed

lemma hexval_lower:
  assumes "\<not> (65 \<le> (of_char r :: nat) \<and> of_char r \<le> (90 :: nat))"
  shows "hexval r \<noteq> None \<longleftrightarrow> (48 \<le> (of_char r :: nat) \<and> of_char r \<le> (57 :: nat)) \<or> (97 \<le> (of_char r :: nat) \<and> of_char r \<le> (102 :: nat))"
  using assms by (auto simp: hexval_def Let_def)

lemma parse_pairs_total: "even (length s) \<Longrightarrow> parse_pairs s \<noteq> None \<longleftrightarrow> list_all (\<lambda>r. hexval r \<noteq> None) s"
  by (induction s rule: induct_list012) (auto split: option.splits bind_splits)

lemma parse_pairs_length: "parse_pairs s = Some out \<Longrightarrow> length s = 2 * length out"
  by (induction s arbitrary: out rule: parse_pairs.induct) (auto split: bind_splits)

lemma pattern_agreement: "validMulticastPattern s \<longleftrightarrow> parseMulticastPattern s \<noteq> []"
proof -
  let ?h = "normalizeHex s"
  have "validMulticastPattern s \<longleftrightarrow> ?h \<noteq> [] \<and> length ?h \<le> 12 \<and> even (length ?h) \<and> list_all (\<lambda>r. hexval r \<noteq> None) ?h"
    using hexval_lower[OF normalizeHex_lower[of _ s]]
    by (auto simp: validMulticastPattern_def Let_def list_all_iff even_iff_mod_2_eq_zero)
  moreover have "parseMulticastPattern s \<noteq> [] \<longleftrightarrow> ?h \<noteq> [] \<and> length ?h \<le> 12 \<and> even (length ?h) \<and> parse_pairs ?h \<noteq> None"
    using parse_pairs_length[of ?h "[]"]
    by (auto simp: parseMulticastPattern_def normHex_eq Let_def even_iff_mod_2_eq_zero split: option.splits)
  ultimately show ?thesis using parse_pairs_total[of ?h] by blast
qed

section \<open>What a loaded configuration satisfies\<close>

lemma and_then_Inr [load_iff]: "and_then x f = Inr z \<longleftrightarrow> (\<exists>y. x = Inr y \<and> f y = Inr z)"
  by (cases x) auto

lemma find_none_all: "List.find P xs = None \<Longrightarrow> set xs = UNIV \<Longrightarrow> \<not> P x"
  by (metis UNIV_I find_None_iff)

text \<open>What the checks before the environment variables establish; \<open>coupling_ready\<close> is what the role
  \<open>hsr-prp\<close> needs.\<close>

definition lans_and_pattern :: "YamlConfig \<Rightarrow> bool" where
  "lans_and_pattern c \<longleftrightarrow> y_LanA c \<noteq> '''' \<and> y_LanB c \<noteq> '''' \<and> (y_FirstOctet c = '''' \<or> parseMulticastPattern (y_FirstOctet c) \<noteq> [])"

definition ips_valid :: "sysenv \<Rightarrow> YamlConfig \<Rightarrow> bool" where
  "ips_valid sys c \<longleftrightarrow> (\<forall>p. port_ip p c = '''' \<or> validateCIDR sys (port_ip p c))"

definition coupling_ready :: "YamlConfig \<Rightarrow> bool" where
  "coupling_ready c \<longleftrightarrow> y_Interlink c \<noteq> '''' \<and> y_HSR_LanID c \<in> {''A'', ''B''} \<and> 1 \<le> y_HSR_PRPID c \<and> y_HSR_PRPID c \<le> 6"

definition file_valid :: "sysenv \<Rightarrow> YamlConfig \<Rightarrow> bool" where
  "file_valid sys c \<longleftrightarrow> y_Node_Role c \<in> set known_roles \<and> lans_and_pattern c \<and> ips_valid sys c
     \<and> (sys_Getenv sys ''PRP_ROLE'' = '''' \<longrightarrow> y_Node_Role c = ''hsr-prp'' \<longrightarrow> coupling_ready c)
     \<and> (sys_Hostname sys \<noteq> '''' \<longrightarrow> y_PRP_PRPID c \<noteq> 0)"

lemma ips_valid_cong:
  assumes "y_IPv4_LanA c' = y_IPv4_LanA c" and "y_IPv4_LanB c' = y_IPv4_LanB c" and "y_IPv4_Interlink c' = y_IPv4_Interlink c"
  shows "ips_valid sys c' = ips_valid sys c"
proof -
  have "port_ip p c' = port_ip p c" for p using assms by (cases p) simp_all
  then show ?thesis by (simp add: ips_valid_def)
qed

lemma derive_prp_id_fields:
  "y_Node_Role (derive_prp_id sys c) = y_Node_Role c" "lans_and_pattern (derive_prp_id sys c) = lans_and_pattern c"
  "ips_valid sys (derive_prp_id sys c) = ips_valid sys c" "coupling_ready (derive_prp_id sys c) = coupling_ready c"
proof -
  show "ips_valid sys (derive_prp_id sys c) = ips_valid sys c"
    by (rule ips_valid_cong) (simp_all add: derive_prp_id_def Let_def)
qed (simp_all add: derive_prp_id_def Let_def lans_and_pattern_def coupling_ready_def)

lemma derive_prp_id_nonzero:
  assumes "sys_Hostname sys \<noteq> ''''"
  shows "y_PRP_PRPID (derive_prp_id sys c) \<noteq> 0"
proof -
  have "0 \<le> (256 * uint a + uint b) mod 65535" for a b :: byte by simp
  then have "(256 * uint a + uint b) mod 65535 + 1 > 0" for a b :: byte by (simp add: add_nonneg_pos)
  then have "y_PRP_PRPID (derive_prp_id sys c) > 0 \<or> y_PRP_PRPID (derive_prp_id sys c) = y_PRP_PRPID c \<and> y_PRP_PRPID c \<noteq> 0"
    using assms unfolding derive_prp_id_def Let_def by simp
  then show ?thesis by auto
qed

lemma load_file_valid:
  assumes "load_role c = Inr c1" and "load_checks c1 = Inr c2" and "load_ips sys c2 = Inr c3" and "set (sys_ports sys) = UNIV"
  shows "file_valid sys (derive_prp_id sys c3)"
proof -
  have r: "y_Node_Role c1 \<in> set known_roles"
    using assms(1) by (auto simp: load_role_def known_roles_def split: if_splits)
  have c2: "c2 = c1" "lans_and_pattern c1" "y_Node_Role c1 = ''hsr-prp'' \<longrightarrow> coupling_ready c1"
    using assms(2) pattern_agreement[of "y_FirstOctet c1"]
    by (auto simp: load_checks_def lans_and_pattern_def coupling_ready_def split: if_splits)
  have "c3 = c2" "ips_valid sys c2"
    using assms(3) find_none_all[OF _ assms(4), of "\<lambda>p. port_ip p c2 \<noteq> '''' \<and> \<not> validateCIDR sys (port_ip p c2)"]
    by (auto simp: load_ips_def ips_valid_def split: option.splits)
  then show ?thesis
    using r c2 derive_prp_id_nonzero[of sys c3] by (simp add: file_valid_def derive_prp_id_fields)
qed

lemma env_ip_valid:
  assumes "env_ip sys var p c = Inr c'" and "file_valid sys c"
  shows "file_valid sys c'"
proof (cases "c' = c")
  case False
  define v where "v = sys_Getenv sys var"
  have c': "c' = set_port_ip p v c" "validateCIDR sys v"
    using assms(1) False by (auto simp: env_ip_def v_def Let_def split: if_splits)
  have "port_ip q c' = (if q = p then v else port_ip q c)" for q
    unfolding c' by (cases p; cases q) simp_all
  then have "ips_valid sys c'" using assms(2) c'(2) by (simp add: file_valid_def ips_valid_def)
  moreover have "y_Node_Role c' = y_Node_Role c" "lans_and_pattern c' = lans_and_pattern c"
    "coupling_ready c' = coupling_ready c" "y_PRP_PRPID c' = y_PRP_PRPID c"
    unfolding c' by (cases p; simp add: lans_and_pattern_def coupling_ready_def)+
  ultimately show ?thesis using assms(2) by (simp add: file_valid_def)
qed (use assms in simp)

lemma env_steps_valid:
  "env_role sys c = Inr c' \<Longrightarrow> file_valid sys c \<Longrightarrow> file_valid sys c'"
  "env_lan_id sys c = Inr c' \<Longrightarrow> file_valid sys c \<Longrightarrow> file_valid sys c'"
  "env_net_id sys c = Inr c' \<Longrightarrow> file_valid sys c \<Longrightarrow> file_valid sys c'"
  "file_valid sys c \<Longrightarrow> file_valid sys (env_prp_id sys c)"
proof -
  have r: "file_valid sys (c\<lparr>y_Node_Role := v\<rparr>)" if "file_valid sys c" "v \<in> set known_roles" "sys_Getenv sys ''PRP_ROLE'' \<noteq> ''''" for v
    using that ips_valid_cong[of "c\<lparr>y_Node_Role := v\<rparr>" c sys] by (simp add: file_valid_def lans_and_pattern_def)
  have l: "file_valid sys (c\<lparr>y_HSR_LanID := v\<rparr>)" if "file_valid sys c" "v \<in> {''A'', ''B''}" for v
    using that ips_valid_cong[of "c\<lparr>y_HSR_LanID := v\<rparr>" c sys]
    by (simp add: file_valid_def lans_and_pattern_def coupling_ready_def)
  have n: "file_valid sys (c\<lparr>y_HSR_PRPID := v\<rparr>)" if "file_valid sys c" "1 \<le> v" "v \<le> 6" for v
    using that ips_valid_cong[of "c\<lparr>y_HSR_PRPID := v\<rparr>" c sys]
    by (simp add: file_valid_def lans_and_pattern_def coupling_ready_def)
  have p: "file_valid sys (c\<lparr>y_PRP_PRPID := v\<rparr>)" if "file_valid sys c" "v > 0" for v
    using that ips_valid_cong[of "c\<lparr>y_PRP_PRPID := v\<rparr>" c sys]
    by (simp add: file_valid_def lans_and_pattern_def coupling_ready_def)
  show "env_role sys c = Inr c' \<Longrightarrow> file_valid sys c \<Longrightarrow> file_valid sys c'"
    using r[of "''prp-san''"] r[of "sys_Getenv sys ''PRP_ROLE''"]
    by (simp add: env_role_def Let_def known_roles_def split: if_splits)
  show "env_lan_id sys c = Inr c' \<Longrightarrow> file_valid sys c \<Longrightarrow> file_valid sys c'"
    using l[of "sys_Getenv sys ''HSR_LAN_ID''"] by (auto simp: env_lan_id_def Let_def split: if_splits)
  show "env_net_id sys c = Inr c' \<Longrightarrow> file_valid sys c \<Longrightarrow> file_valid sys c'"
    using n by (auto simp: env_net_id_def Let_def split: if_splits option.splits)
  show "file_valid sys c \<Longrightarrow> file_valid sys (env_prp_id sys c)"
    using p by (simp add: env_prp_id_def Let_def split: option.splits)
qed

lemma Load_stages:
  assumes "Load sys path = Inr c"
  shows "\<exists>data c0 c1 c2 c3. sys_ReadFile sys path = Some data \<and> sys_Unmarshal sys data = Some c0
    \<and> load_role c0 = Inr c1 \<and> load_checks c1 = Inr c2 \<and> load_ips sys c2 = Inr c3
    \<and> env_overrides sys (derive_prp_id sys c3) = Inr c"
  using assms unfolding Load_def by (fastforce simp only: load_iff split: option.splits)

lemma Load_valid:
  assumes "Load sys path = Inr c" and "set (sys_ports sys) = UNIV"
  shows "file_valid sys c"
proof -
  obtain c0 c1 c2 c3 where "load_role c0 = Inr c1" "load_checks c1 = Inr c2" "load_ips sys c2 = Inr c3"
    and e: "env_overrides sys (derive_prp_id sys c3) = Inr c"
    using Load_stages[OF assms(1)] by blast
  then have "file_valid sys (derive_prp_id sys c3)" using load_file_valid[OF _ _ _ assms(2)] by blast
  then show ?thesis
    using e unfolding env_overrides_def and_then_Inr
    by (elim exE conjE) (rule env_ip_valid, assumption, rule env_ip_valid, assumption, rule env_ip_valid, assumption,
        rule env_steps_valid(4), rule env_steps_valid(3), assumption, rule env_steps_valid(2), assumption,
        rule env_steps_valid(1), assumption)
qed

lemma ParseRole_known: "r \<in> set known_roles \<Longrightarrow> \<exists>role. ParseRole r = Inr role"
  by (auto simp: known_roles_def ParseRole_def)

text \<open>The files of the witnesses: two LANs, and an interlink for the coupling roles only.\<close>

definition ex_yaml :: "string \<Rightarrow> string \<Rightarrow> YamlConfig" where
  "ex_yaml role il =
     \<lparr>y_Node_Name = ''n1'', y_Node_Role = role, y_LanA = ''eth0'', y_LanB = ''eth1'', y_Interlink = il,
      y_IPv4_LanA = '''', y_IPv4_LanB = '''', y_IPv4_Interlink = '''', y_HSR_PRPID = 3, y_HSR_LanID = ''B'',
      y_PRP_PRPID = 0, y_TrailerEnabled = True, y_Sup_Enabled = True, y_LifeCheckInterval = '''', y_NodeForgetTime = '''',
      y_ProxyNodeForgetTime = '''', y_EntryForgetTime = '''', y_MaxNodeTableSize = 0, y_FirstOctet = ''01-0c'',
      y_ForwardAll = True, y_VLANFilter = []\<rparr>"

definition ex_sys :: "YamlConfig \<Rightarrow> (string \<Rightarrow> string) \<Rightarrow> sysenv" where
  "ex_sys c getenv =
     \<lparr>sys_ReadFile = (\<lambda>_. Some []), sys_Unmarshal = (\<lambda>_. Some c), sys_Hostname = ''prp-sim-1'',
      sys_Sum256 = (\<lambda>_. replicate 32 5), sys_Getenv = getenv, sys_ParseCIDR = (\<lambda>_. None),
      sys_ParseDuration = (\<lambda>_. None), sys_ports = [IPv4LanB, IPv4LanA, IPv4Interlink]\<rparr>"

lemma ex_sys_ports: "set (sys_ports (ex_sys c g)) = UNIV"
proof -
  have "p \<in> {IPv4LanB, IPv4LanA, IPv4Interlink}" for p by (cases p) simp_all
  then show ?thesis by (auto simp: ex_sys_def)
qed

lemma ex_pattern: "validMulticastPattern ''01-0c''"
  by code_simp

lemma ex_Load:
  assumes "role \<in> set known_roles" and "role = ''hsr-prp'' \<longrightarrow> il \<noteq> ''''"
  shows "Load (ex_sys (ex_yaml role il) (\<lambda>_. '''')) path = Inr ((ex_yaml role il)\<lparr>y_PRP_PRPID := 1286\<rparr>)"
proof -
  have "role \<noteq> ''redbox''" using assms(1) by (auto simp: known_roles_def)
  then show ?thesis using assms ex_pattern by (simp add: Load_def ex_sys_def load_role_def load_checks_def load_ips_def derive_prp_id_def env_overrides_def env_role_def
      env_lan_id_def env_net_id_def env_prp_id_def env_ip_def ex_yaml_def Let_def known_roles_def)
qed

text \<open>C16. What \<open>config.Load\<close> guarantees of a configuration it returns, for every file, decoder, host and
  environment, and any order of the map iteration: the role is one of the four that \<open>ParseRole\<close>
  knows, both LAN ports are named, a multicast pattern that is set is one the node can parse (a typo
  cannot silently disable the filter), every static address set in the file or in the environment
  is an IPv4 CIDR, the PRP id is not zero when the host has a name, and an \<open>hsr-prp\<close> role that comes
  from the file has an interlink, a LAN \<open>A\<close> or \<open>B\<close> and a NetId from 1 to 6, the environment's
  overrides included.\<close>

theorem load_guarantees:
  assumes "Load sys path = Inr c" and "set (sys_ports sys) = UNIV"
  shows "(\<exists>role. ParseRole (y_Node_Role c) = Inr role) \<and> y_LanA c \<noteq> '''' \<and> y_LanB c \<noteq> ''''
    \<and> (y_FirstOctet c = '''' \<or> parseMulticastPattern (y_FirstOctet c) \<noteq> [])
    \<and> (\<forall>p. port_ip p c = '''' \<or> validateCIDR sys (port_ip p c))
    \<and> (sys_Hostname sys = '''' \<or> y_PRP_PRPID c \<noteq> 0)
    \<and> (sys_Getenv sys ''PRP_ROLE'' = '''' \<and> y_Node_Role c = ''hsr-prp'' \<longrightarrow>
        y_Interlink c \<noteq> '''' \<and> y_HSR_LanID c \<in> {''A'', ''B''} \<and> 1 \<le> y_HSR_PRPID c \<and> y_HSR_PRPID c \<le> 6)"
  using Load_valid[OF assms] ParseRole_known[of "y_Node_Role c"]
  unfolding file_valid_def lans_and_pattern_def ips_valid_def coupling_ready_def by blast

theorem load_guarantees_witness:
  "\<exists>c. Load (ex_sys (ex_yaml ''hsr-prp'' ''eth2'') (\<lambda>_. '''')) ''/etc/prp/config.yaml'' = Inr c
     \<and> y_Node_Role c = ''hsr-prp'' \<and> y_Interlink c \<noteq> ''''"
proof -
  note l = ex_Load[of "''hsr-prp''" "''eth2''" "''/etc/prp/config.yaml''"]
  show ?thesis
    using l load_guarantees[OF l ex_sys_ports] by (simp add: known_roles_def ex_yaml_def ex_sys_def)
qed

lemma env_rest_role:
  assumes "sys_Getenv sys' = (sys_Getenv sys)(''PRP_ROLE'' := r)" and "sys_ParseCIDR sys' = sys_ParseCIDR sys"
  shows "env_lan_id sys' (c\<lparr>y_Node_Role := v\<rparr>) = map_sum id (\<lambda>c. c\<lparr>y_Node_Role := v\<rparr>) (env_lan_id sys c)"
    and "env_net_id sys' (c\<lparr>y_Node_Role := v\<rparr>) = map_sum id (\<lambda>c. c\<lparr>y_Node_Role := v\<rparr>) (env_net_id sys c)"
    and "env_prp_id sys' (c\<lparr>y_Node_Role := v\<rparr>) = (env_prp_id sys c)\<lparr>y_Node_Role := v\<rparr>"
    and "var \<noteq> ''PRP_ROLE'' \<Longrightarrow> env_ip sys' var p (c\<lparr>y_Node_Role := v\<rparr>) = map_sum id (\<lambda>c. c\<lparr>y_Node_Role := v\<rparr>) (env_ip sys var p c)"
proof -
  have "set_port_ip p w (c\<lparr>y_Node_Role := v\<rparr>) = (set_port_ip p w c)\<lparr>y_Node_Role := v\<rparr>" for w by (cases p) simp_all
  then show "var \<noteq> ''PRP_ROLE'' \<Longrightarrow> env_ip sys' var p (c\<lparr>y_Node_Role := v\<rparr>) = map_sum id (\<lambda>c. c\<lparr>y_Node_Role := v\<rparr>) (env_ip sys var p c)"
    using assms by (simp add: env_ip_def validateCIDR_def Let_def)
qed (use assms in \<open>simp_all add: env_lan_id_def env_net_id_def env_prp_id_def Let_def split: option.splits\<close>)

lemma and_then_map: "and_then (map_sum id f x) g = and_then x (g \<circ> f)"
  by (cases x) simp_all

text \<open>\<open>PRP_ROLE\<close> replaces the role after every check of the role has been made: whenever the file
  loads without it, it loads with \<open>PRP_ROLE\<close> set to any of the four roles, and the result differs in
  the role alone. So \<open>PRP_ROLE=hsr-prp\<close> or \<open>hsr-san\<close> turns a configuration without an interlink, or
  without a NetId, into one of a role that needs them.\<close>

theorem env_role_unchecked:
  assumes "Load sys path = Inr c" and "sys_Getenv sys ''PRP_ROLE'' = ''''" and "r \<in> set known_roles"
  shows "Load (sys\<lparr>sys_Getenv := (sys_Getenv sys)(''PRP_ROLE'' := r)\<rparr>) path = Inr (c\<lparr>y_Node_Role := r\<rparr>)"
proof -
  let ?sys = "sys\<lparr>sys_Getenv := (sys_Getenv sys)(''PRP_ROLE'' := r)\<rparr>" and ?r = "\<lambda>c. c\<lparr>y_Node_Role := r\<rparr>"
  have f: "load_ips ?sys = load_ips sys" "derive_prp_id ?sys = derive_prp_id sys"
    by (auto simp: load_ips_def derive_prp_id_def validateCIDR_def fun_eq_iff Let_def split: option.splits)
  have role: "env_role ?sys d = Inr (?r d)" for d
    using assms(3) by (auto simp: env_role_def known_roles_def Let_def)
  have rest: "env_overrides ?sys d = Inr (?r c)" if "env_overrides sys d = Inr c" for d
    using that assms(2) unfolding env_overrides_def and_then_Inr role
    by (auto simp: env_role_def env_rest_role[of ?sys sys r])
  obtain data c0 c1 c2 c3 where "sys_ReadFile sys path = Some data" "sys_Unmarshal sys data = Some c0"
    "load_role c0 = Inr c1" "load_checks c1 = Inr c2" "load_ips sys c2 = Inr c3"
    "env_overrides sys (derive_prp_id sys c3) = Inr c"
    using Load_stages[OF assms(1)] by blast
  then show ?thesis by (simp add: Load_def f rest)
qed

theorem env_role_unchecked_witness:
  "\<exists>c. Load ((ex_sys (ex_yaml ''prp-san'' '''') (\<lambda>_. ''''))\<lparr>sys_Getenv := (\<lambda>_. '''')(''PRP_ROLE'' := ''hsr-prp'')\<rparr>) ''/etc/prp/config.yaml'' = Inr c
     \<and> y_Node_Role c = ''hsr-prp'' \<and> y_Interlink c = ''''"
proof -
  let ?sys = "ex_sys (ex_yaml ''prp-san'' '''') (\<lambda>_. '''')"
  have "Load ?sys ''/etc/prp/config.yaml'' = Inr ((ex_yaml ''prp-san'' '''')\<lparr>y_PRP_PRPID := 1286\<rparr>)"
    by (rule ex_Load) (simp_all add: known_roles_def)
  moreover have "sys_Getenv ?sys = (\<lambda>_. '''')" by (simp add: ex_sys_def)
  ultimately show ?thesis
    using env_role_unchecked[of ?sys "''/etc/prp/config.yaml''" _ "''hsr-prp''"]
    by (simp add: known_roles_def ex_yaml_def)
qed

text \<open>C38. The configuration's check of a multicast pattern and the node's parser agree on every string:
  \<open>validMulticastPattern\<close> accepts exactly the patterns from which \<open>parseMulticastPattern\<close> makes a
  non-empty prefix.\<close>

theorem multicast_pattern_agreement:
  "validMulticastPattern s \<longleftrightarrow> parseMulticastPattern s \<noteq> []"
  by (rule pattern_agreement)

end
