(* ===== verification/Iface.thy ===== *)
theory Iface
  imports Engine
begin

text \<open>
  \<open>internal/iface/iface.go\<close>: raw sockets and the interface ioctls.

  The kernel and \<open>golang.org/x/sys/unix\<close> are parameters: \<open>abi\<close> has the constants, \<open>kernel\<close> what each
  system call answers. The state the code shares with the kernel is \<open>kstate\<close>: the open descriptors,
  what each socket was bound to and which options it has, the ioctls that were issued, with their
  argument, and the commands that were run. A descriptor that is opened is \<open>kn_fd\<close> of the state.
\<close>

unbundle bit_operations_syntax

record abi =
  AF_INET :: u16
  SOL_PACKET :: int
  PACKET_AUXDATA :: int
  PACKET_IGNORE_OUTGOING :: int
  SO_RCVBUF :: int
  TP_STATUS_VLAN_VALID :: u32
  ARPHRD_ETHER :: byte
  IFF_UP :: u16
  SIOCSIFMTU :: int
  SIOCSIFHWADDR :: int
  SIOCGIFFLAGS :: int
  SIOCSIFFLAGS :: int
  SIOCSIFADDR :: int
  SIOCSIFNETMASK :: int

text \<open>The argument of an ioctl: the struct with the MTU, a raw 40-byte \<open>ifreq\<close>, or one of \<open>unix.Ifreq\<close>.\<close>

datatype ifreq = IfMTU bytes int | IfRaw bytes | IfFlags string u16

record kstate =
  ks_open :: "int list"
  ks_bound :: "(int \<times> int) list"
  ks_opts :: "(int \<times> int \<times> int) list"
  ks_ioctls :: "(int \<times> int \<times> ifreq) list"
  ks_cmds :: "string list list"

record kernel =
  kn_iface :: "string \<Rightarrow> (int \<times> int) option"
  kn_fd :: "kstate \<Rightarrow> int option"
  kn_bind :: "int \<Rightarrow> int \<Rightarrow> bool"
  kn_setopt :: "int \<Rightarrow> int \<Rightarrow> int \<Rightarrow> bool"
  kn_ioctl :: "int \<Rightarrow> int \<Rightarrow> ifreq \<Rightarrow> bool"
  kn_flags :: "string \<Rightarrow> u16 option"
  kn_NewIfreq :: "string \<Rightarrow> bool"
  kn_ParseMAC :: "string \<Rightarrow> bytes option"
  kn_ParseCIDR :: "string \<Rightarrow> (bytes \<times> bytes) option"
  kn_exec :: "string list \<Rightarrow> bool"

record RawSocket =
  rs_name :: string
  rs_ifIndex :: int
  rs_fd :: int
  rs_mtu :: int

datatype iface_error =
    NoInterface string
  | SocketFailed
  | BindFailed string
  | OptionFailed int
  | IoctlFailed int
  | BadMAC string
  | BadIfreq string
  | BadCIDR string
  | NotIPv4 string
  | SetAddressFailed string

definition htons :: "u16 \<Rightarrow> u16" where
  "htons v = (push_bit 8 v AND 0xFF00) OR drop_bit 8 v"

section \<open>Descriptors\<close>

definition k_open :: "int \<Rightarrow> kstate \<Rightarrow> kstate" where
  "k_open fd s = s\<lparr>ks_open := fd # ks_open s\<rparr>"

definition k_close :: "int \<Rightarrow> kstate \<Rightarrow> kstate" where
  "k_close fd s = s\<lparr>ks_open := remove1 fd (ks_open s)\<rparr>"

definition k_ioctl :: "int \<Rightarrow> int \<Rightarrow> ifreq \<Rightarrow> kstate \<Rightarrow> kstate" where
  "k_ioctl fd req arg s = s\<lparr>ks_ioctls := ks_ioctls s @ [(fd, req, arg)]\<rparr>"

section \<open>Raw sockets\<close>

definition getInterfaceIndex :: "kernel \<Rightarrow> string \<Rightarrow> iface_error + int" where
  "getInterfaceIndex K name = (case kn_iface K name of None \<Rightarrow> Inl (NoInterface name) | Some (idx, mtu) \<Rightarrow> Inr idx)"

definition getInterfaceMTU :: "kernel \<Rightarrow> string \<Rightarrow> iface_error + int" where
  "getInterfaceMTU K name = (case kn_iface K name of None \<Rightarrow> Inl (NoInterface name) | Some (idx, mtu) \<Rightarrow> Inr mtu)"

text \<open>\<open>CreateRawSocket\<close>. The receive buffer is set with its result ignored; the two packet options must
  be accepted, or the socket is closed again.\<close>

definition CreateRawSocket :: "abi \<Rightarrow> kernel \<Rightarrow> string \<Rightarrow> kstate \<Rightarrow> (iface_error + RawSocket) \<times> kstate" where
  "CreateRawSocket A K ifc s =
     (case getInterfaceIndex K ifc of
        Inl err \<Rightarrow> (Inl err, s)
      | Inr ifIndex \<Rightarrow>
     (case getInterfaceMTU K ifc of
        Inl err \<Rightarrow> (Inl err, s)
      | Inr mtu \<Rightarrow>
     (case kn_fd K s of
        None \<Rightarrow> (Inl SocketFailed, s)
      | Some fd \<Rightarrow>
        let s = k_open fd s in
        if \<not> kn_bind K fd ifIndex then (Inl (BindFailed ifc), k_close fd s)
        else let s = s\<lparr>ks_bound := (fd, ifIndex) # ks_bound s\<rparr>;
                 s = (if kn_setopt K fd (SO_RCVBUF A) (128 * 1024) then s\<lparr>ks_opts := (fd, SO_RCVBUF A, 128 * 1024) # ks_opts s\<rparr> else s)
             in
             if \<not> kn_setopt K fd (PACKET_IGNORE_OUTGOING A) 1
             then (Inl (OptionFailed (PACKET_IGNORE_OUTGOING A)), k_close fd s)
             else let s = s\<lparr>ks_opts := (fd, PACKET_IGNORE_OUTGOING A, 1) # ks_opts s\<rparr> in
             if \<not> kn_setopt K fd (PACKET_AUXDATA A) 1
             then (Inl (OptionFailed (PACKET_AUXDATA A)), k_close fd s)
             else (Inr \<lparr>rs_name = ifc, rs_ifIndex = ifIndex, rs_fd = fd, rs_mtu = mtu\<rparr>,
                   s\<lparr>ks_opts := (fd, PACKET_AUXDATA A, 1) # ks_opts s\<rparr>))))"

definition rs_Close :: "RawSocket \<Rightarrow> kstate \<Rightarrow> kstate" where
  "rs_Close r s = k_close (rs_fd r) s"

section \<open>Receiving\<close>

text \<open>A parsed control message; \<open>binary.LittleEndian\<close> reads.\<close>

record cmsg =
  cm_Level :: int
  cm_Type :: int
  cm_Data :: bytes

definition le16 :: "bytes \<Rightarrow> nat \<Rightarrow> u16" where
  "le16 b i = Uint16 (b ! (i + 1)) (b ! i)"

definition le32 :: "bytes \<Rightarrow> nat \<Rightarrow> u32" where
  "le32 b i = push_bit 16 (ucast (le16 b (i + 2))) OR ucast (le16 b i)"

text \<open>What the loop body does with a message: skip it, or stop with the TCI and the TPID it carries.\<close>

definition aux_vlan :: "abi \<Rightarrow> cmsg \<Rightarrow> (u16 \<times> u16) option" where
  "aux_vlan A m =
     (if cm_Level m \<noteq> SOL_PACKET A \<or> cm_Type m \<noteq> PACKET_AUXDATA A then None
      else if length (cm_Data m) < 20 then None
      else if le32 (cm_Data m) 0 AND TP_STATUS_VLAN_VALID A = 0 then None
      else let tci = le16 (cm_Data m) 16;
               tpid = le16 (cm_Data m) 18
           in Some (tci, if tpid = 0 then 0x8100 else tpid))"

text \<open>\<open>copy(buf[16:n+4], buf[12:n])\<close> and the four stores that follow it.\<close>

definition insert_tag :: "u16 \<Rightarrow> u16 \<Rightarrow> nat \<Rightarrow> bytes \<Rightarrow> bytes" where
  "insert_tag tci tpid n buf =
     (let buf = take 16 buf @ gslice 12 n buf @ drop (n + 4) buf;
          buf = buf[12 := ucast (drop_bit 8 tpid)];
          buf = buf[13 := ucast tpid];
          buf = buf[14 := ucast (drop_bit 8 tci)]
      in buf[15 := ucast tci])"

fun restore_loop :: "abi \<Rightarrow> cmsg list \<Rightarrow> nat \<Rightarrow> bytes \<Rightarrow> nat \<times> bytes" where
  "restore_loop A [] n buf = (n, buf)"
| "restore_loop A (m # msgs) n buf =
     (case aux_vlan A m of
        None \<Rightarrow> restore_loop A msgs n buf
      | Some (tci, tpid) \<Rightarrow>
        if n < 12 \<or> length buf < n + 4 then (n, buf)
        else (n + 4, insert_tag tci tpid n buf))"

text \<open>
  \<open>Recvmsg\<close> fills the front of the buffer with at most its length and reports the bytes of ancillary
  data; \<open>msgs\<close> is what \<open>ParseSocketControlMessage\<close> makes of them (\<^const>\<open>None\<close> is its error).
\<close>

record recvd =
  rc_pkt :: bytes
  rc_oobn :: nat
  rc_msgs :: "cmsg list option"

definition recv_into :: "bytes \<Rightarrow> bytes \<Rightarrow> nat \<times> bytes" where
  "recv_into pkt buf = (let n = min (length pkt) (length buf) in (n, take n pkt @ drop n buf))"

definition rs_Read :: "abi \<Rightarrow> recvd option \<Rightarrow> bytes \<Rightarrow> (nat \<times> bytes) option" where
  "rs_Read A res buf =
     (case res of
        None \<Rightarrow> None
      | Some r \<Rightarrow>
        let (n, buf) = recv_into (rc_pkt r) buf in
        if rc_oobn r = 0 then Some (n, buf)
        else case rc_msgs r of
            None \<Rightarrow> Some (n, buf)
          | Some msgs \<Rightarrow> Some (restore_loop A msgs n buf))"

text \<open>\<open>RawSocket.Write\<close>: the kernel's answer to \<open>sendto\<close> is \<open>ok\<close>; \<open>&frame[0]\<close> of an empty frame panics.\<close>

definition rs_Write :: "bool \<Rightarrow> bytes \<Rightarrow> nat option option" where
  "rs_Write ok frame = (if frame = [] then None else if ok then Some (Some (length frame)) else Some None)"

section \<open>Interface ioctls\<close>

definition ioctlSocket :: "kernel \<Rightarrow> kstate \<Rightarrow> iface_error + int" where
  "ioctlSocket K s = (case kn_fd K s of None \<Rightarrow> Inl SocketFailed | Some fd \<Rightarrow> Inr fd)"

text \<open>The shape all the setters share: open a socket, do the work, \<open>defer unix.Close(fd)\<close>.\<close>

definition with_socket ::
    "kernel \<Rightarrow> (int \<Rightarrow> kstate \<Rightarrow> (iface_error + unit) \<times> kstate) \<Rightarrow> kstate \<Rightarrow> (iface_error + unit) \<times> kstate" where
  "with_socket K body s =
     (case ioctlSocket K s of
        Inl err \<Rightarrow> (Inl err, s)
      | Inr fd \<Rightarrow> let (r, s) = body fd (k_open fd s) in (r, k_close fd s))"

definition do_ioctl :: "kernel \<Rightarrow> int \<Rightarrow> int \<Rightarrow> ifreq \<Rightarrow> kstate \<Rightarrow> (iface_error + unit) \<times> kstate" where
  "do_ioctl K fd req arg s = (if kn_ioctl K fd req arg then Inr () else Inl (IoctlFailed req), k_ioctl fd req arg s)"

text \<open>\<open>copy(ifr[0:16], name)\<close>: at most 16 bytes, the rest stays zero.\<close>

definition ifr_name :: "string \<Rightarrow> bytes" where
  "ifr_name name = take 16 (map of_char name @ replicate 16 0)"

definition int32 :: "int \<Rightarrow> int" where
  "int32 x = (x + 2 ^ 31) mod 2 ^ 32 - 2 ^ 31"

definition SetMTU :: "abi \<Rightarrow> kernel \<Rightarrow> string \<Rightarrow> int \<Rightarrow> kstate \<Rightarrow> (iface_error + unit) \<times> kstate" where
  "SetMTU A K name mtu = with_socket K (\<lambda>fd. do_ioctl K fd (SIOCSIFMTU A) (IfMTU (ifr_name name) (int32 mtu)))"

definition setInterfaceMAC :: "abi \<Rightarrow> kernel \<Rightarrow> string \<Rightarrow> string \<Rightarrow> kstate \<Rightarrow> (iface_error + unit) \<times> kstate" where
  "setInterfaceMAC A K name mac s =
     (case kn_ParseMAC K mac of
        None \<Rightarrow> (Inl (BadMAC mac), s)
      | Some hwAddr \<Rightarrow>
        with_socket K (\<lambda>fd s.
          if length hwAddr \<noteq> 6 then (Inl (BadMAC mac), s)
          else do_ioctl K fd (SIOCSIFHWADDR A)
                 (IfRaw (ifr_name name @ [ARPHRD_ETHER A, 0] @ hwAddr @ replicate 16 0)) s) s)"

text \<open>\<open>IoctlIfreq(SIOCGIFFLAGS)\<close> leaves the current flags in the \<open>Ifreq\<close>.\<close>

definition SetInterfaceUp :: "abi \<Rightarrow> kernel \<Rightarrow> string \<Rightarrow> kstate \<Rightarrow> (iface_error + unit) \<times> kstate" where
  "SetInterfaceUp A K name =
     with_socket K (\<lambda>fd s.
       if \<not> kn_NewIfreq K name then (Inl (BadIfreq name), s)
       else let s = k_ioctl fd (SIOCGIFFLAGS A) (IfFlags name 0) s in
         (case kn_flags K name of
            None \<Rightarrow> (Inl (IoctlFailed (SIOCGIFFLAGS A)), s)
          | Some cur \<Rightarrow> do_ioctl K fd (SIOCSIFFLAGS A) (IfFlags name (cur OR IFF_UP A)) s))"

definition addr_ifreq :: "abi \<Rightarrow> string \<Rightarrow> bytes \<Rightarrow> bytes" where
  "addr_ifreq A name addr =
     ifr_name name @ put16 (AF_INET A) @ [0, 0]
       @ (case To4 addr of Some a \<Rightarrow> a | None \<Rightarrow> [0, 0, 0, 0]) @ replicate 16 0"

definition setIPWithCmd :: "kernel \<Rightarrow> string \<Rightarrow> string \<Rightarrow> kstate \<Rightarrow> bool \<times> kstate" where
  "setIPWithCmd K name cidr s =
     (let cmd = [''ip'', ''addr'', ''add'', cidr, ''dev'', name]
      in (kn_exec K cmd, s\<lparr>ks_cmds := ks_cmds s @ [cmd]\<rparr>))"

definition SetInterfaceIP :: "abi \<Rightarrow> kernel \<Rightarrow> string \<Rightarrow> string \<Rightarrow> kstate \<Rightarrow> (iface_error + unit) \<times> kstate" where
  "SetInterfaceIP A K name cidr s =
     (case kn_ParseCIDR K cidr of
        None \<Rightarrow> (Inl (BadCIDR cidr), s)
      | Some (ip, msk) \<Rightarrow>
        (case To4 ip of
           None \<Rightarrow> (Inl (NotIPv4 cidr), s)
         | Some ip4 \<Rightarrow>
           with_socket K (\<lambda>fd s.
             case do_ioctl K fd (SIOCSIFADDR A) (IfRaw (addr_ifreq A name ip4)) s of
               (Inl _, s) \<Rightarrow> (case setIPWithCmd K name cidr s of
                               (True, s) \<Rightarrow> (Inr (), s)
                             | (False, s) \<Rightarrow> (Inl (SetAddressFailed cidr), s))
             | (Inr _, s) \<Rightarrow> do_ioctl K fd (SIOCSIFNETMASK A) (IfRaw (addr_ifreq A name msk)) s) s))"

section \<open>No descriptor is leaked\<close>

text \<open>
  The contract of an operation on descriptors: whatever the kernel answers, afterwards the same
  descriptors are open as before. A body run between \<open>open\<close> and the deferred \<open>Close\<close> that keeps the
  contract makes an operation that keeps it.
\<close>

locale fd_neutral =
  fixes operation :: "kstate \<Rightarrow> (iface_error + unit) \<times> kstate"
  assumes keeps_open: "ks_open (snd (operation s)) = ks_open s"
begin

lemma retried: "ks_open (fold (\<lambda>_ s. snd (operation s)) attempts s) = ks_open s"
  by (induction attempts arbitrary: s) (simp_all add: keeps_open)

end

lemma with_socket_open:
  assumes "\<And>fd s. ks_open (snd (body fd s)) = ks_open s"
  shows "ks_open (snd (with_socket K body s)) = ks_open s"
proof (cases "ioctlSocket K s")
  case (Inr fd)
  then show ?thesis
    using assms[of fd "k_open fd s"] by (auto simp: with_socket_def k_close_def k_open_def split: prod.splits)
qed (simp add: with_socket_def)

lemma do_ioctl_open [simp]: "ks_open (snd (do_ioctl K fd req arg s)) = ks_open s"
  by (simp add: do_ioctl_def k_ioctl_def)

lemma setIPWithCmd_open: "ks_open (snd (setIPWithCmd K name cidr s)) = ks_open s"
  by (simp add: setIPWithCmd_def Let_def)

lemma SetMTU_open: "ks_open (snd (SetMTU A K name mtu s)) = ks_open s"
  unfolding SetMTU_def by (rule with_socket_open) simp

lemma setInterfaceMAC_open: "ks_open (snd (setInterfaceMAC A K name mac s)) = ks_open s"
  unfolding setInterfaceMAC_def by (auto split: option.split intro!: with_socket_open)

lemma SetInterfaceUp_open: "ks_open (snd (SetInterfaceUp A K name s)) = ks_open s"
  unfolding SetInterfaceUp_def
  by (rule with_socket_open) (auto simp: k_ioctl_def Let_def split: option.split)

lemma SetInterfaceIP_open: "ks_open (snd (SetInterfaceIP A K name cidr s)) = ks_open s"
proof -
  have "ks_open (snd (case do_ioctl K fd (SIOCSIFADDR A) (IfRaw (addr_ifreq A name ip4)) s of
               (Inl _, s) \<Rightarrow> (case setIPWithCmd K name cidr s of
                               (True, s) \<Rightarrow> (Inr (), s)
                             | (False, s) \<Rightarrow> (Inl (SetAddressFailed cidr), s))
             | (Inr _, s) \<Rightarrow> do_ioctl K fd (SIOCSIFNETMASK A) (IfRaw (addr_ifreq A name msk)) s)) = ks_open s" for fd ip4 msk s
    by (auto simp: do_ioctl_def k_ioctl_def setIPWithCmd_def Let_def split: bool.splits)
  then show ?thesis
    unfolding SetInterfaceIP_def by (auto split: option.split intro!: with_socket_open)
qed

interpretation mtu: fd_neutral "SetMTU A K name mtu" for A K name mtu
  by unfold_locales (rule SetMTU_open)

interpretation hwaddr: fd_neutral "setInterfaceMAC A K name mac" for A K name mac
  by unfold_locales (rule setInterfaceMAC_open)

interpretation ifup: fd_neutral "SetInterfaceUp A K name" for A K name
  by unfold_locales (rule SetInterfaceUp_open)

interpretation ipaddr: fd_neutral "SetInterfaceIP A K name cidr" for A K name cidr
  by unfold_locales (rule SetInterfaceIP_open)

text \<open>C17. Raw sockets are created whole or not at all: whatever the kernel answers, a failed
  \<open>CreateRawSocket\<close> leaves the same descriptors open as before, on every error path; a successful one
  opens exactly the descriptor of the socket it returns, bound to the index of the interface, with
  the options that keep it from receiving its own frames and that report stripped VLAN tags, and
  \<open>Close\<close> releases it.\<close>

theorem raw_socket_whole:
  "case CreateRawSocket A K ifc s of
     (Inl err, s') \<Rightarrow> ks_open s' = ks_open s
   | (Inr r, s') \<Rightarrow> ks_open s' = rs_fd r # ks_open s \<and> ks_open (rs_Close r s') = ks_open s
       \<and> rs_name r = ifc \<and> kn_iface K ifc = Some (rs_ifIndex r, rs_mtu r)
       \<and> (rs_fd r, rs_ifIndex r) \<in> set (ks_bound s')
       \<and> (rs_fd r, PACKET_IGNORE_OUTGOING A, 1) \<in> set (ks_opts s') \<and> (rs_fd r, PACKET_AUXDATA A, 1) \<in> set (ks_opts s')"
proof (cases "kn_iface K ifc")
  case None
  then show ?thesis by (simp add: CreateRawSocket_def getInterfaceIndex_def)
next
  case (Some im)
  then show ?thesis
    by (cases im; cases "kn_fd K s")
       (auto simp: CreateRawSocket_def getInterfaceIndex_def getInterfaceMTU_def rs_Close_def k_open_def k_close_def Let_def
         split: sum.split if_split)
qed

text \<open>No interface setter leaks a descriptor: on every path, the error paths included, \<open>SetMTU\<close>,
  \<open>setInterfaceMAC\<close>, \<open>SetInterfaceUp\<close> and \<open>SetInterfaceIP\<close> leave open what was open.\<close>

theorem setters_leak_nothing:
  "ks_open (snd (SetMTU A K name mtu s)) = ks_open s
   \<and> ks_open (snd (setInterfaceMAC A K name mac s)) = ks_open s
   \<and> ks_open (snd (SetInterfaceUp A K name s)) = ks_open s
   \<and> ks_open (snd (SetInterfaceIP A K name cidr s)) = ks_open s"
  by (simp add: mtu.keeps_open hwaddr.keeps_open ifup.keeps_open ipaddr.keeps_open)

section \<open>VLAN tags\<close>

lemma list4: "4 \<le> length xs \<Longrightarrow> \<exists>a b c d. take 4 xs = [a, b, c, d]"
proof -
  assume "4 \<le> length xs"
  then obtain a x1 where 1: "xs = a # x1" "3 \<le> length x1" by (cases xs) auto
  then obtain b x2 where 2: "x1 = b # x2" "2 \<le> length x2" by (cases x1) auto
  then obtain c x3 where 3: "x2 = c # x3" "1 \<le> length x3" by (cases x2) auto
  then obtain d x4 where "x3 = d # x4" by (cases x3) auto
  with 1 2 3 show ?thesis by simp
qed

text \<open>The stores put the tag between the addresses and the rest.\<close>

lemma insert_tag_eq:
  assumes "length a = 12" and "4 \<le> length junk"
  shows "insert_tag tci tpid (length (a @ b)) (a @ b @ junk) = a @ put16 tpid @ put16 tci @ b @ drop 4 junk"
proof -
  obtain c d e f where t: "take 4 (b @ junk) = [c, d, e, f]"
    using list4[of "b @ junk"] assms(2) by auto
  have "take 16 (a @ b @ junk) = a @ [c, d, e, f]" using assms(1) t by (simp add: take_add)
  moreover have "gslice 12 (length (a @ b)) (a @ b @ junk) = b" using assms(1) by (simp add: gslice_def)
  moreover have "drop (length (a @ b) + 4) (a @ b @ junk) = drop 4 junk" by simp
  ultimately show ?thesis
    using assms(1) by (simp add: insert_tag_def list_update_append put16_def Let_def)
qed

lemma recv_into_fits: "length pkt \<le> length buf \<Longrightarrow> recv_into pkt buf = (length pkt, pkt @ drop (length pkt) buf)"
  by (simp add: recv_into_def Let_def)

lemma restore_skip: "\<forall>m \<in> set ms. aux_vlan A m = None \<Longrightarrow> restore_loop A (ms @ ns) n buf = restore_loop A ns n buf"
  by (induction ms) auto

text \<open>A stripped tag is put back: the buffer holds the frame as it was on the wire.\<close>

lemma restore_stripped:
  assumes "16 \<le> length w" and "length w \<le> length buf"
    and "\<forall>m \<in> set ms. aux_vlan A m = None" and "aux_vlan A m = Some (get16 w 14, get16 w 12)"
  shows "(case recv_into (take 12 w @ drop 16 w) buf of (n, b) \<Rightarrow> restore_loop A (ms @ m # ns) n b)
    = (length w, w @ drop (length w) buf)"
proof -
  let ?a = "take 12 w" and ?b = "drop 16 w"
  let ?j = "drop (length (?a @ ?b)) buf"
  have l: "length ?a = 12" "4 \<le> length ?j" "length (?a @ ?b) + 4 = length w" using assms(1,2) by simp_all
  have w: "?a @ put16 (get16 w 12) @ put16 (get16 w 14) @ ?b = w"
    using split16[of 12 w] split16[of 0 "drop 14 w"] assms(1) by (simp add: get16_drop)
  have r: "recv_into (?a @ ?b) buf = (length (?a @ ?b), ?a @ ?b @ ?j)"
    using assms(1,2) by (subst recv_into_fits) simp_all
  have "restore_loop A (ms @ m # ns) (length (?a @ ?b)) (?a @ ?b @ ?j) = (length w, w @ drop 4 ?j)"
    using insert_tag_eq[OF l(1,2), of "get16 w 14" "get16 w 12" ?b] assms(1,2,4) w
    by (simp add: restore_skip[OF assms(3)]) linarith
  moreover have "drop 4 ?j = drop (length w) buf" using l(3) by (simp only: drop_drop add.commute)
  ultimately show ?thesis using r by simp
qed

text \<open>What the receiver sees: the first \<open>n\<close> bytes of the buffer.\<close>

definition received :: "nat \<times> bytes \<Rightarrow> bytes" where
  "received r = take (fst r) (snd r)"


definition ex_kernel :: kernel where
  "ex_kernel = \<lparr>kn_iface = (\<lambda>_. Some (2, 1500)), kn_fd = (\<lambda>s. Some (3 + int (length (ks_open s)))), kn_bind = (\<lambda>_ _. True),
     kn_setopt = (\<lambda>_ _ _. True), kn_ioctl = (\<lambda>_ _ _. True), kn_flags = (\<lambda>_. Some 0x1002), kn_NewIfreq = (\<lambda>_. True),
     kn_ParseMAC = (\<lambda>_. None), kn_ParseCIDR = (\<lambda>_. None), kn_exec = (\<lambda>_. False)\<rparr>"

definition ex_kstate :: kstate where
  "ex_kstate = \<lparr>ks_open = [], ks_bound = [], ks_opts = [], ks_ioctls = [], ks_cmds = []\<rparr>"

definition ex_abi :: abi where
  "ex_abi = \<lparr>AF_INET = 2, SOL_PACKET = 263, PACKET_AUXDATA = 8, PACKET_IGNORE_OUTGOING = 23, SO_RCVBUF = 8,
     TP_STATUS_VLAN_VALID = 0x10, ARPHRD_ETHER = 1, IFF_UP = 1, SIOCSIFMTU = 0x8922, SIOCSIFHWADDR = 0x8924,
     SIOCGIFFLAGS = 0x8913, SIOCSIFFLAGS = 0x8914, SIOCSIFADDR = 0x8916, SIOCSIFNETMASK = 0x891c\<rparr>"

text \<open>A GOOSE frame with priority 4 and VLAN 0, as the kernel delivers it with the tag stripped.\<close>

definition ex_tagged :: bytes where
  "ex_tagged = [0x01, 0x0c, 0xcd, 0x01, 0, 1, 2, 0, 0, 0, 0, 1, 0x81, 0, 0x80, 0, 0x88, 0xb8, 0x10, 0x01]"

definition ex_aux :: cmsg where
  "ex_aux = \<lparr>cm_Level = 263, cm_Type = 8, cm_Data = [0x11, 0, 0, 0] @ replicate 12 0 @ [0x00, 0x80, 0x00, 0x81]\<rparr>"


end
