(* ===== verification/RingBuffer.thy ===== *)
theory RingBuffer
  imports Prelude
begin

text \<open>
  \<open>internal/tui/ringbuf.go\<close>: the bounded line buffer behind the debug panel.

  A Go string is its bytes; a line ends at the byte \<open>0x0a\<close>. The buffer is protected by one mutex held
  for the whole of each method, so a run is a sequence of whole method calls. The tee is a callback:
  \<open>rb_tee\<close> says whether there is one, and \<open>Write\<close> returns what it was called with.
\<close>

record RingBuffer =
  rb_lines :: "bytes list"
  rb_pending :: bytes
  rb_capacity :: int
  rb_tee :: bool

definition NewRingBuffer :: "int \<Rightarrow> bool \<Rightarrow> RingBuffer" where
  "NewRingBuffer capacity tee =
     \<lparr>rb_lines = [], rb_pending = [], rb_capacity = (if capacity \<le> 0 then 200 else capacity), rb_tee = tee\<rparr>"

text \<open>The builtin \<open>copy(dst, src)\<close> for a source that is not longer than the destination.\<close>

definition go_copy :: "'a list \<Rightarrow> 'a list \<Rightarrow> 'a list" where
  "go_copy dst src = src @ drop (length src) dst"

definition push :: "RingBuffer \<Rightarrow> bytes \<Rightarrow> RingBuffer" where
  "push b line =
     (let ls = rb_lines b @ [line] in
        if int (length ls) > rb_capacity b
        then b\<lparr>rb_lines := take (nat (rb_capacity b))
                 (go_copy ls (drop (nat (int (length ls) - rb_capacity b)) ls))\<rparr>
        else b\<lparr>rb_lines := ls\<rparr>)"

text \<open>The loop of \<open>Write\<close>: \<open>i\<close> runs over \<open>s\<close>, \<open>start\<close> is where the current line begins.\<close>

function write_loop :: "bytes \<Rightarrow> nat \<Rightarrow> nat \<Rightarrow> RingBuffer \<Rightarrow> RingBuffer \<times> nat" where
  "write_loop s i start b =
     (if i < length s
      then if s ! i = 0x0a
           then let line = gslice start i s
                in write_loop s (i + 1) (i + 1) (if line \<noteq> [] then push b line else b)
           else write_loop s (i + 1) start b
      else (b, start))"
  by pat_completeness auto
termination by (relation "measure (\<lambda>(s, i, start, b). length s - i)") auto

declare write_loop.simps [simp del]

text \<open>The result: the buffer, the count returned to the caller, and the calls of the tee.\<close>

definition Write :: "RingBuffer \<Rightarrow> bytes \<Rightarrow> RingBuffer \<times> nat \<times> bytes list" where
  "Write b p =
     (let s = rb_pending b @ p;
          (b, start) = write_loop s 0 0 (b\<lparr>rb_pending := []\<rparr>);
          b = (if start < length s then b\<lparr>rb_pending := drop start s\<rparr> else b)
      in (b, length p, if rb_tee b then [p] else []))"

definition Lines :: "RingBuffer \<Rightarrow> int \<Rightarrow> bytes list" where
  "Lines b n =
     (let n = (if n \<le> 0 \<or> n > int (length (rb_lines b)) then int (length (rb_lines b)) else n)
      in drop (nat (int (length (rb_lines b)) - n)) (rb_lines b))"

definition Len :: "RingBuffer \<Rightarrow> nat" where
  "Len b = length (rb_lines b)"

section \<open>The specification: the last lines of the text written\<close>

text \<open>The text cut at its newlines: always one more piece than there are newlines.\<close>

fun pieces :: "bytes \<Rightarrow> bytes list" where
  "pieces [] = [[]]"
| "pieces (c # cs) = (if c = 0x0a then [] # pieces cs else (c # hd (pieces cs)) # tl (pieces cs))"

definition text_lines :: "bytes \<Rightarrow> bytes list" where
  "text_lines t = filter (\<lambda>l. l \<noteq> []) (butlast (pieces t))"

definition unfinished :: "bytes \<Rightarrow> bytes" where
  "unfinished t = last (pieces t)"

definition newest :: "nat \<Rightarrow> 'a list \<Rightarrow> 'a list" where
  "newest k xs = drop (length xs - k) xs"

lemma pieces_not_Nil [simp]: "pieces t \<noteq> []"
  by (cases t) auto

lemma pieces_no_newline: "0x0a \<notin> set t \<Longrightarrow> pieces t = [t]"
  by (induction t) auto

lemma pieces_newline: "0x0a \<notin> set a \<Longrightarrow> pieces (a @ 0x0a # t) = a # pieces t"
  by (induction a) auto

lemma pieces_append: "pieces (s @ t) = butlast (pieces s) @ pieces (last (pieces s) @ t)"
proof (induction s)
  case Nil
  then show ?case by simp
next
  case (Cons c s)
  obtain p ps where p: "pieces s = p # ps" by (cases "pieces s") auto
  show ?case
  proof (cases "c = 0x0a")
    case True
    with Cons p show ?thesis by simp
  next
    case False
    with Cons p show ?thesis by (cases ps) auto
  qed
qed

lemma newest_newest_append: "newest k (newest k xs @ ys) = newest k (xs @ ys)"
proof -
  have "newest k xs @ ys = drop (length xs - k) (xs @ ys)" by (simp add: newest_def)
  then show ?thesis by (auto simp: newest_def intro: arg_cong2[where f = drop])
qed

lemma newest_short: "length xs \<le> k \<Longrightarrow> newest k xs = xs"
  by (simp add: newest_def)

lemma length_newest: "length (newest k xs) = min k (length xs)"
  by (auto simp: newest_def)

section \<open>Refinement\<close>

text \<open>Well-formed: a positive capacity that is not exceeded, and no newline in what is pending.\<close>

definition rb_ok :: "RingBuffer \<Rightarrow> bool" where
  "rb_ok b \<longleftrightarrow> 0 < rb_capacity b \<and> int (length (rb_lines b)) \<le> rb_capacity b \<and> 0x0a \<notin> set (rb_pending b)"

definition push_lines :: "bytes list \<Rightarrow> RingBuffer \<Rightarrow> RingBuffer" where
  "push_lines ls b = b\<lparr>rb_lines := newest (nat (rb_capacity b)) (rb_lines b @ ls)\<rparr>"

lemma push_eq: "rb_ok b \<Longrightarrow> push b line = push_lines [line] b"
  by (auto simp: push_def push_lines_def rb_ok_def newest_def go_copy_def nat_diff_distrib nat_add_distrib Let_def)

lemma push_lines_ok: "rb_ok b \<Longrightarrow> rb_ok (push_lines ls b)"
  by (auto simp: rb_ok_def push_lines_def length_newest)

lemma push_lines_append: "push_lines ms (push_lines ls b) = push_lines (ls @ ms) b"
  by (simp add: push_lines_def newest_newest_append)

lemma push_lines_Nil: "rb_ok b \<Longrightarrow> push_lines [] b = b"
  by (cases b) (simp add: push_lines_def rb_ok_def newest_short le_nat_iff)

lemma write_loop_pushes:
  assumes "rb_ok b" and "start \<le> i" and "i \<le> length s" and "0x0a \<notin> set (gslice start i s)"
  shows "write_loop s i start b = (push_lines (text_lines (drop start s)) b, length s - length (unfinished (drop start s)))
       \<and> length (unfinished (drop start s)) \<le> length s"
  using assms
proof (induction s i start b rule: write_loop.induct)
  case (1 s i start b)
  show ?case
  proof (cases "i < length s")
    case False
    then have "pieces (drop start s) = [drop start s]"
      using "1.prems" by (intro pieces_no_newline) (simp add: gslice_to_end)
    then show ?thesis
      using False "1.prems" push_lines_Nil[of b]
      by (simp add: write_loop.simps[of s "length s"] text_lines_def unfinished_def)
  next
    case i: True
    have cut: "drop start s = gslice start i s @ s ! i # drop (i + 1) s"
      using i "1.prems"(2) by (simp add: gslice_def) (metis Cons_nth_drop_Suc append_take_drop_id drop_drop le_add_diff_inverse2)
    show ?thesis
    proof (cases "s ! i = 0x0a")
      case True
      let ?line = "gslice start i s"
      let ?b = "if ?line \<noteq> [] then push b ?line else b"
      have pcs: "pieces (drop start s) = ?line # pieces (drop (i + 1) s)"
        using "1.prems"(4) True unfolding cut by (simp add: pieces_newline)
      have b: "?b = push_lines (filter (\<lambda>l. l \<noteq> []) [?line]) b" and ok: "rb_ok ?b"
        using "1.prems"(1) push_eq push_lines_ok push_lines_Nil by auto
      have "write_loop s (i + 1) (i + 1) ?b
              = (push_lines (text_lines (drop (i + 1) s)) ?b, length s - length (unfinished (drop (i + 1) s)))
            \<and> length (unfinished (drop (i + 1) s)) \<le> length s"
        using "1.IH"(1)[OF i True refl] ok i by (simp add: gslice_def)
      then show ?thesis
        using i True unfolding b push_lines_append
        by (simp add: write_loop.simps[of s i] pcs text_lines_def unfinished_def b push_lines_append)
    next
      case False
      have "gslice start (i + 1) s = gslice start i s @ [s ! i]"
        using i "1.prems"(2) by (simp add: gslice_def Suc_diff_le take_Suc_conv_app_nth)
      then show ?thesis
        using "1.IH"(2)[OF i False] "1.prems" i False by (simp add: write_loop.simps[of s i])
    qed
  qed
qed

lemma unfinished_no_newline: "0x0a \<notin> set (unfinished t)"
proof (induction t)
  case (Cons c t)
  then show ?case by (cases "pieces t") (auto simp: unfinished_def split: if_splits)
qed (simp add: unfinished_def)

lemma pieces_single: "pieces t = [p] \<Longrightarrow> p = t"
proof (induction t arbitrary: p)
  case (Cons c t)
  then obtain q where "pieces t = [q]" by (cases "pieces t") (auto split: if_splits)
  with Cons show ?case by (auto split: if_splits)
qed simp

lemma unfinished_suffix: "drop (length t - length (unfinished t)) t = unfinished t"
proof -
  have "\<exists>a. t = a @ unfinished t"
  proof (induction t)
    case (Cons c t)
    obtain p ps where p: "pieces t = p # ps" by (cases "pieces t") auto
    show ?case
    proof (cases "c = 0x0a \<or> ps \<noteq> []")
      case True
      then have "unfinished (c # t) = unfinished t" using p by (auto simp: unfinished_def)
      then show ?thesis using Cons by (metis append_Cons)
    next
      case False
      then show ?thesis using p pieces_single[of t p] by (simp add: unfinished_def)
    qed
  qed (simp add: unfinished_def)
  then show ?thesis by (metis append_eq_conv_conj diff_add_inverse2 length_append)
qed

lemma Write_refines:
  fixes b :: RingBuffer and p :: bytes
  assumes "rb_ok b"
  defines "t \<equiv> rb_pending b @ p"
  shows "Write b p = ((push_lines (text_lines t) b)\<lparr>rb_pending := unfinished t\<rparr>, length p, if rb_tee b then [p] else [])"
    and "rb_ok (fst (Write b p))"
proof -
  let ?b = "b\<lparr>rb_pending := []\<rparr>"
  have "rb_ok ?b" using assms(1) by (simp add: rb_ok_def)
  then have l: "write_loop t 0 0 ?b = (push_lines (text_lines t) ?b, length t - length (unfinished t))"
    and le: "length (unfinished t) \<le> length t"
    using write_loop_pushes[of ?b 0 0 t] by (simp_all add: gslice_def)
  have f: "push_lines ls (b\<lparr>rb_pending := u\<rparr>) = (push_lines ls b)\<lparr>rb_pending := u\<rparr>"
    and tee: "rb_tee (push_lines ls b) = rb_tee b" for ls u
    by (simp_all add: push_lines_def)
  show w: "Write b p = ((push_lines (text_lines t) b)\<lparr>rb_pending := unfinished t\<rparr>, length p, if rb_tee b then [p] else [])"
    using l le unfinished_suffix[of t] by (cases "unfinished t = []") (auto simp: Write_def Let_def f tee simp flip: t_def)
  show "rb_ok (fst (Write b p))"
    using push_lines_ok[OF assms(1), of "text_lines t"] unfinished_no_newline[of t] by (simp add: w rb_ok_def)
qed

text \<open>The buffer after a sequence of writes, and everything its tee was called with.\<close>

fun writes :: "bytes list \<Rightarrow> RingBuffer \<Rightarrow> RingBuffer \<times> bytes list" where
  "writes [] b = (b, [])"
| "writes (p # ps) b = (let (b, _, t) = Write b p; (b, ts) = writes ps b in (b, t @ ts))"

lemma text_append:
  "text_lines (s @ t) = text_lines s @ text_lines (unfinished s @ t)" "unfinished (s @ t) = unfinished (unfinished s @ t)"
  by (simp_all add: text_lines_def unfinished_def pieces_append[of s t] butlast_append)

lemma unfinished_pending: "0x0a \<notin> set u \<Longrightarrow> text_lines u = [] \<and> unfinished u = u"
  by (simp add: text_lines_def unfinished_def pieces_no_newline)

lemma writes_refine:
  assumes "rb_ok b"
  shows "writes ps b = ((push_lines (text_lines (rb_pending b @ concat ps)) b)
           \<lparr>rb_pending := unfinished (rb_pending b @ concat ps)\<rparr>, if rb_tee b then ps else [])"
  using assms
proof (induction ps arbitrary: b)
  case Nil
  then have "text_lines (rb_pending b) = []" "unfinished (rb_pending b) = rb_pending b"
    using unfinished_pending by (simp_all add: rb_ok_def)
  then show ?case using push_lines_Nil[OF Nil] by (cases b) simp
next
  case (Cons p ps)
  let ?b = "fst (Write b p)" and ?t = "rb_pending b @ p"
  have "writes ps ?b = ((push_lines (text_lines (unfinished ?t @ concat ps)) ?b)\<lparr>rb_pending := unfinished (unfinished ?t @ concat ps)\<rparr>,
      if rb_tee b then ps else [])"
    using Cons.IH[OF Write_refines(2)[OF Cons.prems, of p]] Write_refines(1)[OF Cons.prems, of p]
    by (simp add: push_lines_def)
  then show ?case
    using Write_refines(1)[OF Cons.prems, of p] text_append[of ?t "concat ps"]
    by (simp add: Let_def case_prod_beta push_lines_def newest_newest_append)
qed

lemma Lines_newest: "Lines b n = (if 0 < n \<and> n \<le> int (Len b) then newest (nat n) (rb_lines b) else rb_lines b)"
  by (auto simp: Lines_def Len_def newest_def nat_diff_distrib)

text \<open>C36. The log ring buffer shows the newest lines of the text written to it: after any sequence of
  writes it holds exactly the last \<open>capacity\<close> (200 if the capacity given is not positive) non-empty
  complete lines of the concatenation of the writes, however the text was split into writes, it keeps
  the unfinished last line, it never holds more lines than its capacity, \<open>Lines\<close> returns the newest
  \<open>n\<close> of them in order (all of them for \<open>n\<close> out of range), and the tee received every write unchanged
  and in order.\<close>

theorem ring_buffer_newest_lines:
  "case writes ps (NewRingBuffer capacity tee) of (b, teed) \<Rightarrow>
     let k = (if capacity \<le> 0 then 200 else nat capacity); kept = newest k (text_lines (concat ps)) in
       rb_lines b = kept \<and> rb_pending b = unfinished (concat ps) \<and> Len b \<le> k
       \<and> Lines b n = (if 0 < n \<and> n \<le> int (Len b) then newest (nat n) kept else kept)
       \<and> teed = (if tee then ps else [])"
proof -
  have "rb_ok (NewRingBuffer capacity tee)" by (simp add: rb_ok_def NewRingBuffer_def)
  from writes_refine[OF this, of ps] show ?thesis
    by (simp add: NewRingBuffer_def push_lines_def Len_def Lines_newest Let_def length_newest)
qed

end
