(* ===== verification/TUI.thy ===== *)
theory TUI
  imports RingBuffer
begin

text \<open>
  \<open>internal/tui/prpd.go\<close> and \<open>internal/tui/tui.go\<close>: the screens of the daemon and of the traffic
  generator, as the bytes they write.

  The version string is an argument: \<open>internal/version\<close> has its default, and the link can replace it.
\<close>

definition lit :: "string \<Rightarrow> bytes" where
  "lit s = map of_char s"

definition fmt_d :: "int \<Rightarrow> bytes" where
  "fmt_d i = lit (show_int i)"

definition fmt_u :: "u64 \<Rightarrow> bytes" where
  "fmt_u v = lit (show_nat (unat v))"

definition fmt_bool :: "bool \<Rightarrow> bytes" where
  "fmt_bool b = (if b then lit ''true'' else lit ''false'')"

definition ESC :: bytes where "ESC = [0x1b]"
definition CRLF :: bytes where "CRLF = [0x0d, 0x0a]"

record PrpdStats =
  ps_Role :: bytes
  ps_Name :: bytes
  ps_PRPID :: int
  ps_NetID :: int
  ps_LanID :: bytes
  ps_LanAIn :: u64
  ps_LanAOut :: u64
  ps_LanBIn :: u64
  ps_LanBOut :: u64
  ps_InterIn :: u64
  ps_InterOut :: u64
  ps_SupSent :: u64
  ps_DupTableSize :: int
  ps_Drops :: "int gomap"

record PrpdSettings =
  set_Interfaces :: bytes
  set_TrailerEnabled :: bool
  set_Supervision :: bytes
  set_NodeForget :: bytes
  set_ProxyForget :: bytes
  set_EntryForget :: bytes
  set_ForwardAll :: bool
  set_VLANFilter :: bytes
  set_Multicast :: bytes
  set_DebugFrames :: bool

section \<open>Runes\<close>

text \<open>
  \<open>[]rune(s)\<close>: the width of the first rune of a non-empty string, by the UTF-8 rules of the language;
  a byte that starts no valid encoding is a rune of its own, the replacement character.
\<close>

definition cont :: "byte \<Rightarrow> bool" where
  "cont b \<longleftrightarrow> 0x80 \<le> b \<and> b \<le> 0xbf"

definition second_ok :: "byte \<Rightarrow> byte \<Rightarrow> bool" where
  "second_ok b0 b1 =
     (if b0 = 0xe0 then 0xa0 \<le> b1 \<and> b1 \<le> 0xbf
      else if b0 = 0xed then 0x80 \<le> b1 \<and> b1 \<le> 0x9f
      else if b0 = 0xf0 then 0x90 \<le> b1 \<and> b1 \<le> 0xbf
      else if b0 = 0xf4 then 0x80 \<le> b1 \<and> b1 \<le> 0x8f
      else cont b1)"

definition rune_width :: "bytes \<Rightarrow> nat option" where
  "rune_width s =
     (let b0 = s ! 0 in
        if b0 < 0x80 then Some 1
        else if 0xc2 \<le> b0 \<and> b0 \<le> 0xdf \<and> 2 \<le> length s \<and> cont (s ! 1) then Some 2
        else if 0xe0 \<le> b0 \<and> b0 \<le> 0xef \<and> 3 \<le> length s \<and> second_ok b0 (s ! 1) \<and> cont (s ! 2) then Some 3
        else if 0xf0 \<le> b0 \<and> b0 \<le> 0xf4 \<and> 4 \<le> length s \<and> second_ok b0 (s ! 1) \<and> cont (s ! 2) \<and> cont (s ! 3) then Some 4
        else None)"

text \<open>The runes of a string, each as the bytes \<open>string(r)\<close> gives back.\<close>

function runes :: "bytes \<Rightarrow> bytes list" where
  "runes s =
     (if s = [] then []
      else case rune_width s of
          Some w \<Rightarrow> take (max 1 w) s # runes (drop (max 1 w) s)
        | None \<Rightarrow> [0xef, 0xbf, 0xbd] # runes (drop 1 s))"
  by pat_completeness auto
termination by (relation "measure length") auto

declare runes.simps [simp del]

definition truncate :: "bytes \<Rightarrow> nat \<Rightarrow> bytes" where
  "truncate s n =
     (if length s \<le> n then s
      else let r = runes s in
        if length r \<le> n then s
        else concat (take (n - 3) r) @ lit ''...'')"

section \<open>The daemon's screen\<close>

definition drop_keys :: "string list" where
  "drop_keys = [''dup'', ''own'', ''path'', ''filter'', ''malformed'']"

definition formatDrops :: "int gomap \<Rightarrow> bytes" where
  "formatDrops drops =
     (if length drops = 0 then lit ''-''
      else let parts = concat (map (\<lambda>k. case gm_get drops k of
                 Some v \<Rightarrow> if v > 0 then [lit k @ lit ''='' @ fmt_d v] else []
               | None \<Rightarrow> []) drop_keys)
           in if length parts = 0 then lit ''-'' else join (lit '' '') parts)"

text \<open>\<open>time.Since(t.started).Round(time.Second)\<close>, printed.\<close>

definition uptime_text :: "time \<Rightarrow> time \<Rightarrow> bytes" where
  "uptime_text started now = lit (dur_String (round_second (time_Sub now started)))"

definition screen_line :: "bytes \<Rightarrow> bytes" where
  "screen_line s = s @ CRLF"

text \<open>Whether a descriptor is a terminal: on Linux the answer of one \<open>ioctl\<close>, elsewhere taken for granted.\<close>

definition IsTerminal :: "(int \<Rightarrow> bool) \<Rightarrow> int \<Rightarrow> bool" where
  "IsTerminal TCGETS fd = TCGETS fd"

definition IsTerminal_other :: "int \<Rightarrow> bool" where
  "IsTerminal_other fd = True"

definition Version :: bytes where
  "Version = lit ''v0.5.3''"

definition StartPrpd :: bytes where
  "StartPrpd = ESC @ lit ''[?1049h'' @ ESC @ lit ''[?25l'' @ ESC @ lit ''[2J'' @ ESC @ lit ''[H''"

definition StopPrpd :: bytes where
  "StopPrpd = ESC @ lit ''[?25h'' @ ESC @ lit ''[?1049l''"

definition header_row :: "bytes \<Rightarrow> bytes \<Rightarrow> PrpdStats \<Rightarrow> bytes" where
  "header_row version uptime st =
     (let role = (if ps_Role st = lit ''hsr-prp''
                  then ps_Role st @ lit '' N'' @ fmt_d (ps_NetID st) @ lit '' L'' @ ps_LanID st
                  else ps_Role st)
      in version @ lit '' '' @ ps_Name st @ lit '' '' @ role @ lit '' prp='' @ fmt_d (ps_PRPID st) @ lit '' up='' @ uptime)"

definition stats_row :: "PrpdStats \<Rightarrow> bytes" where
  "stats_row st =
     lit ''A in='' @ fmt_u (ps_LanAIn st) @ lit '' out='' @ fmt_u (ps_LanAOut st)
     @ lit '' | B in='' @ fmt_u (ps_LanBIn st) @ lit '' out='' @ fmt_u (ps_LanBOut st)
     @ lit '' | I in='' @ fmt_u (ps_InterIn st) @ lit '' out='' @ fmt_u (ps_InterOut st)
     @ lit '' | sup='' @ fmt_u (ps_SupSent st) @ lit '' nt='' @ fmt_d (ps_DupTableSize st)"

definition settings_row :: "PrpdSettings \<Rightarrow> bytes" where
  "settings_row cfg =
     set_Interfaces cfg @ lit '' trailer='' @ fmt_bool (set_TrailerEnabled cfg) @ lit '' fwd='' @ fmt_bool (set_ForwardAll cfg)
     @ lit '' sup='' @ set_Supervision cfg @ lit '' nf='' @ set_NodeForget cfg @ lit '' pf='' @ set_ProxyForget cfg
     @ lit '' ef='' @ set_EntryForget cfg @ lit '' vlan='' @ set_VLANFilter cfg @ lit '' mcast='' @ set_Multicast cfg
     @ lit '' dbg='' @ fmt_bool (set_DebugFrames cfg)"

definition Draw :: "bytes \<Rightarrow> bytes \<Rightarrow> PrpdStats \<Rightarrow> PrpdSettings \<Rightarrow> bytes list \<Rightarrow> bytes" where
  "Draw version uptime st cfg logs =
     ESC @ lit ''[2J'' @ ESC @ lit ''[H''
     @ screen_line (header_row version uptime st)
     @ screen_line (stats_row st)
     @ screen_line (settings_row cfg)
     @ screen_line (lit ''drops: '' @ formatDrops (ps_Drops st))
     @ concat (map (\<lambda>l. screen_line (lit ''  '' @ truncate l 76)) logs)
     @ ESC @ lit ''[0J'' @ CRLF
     @ ESC @ lit ''[?25h''"

section \<open>The traffic generator's screen\<close>

definition hex4 :: "u16 \<Rightarrow> bytes" where
  "hex4 v = lit (hex02 (ucast (drop_bit 8 v)) @ hex02 (ucast v))"

definition LF :: bytes where "LF = [0x0a]"

definition render ::
    "bytes \<Rightarrow> bytes \<Rightarrow> bytes \<Rightarrow> u16 \<Rightarrow> u16 \<Rightarrow> bool \<Rightarrow> int \<Rightarrow> int \<Rightarrow> int \<Rightarrow> int \<Rightarrow> bytes list \<Rightarrow> bytes" where
  "render version role ifaceName appid stNum allData tot uniq dupes latencyMs errors =
     ESC @ lit ''[2J'' @ ESC @ lit ''[H''
     @ lit ''=== PRP IED TUI '' @ version @ lit '' === role='' @ role @ lit '' iface='' @ ifaceName @ lit '' appid=0x'' @ hex4 appid @ LF
     @ lit ''=== PRP-level === LAN-A/B frames | RCT errors | VLAN tags | supervision'' @ LF
     @ lit ''=== GOOSE/SV-level === stNum='' @ fmt_d (uint stNum) @ lit '' allData='' @ fmt_bool allData @ lit '' total='' @ fmt_d tot
     @ lit '' unique='' @ fmt_d uniq @ lit '' dupes='' @ fmt_d dupes @ lit '' lat='' @ fmt_d latencyMs @ lit ''ms'' @ LF
     @ lit ''=== Last 5 malformed/rejected ==='' @ LF
     @ concat (map (\<lambda>e. lit ''  '' @ e @ LF) errors)"

definition tui_Start :: "bytes \<Rightarrow> bytes \<Rightarrow> bytes \<Rightarrow> u16 \<Rightarrow> bytes" where
  "tui_Start version role ifaceName appid = render version role ifaceName appid 0 False 0 0 0 0 []"

definition tui_Update :: "bytes \<Rightarrow> u16 \<Rightarrow> bool \<Rightarrow> int \<Rightarrow> int \<Rightarrow> int \<Rightarrow> int \<Rightarrow> bytes list \<Rightarrow> bytes" where
  "tui_Update version stNum allData tot uniq dupes latencyMs errors =
     render version (lit ''subscriber'') [] 0 stNum allData tot uniq dupes latencyMs errors"

definition tui_Stop :: bytes where
  "tui_Stop = lit ''=== TUI stopped === final stats reported ==='' @ LF"

section \<open>The height of the screen\<close>

definition newlines :: "bytes \<Rightarrow> nat" where
  "newlines b = length (filter (\<lambda>c. c = 0x0a) b)"

lemma newlines_append [simp]: "newlines (a @ b) = newlines a + newlines b"
  by (simp add: newlines_def)

lemma newlines_concat: "newlines (concat bs) = sum_list (map newlines bs)"
  by (induction bs) (simp_all add: newlines_def)

lemma newlines_0: "newlines b = 0 \<longleftrightarrow> 0x0a \<notin> set b"
  by (auto simp: newlines_def filter_empty_conv)

lemma newline_char: "(of_char c :: byte) = 0x0a \<longleftrightarrow> c = CHR 0x0a"
proof -
  have lt: "(of_char c :: nat) < 256" by simp
  have "(of_char c :: byte) = of_nat (of_char c)" by (rule of_nat_of_char[symmetric])
  then have "(of_char c :: byte) = 0x0a \<longleftrightarrow> (of_char c :: nat) = 10"
    using lt by (simp add: word_unat_eq_iff unsigned_of_nat take_bit_nat_eq_self del: of_nat_of_char)
  also have "\<dots> \<longleftrightarrow> (of_char c :: nat) = of_char (CHR 0x0a)" by simp
  also have "\<dots> \<longleftrightarrow> c = CHR 0x0a" by (simp only: of_char_eq_iff)
  finally show ?thesis .
qed

lemma newlines_lit: "newlines (lit s) = length (filter (\<lambda>c. c = CHR 0x0a) s)"
  by (induction s) (simp_all add: newlines_def lit_def newline_char)

lemma digits_no_newline: "CHR 0x0a \<notin> set (show_nat n)"
  using show_nat_digits[of n] by auto

lemma newlines_fmt [simp]: "newlines (fmt_d i) = 0" "newlines (fmt_u v) = 0" "newlines (fmt_bool b) = 0"
  using digits_no_newline by (auto simp: fmt_d_def fmt_u_def fmt_bool_def show_int_def newlines_lit filter_empty_conv)

lemma newlines_codes [simp]: "newlines ESC = 0" "newlines CRLF = 1" "newlines [] = 0"
  by (simp_all add: ESC_def CRLF_def newlines_def)

lemma newlines_join: "newlines sep = 0 \<Longrightarrow> \<forall>p \<in> set ps. newlines p = 0 \<Longrightarrow> newlines (join sep ps) = 0"
  by (induction sep ps rule: join.induct) auto

lemma newlines_formatDrops: "newlines (formatDrops d) = 0"
proof -
  have "newlines (lit k) = 0" if "k \<in> set drop_keys" for k
    using that by (auto simp: drop_keys_def newlines_lit)
  then show ?thesis
    by (auto simp: formatDrops_def Let_def newlines_lit intro!: newlines_join split: option.splits if_splits)
qed

lemma runes_no_newline: "0x0a \<notin> set s \<Longrightarrow> r \<in> set (runes s) \<Longrightarrow> 0x0a \<notin> set r"
proof (induction s rule: runes.induct)
  case (1 s)
  show ?case
  proof (cases "s = []")
    case True
    with "1.prems" show ?thesis by (simp add: runes.simps)
  next
    case s: False
    have sub: "0x0a \<notin> set (drop k s)" "0x0a \<notin> set (take k s)" for k
      using "1.prems"(1) by (auto dest: in_set_dropD in_set_takeD)
    show ?thesis
    proof (cases "rune_width s")
      case None
      then show ?thesis
        using "1.prems"(2) "1.IH"(1)[OF s None sub(1)] s by (subst (asm) runes.simps[of s]) auto
    next
      case (Some w)
      then show ?thesis
        using "1.prems"(2) "1.IH"(2)[OF s Some sub(1)] sub(2) s by (subst (asm) runes.simps[of s]) auto
    qed
  qed
qed

lemma newlines_truncate: "newlines s = 0 \<Longrightarrow> newlines (truncate s n) = 0"
proof -
  assume s: "newlines s = 0"
  have "newlines r = 0" if "r \<in> set (take k (runes s))" for r k
    using that runes_no_newline[of s r] s by (auto simp: newlines_0 dest: in_set_takeD)
  then have "newlines (concat (take k (runes s))) = 0" for k
    by (simp add: newlines_concat sum_list_eq_0_iff)
  then show ?thesis using s by (simp add: truncate_def newlines_lit Let_def)
qed

lemma pieces_no_newline_in: "p \<in> set (pieces t) \<Longrightarrow> newlines p = 0"
proof (induction t arbitrary: p)
  case (Cons c t)
  then show ?case by (cases "pieces t") (auto simp: newlines_def split: if_splits)
qed (simp add: newlines_def)

lemma Lines_no_newline: "l \<in> set (Lines (fst (writes ps (NewRingBuffer c tee))) n) \<Longrightarrow> newlines l = 0"
proof -
  assume l: "l \<in> set (Lines (fst (writes ps (NewRingBuffer c tee))) n)"
  have "rb_ok (NewRingBuffer c tee)" by (simp add: rb_ok_def NewRingBuffer_def)
  from writes_refine[OF this, of ps]
  have "set (rb_lines (fst (writes ps (NewRingBuffer c tee)))) \<subseteq> set (text_lines (concat ps))"
    by (auto simp: push_lines_def NewRingBuffer_def newest_def dest: in_set_dropD)
  with l have "l \<in> set (text_lines (concat ps))"
    by (auto simp: Lines_newest newest_def split: if_splits dest: in_set_dropD)
  then show ?thesis by (auto simp: text_lines_def intro: pieces_no_newline_in dest: in_set_butlastD)
qed

lemma length_Lines: "0 < n \<Longrightarrow> length (Lines b n) \<le> nat n"
  by (auto simp: Lines_newest Len_def length_newest)

text \<open>C37. The daemon's screen has a bounded number of rows: whatever has been written to the log, in whatever pieces, a
  frame drawn with the newest eight lines of the ring buffer has exactly five rows plus one per
  line, thirteen at most, as long as the texts of the configuration and the version hold no newline.\<close>

theorem screen_height:
  assumes "\<forall>t \<in> {version, uptime, ps_Role st, ps_Name st, ps_LanID st, set_Interfaces cfg, set_Supervision cfg, set_NodeForget cfg,
      set_ProxyForget cfg, set_EntryForget cfg, set_VLANFilter cfg, set_Multicast cfg}. newlines t = 0"
    and "logs = Lines (fst (writes ps (NewRingBuffer 200 tee))) 8"
  shows "newlines (Draw version uptime st cfg logs) = 5 + length logs \<and> length logs \<le> 8"
proof
  have rows: "newlines (header_row version uptime st) = 0" "newlines (stats_row st) = 0" "newlines (settings_row cfg) = 0"
    using assms(1) by (simp_all add: header_row_def stats_row_def settings_row_def newlines_lit Let_def)
  have "newlines (screen_line (lit ''  '' @ truncate l 76)) = 1" if "l \<in> set logs" for l
    using that Lines_no_newline newlines_truncate unfolding assms(2) by (simp add: screen_line_def newlines_lit)
  then have "sum_list (map (newlines \<circ> (\<lambda>l. screen_line (lit ''  '' @ truncate l 76))) logs) = sum_list (map (\<lambda>_. 1) logs)"
    by (intro arg_cong[where f = sum_list] map_cong) auto
  then have logs: "newlines (concat (map (\<lambda>l. screen_line (lit ''  '' @ truncate l 76)) logs)) = length logs"
    by (simp add: newlines_concat sum_list_triv)
  show "newlines (Draw version uptime st cfg logs) = 5 + length logs"
    using logs rows by (simp add: Draw_def newlines_formatDrops newlines_lit) (simp add: screen_line_def newlines_formatDrops newlines_lit)
  show "length logs \<le> 8" unfolding assms(2) using length_Lines[of 8] by simp
qed

definition ex_stats :: PrpdStats where
  "ex_stats = \<lparr>ps_Role = lit ''hsr-prp'', ps_Name = lit ''n1'', ps_PRPID = 7, ps_NetID = 3, ps_LanID = lit ''B'', ps_LanAIn = 1,
     ps_LanAOut = 2, ps_LanBIn = 3, ps_LanBOut = 4, ps_InterIn = 5, ps_InterOut = 6, ps_SupSent = 7, ps_DupTableSize = 8,
     ps_Drops = [(''dup'', 2)]\<rparr>"

definition ex_settings :: PrpdSettings where
  "ex_settings = \<lparr>set_Interfaces = lit ''eth0'', set_TrailerEnabled = True, set_Supervision = lit ''off'', set_NodeForget = lit ''64s'',
     set_ProxyForget = lit ''64s'', set_EntryForget = lit ''640ms'', set_ForwardAll = True, set_VLANFilter = lit ''none'',
     set_Multicast = lit ''none'', set_DebugFrames = False\<rparr>"

definition ex_logs :: "bytes list" where
  "ex_logs = Lines (fst (writes [lit ''prp: bound'', [0x0a], lit ''x'', [0x0a, 0x0a]] (NewRingBuffer 200 True))) 8"

theorem screen_height_witness:
  "newlines (Draw (lit ''v0.5.3'') (lit ''10s'') ex_stats ex_settings ex_logs) = 5 + length ex_logs \<and> length ex_logs \<le> 8"
  by (rule screen_height[OF _ ex_logs_def]) (simp add: newlines_lit ex_stats_def ex_settings_def)

end
