(* ===== verification/Daemon.thy ===== *)
theory Daemon
  imports ConfigLoad NodeLoop Iface TUI
begin

text \<open>
  \<open>cmd/prpd/main.go\<close>: from the configuration file to a running node, the supervision ticker, the static
  addresses of the ports, and what the screen shows.

  The result of the start is a value: an exit code with the error, or the node that runs. \<open>sysenv\<close>
  (configuration), \<open>kernel\<close> (interfaces) and \<open>os\<close> (the sockets and MTUs of \<open>Start\<close>) are what the
  process asks of the outside.
\<close>

definition configPath :: "sysenv \<Rightarrow> string" where
  "configPath sys =
     (let p = sys_Getenv sys ''PRP_CONFIG_PATH'' in if p \<noteq> '''' then p else ''/etc/prp/config.yaml'')"

section \<open>Static addresses\<close>

text \<open>One turn of the loop of \<open>applyStaticIPs\<close>: errors are logged, and the loop goes on. The first component
  says whether the address was set.\<close>

definition applyStaticIP :: "abi \<Rightarrow> kernel \<Rightarrow> string \<Rightarrow> string \<Rightarrow> kstate \<Rightarrow> bool \<times> kstate" where
  "applyStaticIP A K name cidr s =
     (if name = '''' \<or> cidr = '''' then (False, s)
      else let (_, s) = SetInterfaceUp A K name s;
               (r, s) = SetInterfaceIP A K name cidr s
           in (case r of Inl _ \<Rightarrow> (False, s) | Inr _ \<Rightarrow> (True, s)))"

definition static_ports :: "YamlConfig \<Rightarrow> (string \<times> string) list" where
  "static_ports c = [(y_LanA c, y_IPv4_LanA c), (y_LanB c, y_IPv4_LanB c), (y_Interlink c, y_IPv4_Interlink c)]"

definition applyStaticIPs :: "abi \<Rightarrow> kernel \<Rightarrow> YamlConfig \<Rightarrow> kstate \<Rightarrow> kstate" where
  "applyStaticIPs A K c s = fold (\<lambda>(name, cidr) s. snd (applyStaticIP A K name cidr s)) (static_ports c) s"

section \<open>The supervision ticker\<close>

text \<open>\<open>time.NewTicker\<close> panics unless the interval is positive: the outer \<^const>\<open>None\<close>. The inner option says
  whether there is a ticker, and its interval in nanoseconds.\<close>

definition supervisionTicker :: "sysenv \<Rightarrow> YamlConfig \<Rightarrow> int option option" where
  "supervisionTicker sys c =
     (if \<not> y_Sup_Enabled c then Some None
      else let interval = 2000000000;
               interval = (if y_LifeCheckInterval c \<noteq> ''''
                           then (case sys_ParseDuration sys (y_LifeCheckInterval c) of Some d \<Rightarrow> d | None \<Rightarrow> interval)
                           else interval)
           in if interval \<le> 0 then None else Some (Some interval))"

section \<open>Start of the process\<close>

text \<open>The goroutine of the ticker is started right after the node; a panic in it ends the process.\<close>

datatype boot = ExitConfig config_error | FatalStart start_error | TickerPanic | Running node

definition prpd_main ::
    "sysenv \<Rightarrow> abi \<Rightarrow> kernel \<Rightarrow> os \<Rightarrow> env \<Rightarrow> u16 \<Rightarrow> kstate \<Rightarrow> boot \<times> kstate" where
  "prpd_main sys A K os e seed s =
     (case Load sys (configPath sys) of
        Inl err \<Rightarrow> (ExitConfig err, s)
      | Inr cfg \<Rightarrow>
        let prpCfg = prpConfig sys cfg;
            s = applyStaticIPs A K cfg s
        in (case Start os e (NewNode seed prpCfg) of
              (Inl err, _) \<Rightarrow> (FatalStart err, s)
            | (Inr _, n) \<Rightarrow>
              (case supervisionTicker sys cfg of
                 None \<Rightarrow> (TickerPanic, s)
               | Some _ \<Rightarrow> (Running n, s))))"

section \<open>The screen of the daemon\<close>

definition tui_settings :: "sysenv \<Rightarrow> YamlConfig \<Rightarrow> PrpdSettings" where
  "tui_settings sys c =
     (let vlan = (if length (y_VLANFilter c) > 0 then join (lit '','') (map fmt_d (y_VLANFilter c)) else lit ''none'');
          mc = (if y_FirstOctet c \<noteq> '''' then lit (y_FirstOctet c) else lit ''none (allow all)'');
          sup = (if y_Sup_Enabled c
                 then let sup = ''on ('' @ y_LifeCheckInterval c @ '')'' in if sup = ''on ()'' then lit ''on (2s)'' else lit sup
                 else lit ''off'');
          dflt = (\<lambda>v d. lit (if v = '''' then d else v))
      in \<lparr>set_Interfaces = lit (y_LanA c @ '' (A), '' @ y_LanB c @ '' (B), '' @ y_Interlink c @ '' (interlink)''),
          set_TrailerEnabled = y_TrailerEnabled c,
          set_Supervision = sup,
          set_NodeForget = dflt (y_NodeForgetTime c) ''64s'',
          set_ProxyForget = dflt (y_ProxyNodeForgetTime c) ''64s'',
          set_EntryForget = dflt (y_EntryForgetTime c) ''640ms'',
          set_ForwardAll = y_ForwardAll c,
          set_VLANFilter = vlan,
          set_Multicast = mc,
          set_DebugFrames = (sys_Getenv sys ''DEBUG_FRAMES'' = ''1'')\<rparr>)"

definition tui_stats :: "YamlConfig \<Rightarrow> node \<Rightarrow> PrpdStats" where
  "tui_stats c n =
     (let st = Snapshot n
      in \<lparr>ps_Role = lit (st_Role st), ps_Name = lit (y_Node_Name c), ps_PRPID = PRPID (n_Config n), ps_NetID = st_NetID st,
          ps_LanID = lit (st_LanID st), ps_LanAIn = st_LanAIn st, ps_LanAOut = st_LanAOut st, ps_LanBIn = st_LanBIn st,
          ps_LanBOut = st_LanBOut st, ps_InterIn = st_InterIn st, ps_InterOut = st_InterOut st, ps_SupSent = st_SupSent st,
          ps_DupTableSize = st_DupTableSize st, ps_Drops = st_Drops st\<rparr>)"

definition draw :: "sysenv \<Rightarrow> bytes \<Rightarrow> time \<Rightarrow> time \<Rightarrow> YamlConfig \<Rightarrow> node \<Rightarrow> RingBuffer \<Rightarrow> bytes" where
  "draw sys version started now c n ring =
     Draw version (uptime_text started now) (tui_stats c n) (tui_settings sys c) (Lines ring 8)"

text \<open>The daemon has its own copy of \<open>formatDrops\<close>.\<close>

definition prpd_formatDrops :: "int gomap \<Rightarrow> bytes" where
  "prpd_formatDrops drops =
     (if length drops = 0 then lit ''-''
      else let keys = [''dup'', ''own'', ''path'', ''filter'', ''malformed''];
               parts = concat (map (\<lambda>k. case gm_get drops k of
                 Some v \<Rightarrow> if v > 0 then [lit (k @ ''='' @ show_int v)] else []
               | None \<Rightarrow> []) keys)
           in if length parts = 0 then lit ''-'' else join (lit '' '') parts)"

lemma formatDrops_copies: "prpd_formatDrops = formatDrops"
proof (rule ext)
  fix drops
  have "lit (k @ ''='' @ show_int v) = lit k @ lit ''='' @ fmt_d v" for k v by (simp add: lit_def fmt_d_def)
  then show "prpd_formatDrops drops = formatDrops drops"
    unfolding prpd_formatDrops_def formatDrops_def drop_keys_def Let_def by (simp only:)
qed

text \<open>The line printed every five seconds when there is no terminal.\<close>

definition status_line :: "node \<Rightarrow> bytes" where
  "status_line n =
     (let st = Snapshot n;
          role = (if st_Role st = ''hsr-prp''
                  then lit ''hsr-prp (NetId '' @ fmt_d (st_NetID st) @ lit '', LanId '' @ lit (st_LanID st) @ lit '')''
                  else lit (st_Role st))
      in lit ''status: role='' @ role @ lit '' ringA in='' @ fmt_u (st_LanAIn st) @ lit '' out='' @ fmt_u (st_LanAOut st)
         @ lit '' ringB in='' @ fmt_u (st_LanBIn st) @ lit '' out='' @ fmt_u (st_LanBOut st)
         @ lit '' inter in='' @ fmt_u (st_InterIn st) @ lit '' out='' @ fmt_u (st_InterOut st)
         @ lit '' sup='' @ fmt_u (st_SupSent st) @ lit '' ntable='' @ fmt_d (st_DupTableSize st)
         @ lit '' drops='' @ prpd_formatDrops (st_Drops st) @ [0x0a])"

section \<open>Properties\<close>

lemma prpConfig_fields [simp]:
  "cfg_Role (prpConfig sys c) = y_Node_Role c" "InterlinkInterface (prpConfig sys c) = y_Interlink c"
  "cfg_NetID (prpConfig sys c) = y_HSR_PRPID c" "cfg_LanID (prpConfig sys c) = y_HSR_LanID c"
  "LanAInterface (prpConfig sys c) = y_LanA c" "LanBInterface (prpConfig sys c) = y_LanB c"
  by (simp_all add: prpConfig_def)

lemma role_of_name: "role_of cfg = RoleHSRPRP \<longleftrightarrow> cfg_Role cfg = ''hsr-prp''" "role_of cfg = RoleHSRSan \<longleftrightarrow> cfg_Role cfg = ''hsr-san''"
  by (simp_all add: role_of_def roleInfo_def ParseRole_def)

lemma Running_started:
  assumes "prpd_main sys A K os e seed s = (Running n, s')"
  shows "\<exists>c loops. Load sys (configPath sys) = Inr c \<and> Start os e (NewNode seed (prpConfig sys c)) = (Inr loops, n)"
  using assms by (auto simp: prpd_main_def Let_def split: sum.splits prod.splits option.splits)

lemma Running_good:
  assumes "prpd_main sys A K os e seed s = (Running n, s')" and "sys_Getenv sys ''PRP_ROLE'' = ''''"
    and "set (sys_ports sys) = UNIV"
    and "\<forall>c. Load sys (configPath sys) = Inr c \<and> y_Node_Role c = ''hsr-san'' \<longrightarrow> y_Interlink c \<noteq> ''''"
  shows "good F n"
proof -
  obtain c loops where c: "Load sys (configPath sys) = Inr c" "Start os e (NewNode seed (prpConfig sys c)) = (Inr loops, n)"
    using Running_started[OF assms(1)] by blast
  have "role_of (prpConfig sys c) \<in> {RoleHSRSan, RoleHSRPRP} \<longrightarrow> InterlinkInterface (prpConfig sys c) \<noteq> ''''"
    using Load_valid[OF c(1) assms(3)] assms(2,4) c(1) role_of_name[of "prpConfig sys c"]
    by (auto simp: file_valid_def coupling_ready_def)
  then show ?thesis using Start_good[OF c(2)] by blast
qed

lemma ex_boots:
  "\<exists>n s. prpd_main (ex_sys (ex_yaml ''hsr-prp'' ''eth2'') (\<lambda>_. '''')) ex_abi ex_kernel ex_os (ex_env 0) 7 ex_kstate = (Running n, s)"
proof -
  let ?sys = "ex_sys (ex_yaml ''hsr-prp'' ''eth2'') (\<lambda>_. '''')" and ?c = "(ex_yaml ''hsr-prp'' ''eth2'')\<lparr>y_PRP_PRPID := 1286\<rparr>"
  have l: "Load ?sys (configPath ?sys) = Inr ?c" by (rule ex_Load) (simp_all add: known_roles_def)
  obtain loops n where "Start ex_os (ex_env 0) (NewNode 7 (prpConfig ?sys ?c)) = (Inr loops, n)"
    by (cases "Start ex_os (ex_env 0) (NewNode 7 (prpConfig ?sys ?c))")
       (simp add: Start_def Let_def start_loops_def NewNode_def ex_os_def ex_port_def ex_yaml_def)
  moreover have "supervisionTicker ?sys ?c \<noteq> None"
    by (simp add: supervisionTicker_def ex_sys_def ex_yaml_def Let_def)
  ultimately show ?thesis using l by (auto simp: prpd_main_def Let_def)
qed

lemma applyStaticIP_open: "ks_open (snd (applyStaticIP A K name cidr s)) = ks_open s"
  using ifup.keeps_open[of A K name s] ipaddr.keeps_open[of A K name cidr "snd (SetInterfaceUp A K name s)"]
  by (auto simp: applyStaticIP_def split: prod.splits sum.splits)

lemma applyStaticIPs_open: "ks_open (applyStaticIPs A K c s) = ks_open s"
  by (simp add: applyStaticIPs_def static_ports_def applyStaticIP_open)

text \<open>Static addresses are best effort: whether the daemon runs, and with which node, does not depend
  on what the kernel answers to the address and interface ioctls, and setting the addresses leaves no
  descriptor open.\<close>

theorem static_ips_best_effort:
  "fst (prpd_main sys A K os e seed s) = fst (prpd_main sys A' K' os e seed s')
   \<and> ks_open (snd (prpd_main sys A K os e seed s)) = ks_open s"
  by (auto simp: prpd_main_def Let_def applyStaticIPs_open split: sum.splits prod.splits option.splits)

lemma supervisionTicker_None:
  "supervisionTicker sys c = None \<longleftrightarrow> y_Sup_Enabled c \<and> y_LifeCheckInterval c \<noteq> ''''
     \<and> (\<exists>d. sys_ParseDuration sys (y_LifeCheckInterval c) = Some d \<and> d \<le> 0)"
  by (auto simp: supervisionTicker_def Let_def split: option.splits if_splits)

text \<open>A bad supervision interval kills a node that has started: the daemon panics exactly when its file
  loads, the node starts, supervision is enabled, and \<open>life_check_interval\<close> is a duration of zero or
  less. (An interval that does not parse is replaced by two seconds.)\<close>

theorem supervision_ticker_panics:
  "fst (prpd_main sys A K os e seed s) = TickerPanic \<longleftrightarrow>
     (\<exists>c loops n d. Load sys (configPath sys) = Inr c \<and> Start os e (NewNode seed (prpConfig sys c)) = (Inr loops, n)
        \<and> y_Sup_Enabled c \<and> y_LifeCheckInterval c \<noteq> ''''
        \<and> sys_ParseDuration sys (y_LifeCheckInterval c) = Some d \<and> d \<le> 0)"
proof -
  have "fst (prpd_main sys A K os e seed s) = TickerPanic \<longleftrightarrow>
     (\<exists>c loops n. Load sys (configPath sys) = Inr c \<and> Start os e (NewNode seed (prpConfig sys c)) = (Inr loops, n)
        \<and> supervisionTicker sys c = None)"
    by (auto simp: prpd_main_def Let_def split: sum.splits prod.splits option.splits)
  then show ?thesis unfolding supervisionTicker_None by blast
qed

end
