(* ===== verification/Process.thy ===== *)
theory Process
  imports Daemon
begin

text \<open>
  The process \<open>prpd\<close> once its node has started (\<open>cmd/prpd/main.go\<close>): the goroutine \<open>main\<close> that waits for a
  signal, the loops of the node, the supervision ticker, the presentation loop (\<open>runTUILoop\<close>, or the
  status lines) and the log, as one step relation. All of them end when \<open>main\<close> returns.
\<close>

section \<open>The process\<close>

text \<open>What is written to the terminal, in the order of the writes.\<close>

datatype console = Enter | Frame bytes | Leave | Text bytes

fun console_bytes :: "console \<Rightarrow> bytes" where
  "console_bytes Enter = StartPrpd"
| "console_bytes (Frame b) = b"
| "console_bytes Leave = StopPrpd"
| "console_bytes (Text b) = b"

text \<open>Where \<open>main\<close> stands, and the presentation loop: the screen to be entered, entered at a time, drawn
  once, the plain lines, or the loop ended.\<close>

datatype main_point = AwaitSignal | Signalled | NodeStopped | Returned

datatype presenter = ScreenSoon | Entered time | Drawn time | Plain | Gone

record daemon =
  d_node :: node
  d_ring :: RingBuffer
  d_out :: "console list"
  d_main :: main_point
  d_sup :: bool
  d_view :: presenter

definition started_line :: "YamlConfig \<Rightarrow> bytes" where
  "started_line c = lit (''prpd: role='' @ y_Node_Role c @ '' name='' @ y_Node_Name c @ '' prp_id='' @ show_int (y_PRP_PRPID c)) @ LF"

definition launch :: "sysenv \<Rightarrow> (int \<Rightarrow> bool) \<Rightarrow> YamlConfig \<Rightarrow> node \<Rightarrow> daemon" where
  "launch sys TCGETS c n =
     \<lparr>d_node = n, d_ring = NewRingBuffer 200 True, d_out = [Text (started_line c)], d_main = AwaitSignal,
      d_sup = y_Sup_Enabled c,
      d_view = (if IsTerminal TCGETS 1 \<and> sys_Getenv sys ''PRP_NO_TUI'' = '''' then ScreenSoon else Plain)\<rparr>"

definition say :: "console \<Rightarrow> daemon \<Rightarrow> daemon" where
  "say x d = d\<lparr>d_out := d_out d @ [x]\<rparr>"

text \<open>The steps of \<open>runTUILoop\<close>.\<close>

definition tui_enter :: "time \<Rightarrow> daemon \<Rightarrow> daemon" where
  "tui_enter now d = (say Enter d)\<lparr>d_view := Entered now\<rparr>"

definition tui_draw :: "sysenv \<Rightarrow> YamlConfig \<Rightarrow> bytes \<Rightarrow> time \<Rightarrow> time \<Rightarrow> daemon \<Rightarrow> daemon" where
  "tui_draw sys c version started now d =
     (say (Frame (draw sys version started now c (d_node d) (d_ring d))) d)\<lparr>d_view := Drawn started\<rparr>"

definition tui_leave :: "daemon \<Rightarrow> daemon" where
  "tui_leave d = (say Leave d)\<lparr>d_view := Gone\<rparr>"

inductive daemon_moves :: "sysenv \<Rightarrow> YamlConfig \<Rightarrow> bytes \<Rightarrow> (bytes \<Rightarrow> bool) \<Rightarrow> daemon \<Rightarrow> daemon option \<Rightarrow> bool"
  for sys c version F where
  read: "d_main d \<noteq> Returned \<Longrightarrow> ifc \<in> {''lan_a'', ''lan_b'', ''interlink''} \<Longrightarrow> pred_option (\<lambda>pkt. F (take readBufLen pkt)) res
    \<Longrightarrow> daemon_moves sys c version F d (Some (d\<lparr>d_node := readLoop_body ifc res (d_node d)\<rparr>))"
| process: "d_main d \<noteq> Returned \<Longrightarrow> n_frameBuffer (d_node d) \<noteq> [] \<Longrightarrow> map_range (env_rng e)
    \<Longrightarrow> daemon_moves sys c version F d (map_option (\<lambda>n. d\<lparr>d_node := n\<rparr>) (processFrames_iter e (d_node d)))"
| cleanup: "d_main d \<noteq> Returned \<Longrightarrow> n_cleanupTimer (d_node d)
    \<Longrightarrow> daemon_moves sys c version F d (Some (d\<lparr>d_node := periodicCleanup now (d_node d)\<rparr>))"
| supervise: "d_main d \<noteq> Returned \<Longrightarrow> d_sup d
    \<Longrightarrow> daemon_moves sys c version F d (map_option (\<lambda>n. d\<lparr>d_node := n\<rparr>) (SendSupervisionFrame e (d_node d)))"
| sup_end: "d_main d \<noteq> Returned \<Longrightarrow> d_sup d \<Longrightarrow> n_stopped (d_node d)
    \<Longrightarrow> daemon_moves sys c version F d (Some (d\<lparr>d_sup := False\<rparr>))"
| screen_on: "d_main d \<noteq> Returned \<Longrightarrow> d_view d = ScreenSoon
    \<Longrightarrow> daemon_moves sys c version F d (Some (tui_enter now d))"
| screen_first: "d_main d \<noteq> Returned \<Longrightarrow> d_view d = Entered started
    \<Longrightarrow> daemon_moves sys c version F d (Some (tui_draw sys c version started now d))"
| screen_tick: "d_main d \<noteq> Returned \<Longrightarrow> d_view d = Drawn started
    \<Longrightarrow> daemon_moves sys c version F d (Some (tui_draw sys c version started now d))"
| screen_off: "d_main d \<noteq> Returned \<Longrightarrow> d_view d = Drawn started \<Longrightarrow> n_stopped (d_node d)
    \<Longrightarrow> daemon_moves sys c version F d (Some (tui_leave d))"
| line_tick: "d_main d \<noteq> Returned \<Longrightarrow> d_view d = Plain
    \<Longrightarrow> daemon_moves sys c version F d (Some (say (Text (status_line (d_node d))) d))"
| line_off: "d_main d \<noteq> Returned \<Longrightarrow> d_view d = Plain \<Longrightarrow> n_stopped (d_node d)
    \<Longrightarrow> daemon_moves sys c version F d (Some (d\<lparr>d_view := Gone\<rparr>))"
| log: "d_main d \<noteq> Returned \<Longrightarrow> daemon_moves sys c version F d (Some (d\<lparr>d_ring := fst (Write (d_ring d) p)\<rparr>))"
| signal: "d_main d = AwaitSignal
    \<Longrightarrow> daemon_moves sys c version F d (Some ((say (Text (lit ''prpd: shutting down'' @ LF)) d)\<lparr>d_main := Signalled\<rparr>))"
| stop_node: "d_main d = Signalled
    \<Longrightarrow> daemon_moves sys c version F d (Some (d\<lparr>d_node := Stop (d_node d), d_main := NodeStopped\<rparr>))"
| return: "d_main d = NodeStopped \<Longrightarrow> daemon_moves sys c version F d (Some (d\<lparr>d_main := Returned\<rparr>))"

inductive daemon_reaches :: "sysenv \<Rightarrow> YamlConfig \<Rightarrow> bytes \<Rightarrow> (bytes \<Rightarrow> bool) \<Rightarrow> daemon \<Rightarrow> daemon option \<Rightarrow> bool"
  for sys c version F d where
  start: "daemon_reaches sys c version F d (Some d)"
| move: "daemon_reaches sys c version F d (Some d1) \<Longrightarrow> daemon_moves sys c version F d1 x
    \<Longrightarrow> daemon_reaches sys c version F d x"

inductive_cases daemon_movesE: "daemon_moves sys c version F d x"

section \<open>What the process keeps\<close>

text \<open>A step of the process is a step of its node, or leaves the node as it is.\<close>

lemma daemon_node:
  assumes "daemon_moves sys c version F d x"
  shows "node_moves F (d_node d) (map_option d_node x) \<or> (\<exists>d'. x = Some d' \<and> d_node d' = d_node d)"
  using assms
proof cases
  case (read ifc res)
  then show ?thesis by (auto intro: node_moves.read)
next
  case (process e)
  then have "map_option d_node x = processFrames_iter e (d_node d)"
    by (cases "processFrames_iter e (d_node d)") simp_all
  then show ?thesis using process by (simp add: node_moves.process)
next
  case (supervise e)
  then have "map_option d_node x = SendSupervisionFrame e (d_node d)"
    by (cases "SendSupervisionFrame e (d_node d)") simp_all
  then show ?thesis by (simp add: node_moves.supervise)
qed (auto simp: say_def tui_enter_def tui_draw_def tui_leave_def intro: node_moves.intros)

lemma daemon_node_reaches:
  assumes "daemon_reaches sys c version F d0 x"
  shows "node_reaches F (d_node d0) (map_option d_node x)"
  using assms
proof induction
  case start
  then show ?case by (simp add: node_reaches.start)
next
  case (move d1 x)
  then show ?case using daemon_node[OF move.hyps(2)] by (auto intro: node_reaches.move)
qed

text \<open>
  The state of the terminal after a sequence of writes: full frames belong on the alternate screen, which
  is entered at most once and left at most once; any other sequence has no state.
\<close>

datatype terminal = Main | Alternate | Restored

fun shown :: "terminal \<Rightarrow> console \<Rightarrow> terminal option" where
  "shown t (Text b) = Some t"
| "shown t (Frame b) = (if t = Alternate then Some Alternate else None)"
| "shown t Enter = (if t = Main then Some Alternate else None)"
| "shown t Leave = (if t = Alternate then Some Restored else None)"

definition terminal :: "console list \<Rightarrow> terminal option" where
  "terminal out = fold (\<lambda>x t. Option.bind t (\<lambda>t. shown t x)) out (Some Main)"

lemma terminal_snoc [simp]: "terminal (out @ [x]) = Option.bind (terminal out) (\<lambda>t. shown t x)"
  by (simp add: terminal_def)

definition terminal_of :: "bool \<Rightarrow> presenter \<Rightarrow> terminal" where
  "terminal_of tui v = (case v of ScreenSoon \<Rightarrow> Main | Entered _ \<Rightarrow> Alternate | Drawn _ \<Rightarrow> Alternate | Plain \<Rightarrow> Main
     | Gone \<Rightarrow> if tui then Restored else Main)"

definition console_inv :: "bool \<Rightarrow> daemon \<Rightarrow> bool" where
  "console_inv tui d \<longleftrightarrow> terminal (d_out d) = Some (terminal_of tui (d_view d))
     \<and> (case d_view d of Plain \<Rightarrow> \<not> tui | Gone \<Rightarrow> True | _ \<Rightarrow> tui)"

lemma console_inv_move:
  assumes "daemon_moves sys c version F d (Some d')" and "console_inv tui d"
  shows "console_inv tui d'"
  using assms(1)
proof cases
  case (process e)
  then obtain n where "d' = d\<lparr>d_node := n\<rparr>" by (cases "processFrames_iter e (d_node d)") auto
  then show ?thesis using assms(2) by (simp add: console_inv_def)
next
  case (supervise e)
  then obtain n where "d' = d\<lparr>d_node := n\<rparr>" by (cases "SendSupervisionFrame e (d_node d)") auto
  then show ?thesis using assms(2) by (simp add: console_inv_def)
qed (use assms(2) in \<open>simp_all add: console_inv_def say_def terminal_of_def tui_enter_def tui_draw_def tui_leave_def\<close>)

lemma console_inv_launch:
  "console_inv (IsTerminal TCGETS 1 \<and> sys_Getenv sys ''PRP_NO_TUI'' = '''') (launch sys TCGETS c n)"
  by (auto simp: console_inv_def launch_def terminal_of_def terminal_def)

lemma console_inv_reaches:
  assumes "daemon_reaches sys c version F d0 (Some d)" and "console_inv tui d0"
  shows "console_inv tui d"
  using assms by (induction "Some d" arbitrary: d rule: daemon_reaches.induct) (auto dest: console_inv_move)

section \<open>Properties\<close>



text \<open>
  C39. The screen may stay: after the signal \<open>main\<close> stops the node and returns, which ends the process whether or
  not the presentation loop has seen the stop. There is a run, from every daemon that starts on a
  terminal, that ends with the terminal on the alternate screen.
\<close>

theorem alternate_screen_may_stay:
  assumes "IsTerminal TCGETS 1" and "sys_Getenv sys ''PRP_NO_TUI'' = ''''"
  shows "\<exists>d. daemon_reaches sys c version F (launch sys TCGETS c n) (Some d) \<and> d_main d = Returned
    \<and> terminal (d_out d) = Some Alternate \<and> (\<forall>x. \<not> daemon_moves sys c version F d x)"
proof -
  define d0 where "d0 = launch sys TCGETS c n"
  define d1 where "d1 = tui_enter 0 d0"
  define d2 where "d2 = (say (Text (lit ''prpd: shutting down'' @ LF)) d1)\<lparr>d_main := Signalled\<rparr>"
  define d3 where "d3 = d2\<lparr>d_node := Stop (d_node d2), d_main := NodeStopped\<rparr>"
  define d4 where "d4 = d3\<lparr>d_main := Returned\<rparr>"
  have v: "d_view d0 = ScreenSoon" "d_main d0 = AwaitSignal" using assms by (simp_all add: d0_def launch_def)
  have "daemon_moves sys c version F d0 (Some d1)" unfolding d1_def by (rule daemon_moves.screen_on) (use v in simp_all)
  moreover have "daemon_moves sys c version F d1 (Some d2)" unfolding d2_def
    by (rule daemon_moves.signal) (use v in \<open>simp add: d1_def tui_enter_def say_def\<close>)
  moreover have "daemon_moves sys c version F d2 (Some d3)" unfolding d3_def
    by (rule daemon_moves.stop_node) (simp add: d2_def)
  moreover have "daemon_moves sys c version F d3 (Some d4)" unfolding d4_def
    by (rule daemon_moves.return) (simp add: d3_def)
  ultimately have "daemon_reaches sys c version F d0 (Some d4)" by (meson daemon_reaches.intros)
  moreover have "terminal (d_out d4) = Some Alternate"
    by (simp add: d4_def d3_def d2_def d1_def d0_def tui_enter_def say_def launch_def terminal_def)
  moreover have "d_main d4 = Returned" by (simp add: d4_def)
  moreover from this have "\<not> daemon_moves sys c version F d4 x" for x by (auto elim: daemon_movesE)
  ultimately show ?thesis unfolding d0_def by blast
qed

theorem alternate_screen_may_stay_witness:
  "\<exists>d. daemon_reaches (ex_sys (ex_yaml ''hsr-prp'' ''eth2'') (\<lambda>_. '''')) (ex_yaml ''hsr-prp'' ''eth2'') Version (\<lambda>_. True)
      (launch (ex_sys (ex_yaml ''hsr-prp'' ''eth2'') (\<lambda>_. '''')) (\<lambda>fd. fd = 1) (ex_yaml ''hsr-prp'' ''eth2'') (ex_node ''hsr-prp'' 1)) (Some d)
    \<and> d_main d = Returned \<and> terminal (d_out d) = Some Alternate"
proof -
  have "IsTerminal (\<lambda>fd. fd = 1) 1" "sys_Getenv (ex_sys (ex_yaml ''hsr-prp'' ''eth2'') (\<lambda>_. '''')) ''PRP_NO_TUI'' = ''''"
    by (simp_all add: IsTerminal_def ex_sys_def)
  from alternate_screen_may_stay[OF this, of "ex_yaml ''hsr-prp'' ''eth2''" Version "\<lambda>_. True" "ex_node ''hsr-prp'' 1"]
  show ?thesis by blast
qed

end
