(* ===== verification/IEC.thy ===== *)
theory IEC
  imports Prelude
begin

text \<open>
  \<open>internal/iec\<close>: the BER subset of the traffic generator, GOOSE and SV APDUs, and UtcTime.

  Decoding works on Go slices: \<open>apdu\<close> is the slice, \<open>spare\<close> the bytes between its length and its
  capacity, which a slice expression may reach into. \<^const>\<open>None\<close> is a run-time panic. Lengths are
  64-bit \<open>int\<close>s; the shifts that collect a long-form length wrap.
\<close>

unbundle bit_operations_syntax

section \<open>BER\<close>

definition encodeTag :: "byte \<Rightarrow> byte" where
  "encodeTag tag = tag"

text \<open>The loop that counts the bytes of a length.\<close>

function len_bytes :: "nat \<Rightarrow> nat" where
  "len_bytes tmp = (if tmp > 0 then Suc (len_bytes (tmp div 256)) else 0)"
  by pat_completeness auto
termination by (relation "measure id") auto

declare len_bytes.simps [simp del]

definition encodeLength :: "int \<Rightarrow> bytes option" where
  "encodeLength len =
     (if len < 0 then None
      else if len < 128 then Some [word_of_int len]
      else let v = nat len; lenBytes = len_bytes v
           in Some ((0x80 OR of_nat lenBytes) # map (\<lambda>i. of_nat (v div 256 ^ i)) (rev [0..<lenBytes])))"

definition encodeTLV :: "byte \<Rightarrow> bytes \<Rightarrow> bytes option" where
  "encodeTLV tag payload = do { l \<leftarrow> encodeLength (int (length payload)); Some (tag # l @ payload) }"

text \<open>\<open>length = (length << 8) | int(b)\<close>\<close>

definition be_step :: "byte \<Rightarrow> int \<Rightarrow> int" where
  "be_step b acc = i64 (push_bit 8 acc) OR uint b"

text \<open>The long form: \<open>numBytes\<close> bytes from \<open>off\<close>, each read with a bounds check.\<close>

definition long_length :: "bytes \<Rightarrow> nat \<Rightarrow> nat \<Rightarrow> int option" where
  "long_length data off numBytes =
     (if off + numBytes \<le> length data then Some (fold be_step (gslice off (off + numBytes) data) 0) else None)"

text \<open>\<open>data[lo:hi]\<close> with 64-bit bounds: panics unless \<open>lo \<le> hi \<le> cap\<close>.\<close>

definition slice_to :: "bytes \<Rightarrow> bytes \<Rightarrow> nat \<Rightarrow> int \<Rightarrow> bytes option" where
  "slice_to data spare lo hi =
     (if int lo \<le> hi \<and> hi \<le> int (length data + length spare) then Some (gslice lo (nat hi) (data @ spare)) else None)"

text \<open>The length octets of a TLV: the length and the offset of the payload, if they are all there.\<close>

definition tlv_header :: "bytes \<Rightarrow> (int \<times> nat) option" where
  "tlv_header data =
     (let lengthByte = data ! 1 in
        if lengthByte AND 0x80 = 0 then Some (uint lengthByte, 2)
        else let numBytes = unat (lengthByte AND 0x7f) in
          if length data < 2 + numBytes then None
          else Some (fold be_step (gslice 2 (2 + numBytes) data) 0, 2 + numBytes))"

text \<open>\<open>parseTLV\<close>: the inner option is its \<open>ok\<close>. The check before the slice keeps it within the length.\<close>

definition parseTLV :: "bytes \<Rightarrow> (byte \<times> bytes \<times> bytes) option option" where
  "parseTLV data =
     (if length data < 2 then Some None
      else case tlv_header data of
          None \<Rightarrow> Some None
        | Some (len, off) \<Rightarrow>
          if int (length data) < i64 (int off + len) then Some None
          else do { payload \<leftarrow> slice_to data [] off (i64 (int off + len));
                    Some (Some (data ! 0, payload, drop (nat (i64 (int off + len))) data)) })"

definition Boolean :: "bool \<Rightarrow> bytes" where
  "Boolean b = (if b then [0x01, 0x01, 0xff] else [0x01, 0x01, 0x00])"

definition Integer16 :: "u16 \<Rightarrow> bytes" where
  "Integer16 v = [ucast (drop_bit 8 v), ucast (v AND 0xff)]"

definition iec_String :: "bytes \<Rightarrow> bytes" where
  "iec_String s = s"

section \<open>UtcTime\<close>

definition EncodeUtcTime :: "time \<Rightarrow> bytes" where
  "EncodeUtcTime t =
     (let epoch = t div 1000000000;
          fracVal = (t mod 1000000000) * 2 ^ 24 div 1000000000
      in [word_of_int (drop_bit 24 epoch), word_of_int (drop_bit 16 epoch AND 0xff),
          word_of_int (drop_bit 8 epoch AND 0xff), word_of_int (epoch AND 0xff),
          word_of_int (drop_bit 16 fracVal AND 0xff), word_of_int (drop_bit 8 fracVal AND 0xff),
          word_of_int (fracVal AND 0xff), 0x80])"

text \<open>\<open>time.Time{}\<close> is the first instant of the year 1.\<close>

definition zeroTime :: time where
  "zeroTime = - 62135596800 * 1000000000"

definition DecodeUtcTime :: "bytes \<Rightarrow> time" where
  "DecodeUtcTime b =
     (if length b \<noteq> 8 then zeroTime
      else let epoch = push_bit 24 (uint (b ! 0)) OR push_bit 16 (uint (b ! 1)) OR push_bit 8 (uint (b ! 2)) OR uint (b ! 3);
               fracVal = push_bit 16 (uint (b ! 4)) OR push_bit 8 (uint (b ! 5)) OR uint (b ! 6);
               ns = fracVal * 1000000000 div 2 ^ 24
           in epoch * 1000000000 + ns)"

section \<open>GOOSE\<close>

definition concat_TLVs :: "(byte \<times> bytes) list \<Rightarrow> bytes option" where
  "concat_TLVs tlvs = fold (\<lambda>(tag, p) acc. do { payload \<leftarrow> acc; tlv \<leftarrow> encodeTLV tag p; Some (payload @ tlv) }) tlvs (Some [])"

definition BuildGOOSEAPDU ::
    "u16 \<Rightarrow> u16 \<Rightarrow> time \<Rightarrow> bool \<Rightarrow> u16 \<Rightarrow> bytes \<Rightarrow> bytes \<Rightarrow> bytes \<Rightarrow> bytes option" where
  "BuildGOOSEAPDU stNum sqNum t test confRev gcbRef datSet goID =
     do { payload \<leftarrow> concat_TLVs
            [(0x80, iec_String gcbRef), (0x81, Integer16 2000), (0x82, iec_String datSet), (0x83, iec_String goID),
             (0x84, EncodeUtcTime t), (0x85, Integer16 stNum), (0x86, Integer16 sqNum), (0x87, Boolean test),
             (0x88, Integer16 confRev), (0x89, Boolean False), (0x8a, [0x01]), (0xab, Boolean test)];
          l \<leftarrow> encodeLength (int (length payload));
          Some (0x61 # l @ payload) }"

record goose_fields =
  g_stNum :: u16
  g_sqNum :: u16
  g_t :: time
  g_allData :: bool
  g_stNumSet :: bool
  g_sqNumSet :: bool
  g_allDataSet :: bool

definition goose_field :: "byte \<Rightarrow> bytes \<Rightarrow> goose_fields \<Rightarrow> goose_fields" where
  "goose_field tag payload g =
     (if tag = 0x85 then (if length payload = 2 then g\<lparr>g_stNum := Uint16 (payload ! 0) (payload ! 1), g_stNumSet := True\<rparr> else g)
      else if tag = 0x86 then (if length payload = 2 then g\<lparr>g_sqNum := Uint16 (payload ! 0) (payload ! 1), g_sqNumSet := True\<rparr> else g)
      else if tag = 0x84 then (if length payload = 8 then g\<lparr>g_t := DecodeUtcTime payload\<rparr> else g)
      else if tag = 0xab
      then (if length payload = 3 \<and> payload ! 0 = 0x01 \<and> payload ! 1 = 0x01
            then g\<lparr>g_allData := (payload ! 2 \<noteq> 0x00), g_allDataSet := True\<rparr> else g)
      else g)"

lemma parseTLV_shorter:
  assumes "parseTLV data = Some (Some (tag, payload, rest))"
  shows "length rest < length data"
proof -
  obtain len off where h: "tlv_header data = Some (len, off)" "2 \<le> length data"
    using assms by (auto simp: parseTLV_def split: if_splits option.splits)
  then have "2 \<le> off" by (auto simp: tlv_header_def Let_def split: if_splits)
  then show ?thesis
    using h assms by (auto simp: parseTLV_def slice_to_def split: if_splits bind_splits)
qed

text \<open>A loop over TLVs: stops at the first that does not parse; \<open>step\<close> is the body.\<close>

function walk_TLVs :: "(byte \<Rightarrow> bytes \<Rightarrow> 's \<Rightarrow> 's option) \<Rightarrow> bytes \<Rightarrow> 's \<Rightarrow> 's option" where
  "walk_TLVs step rest s =
     (if length rest = 0 then Some s
      else case parseTLV rest of
        None \<Rightarrow> None
      | Some None \<Rightarrow> Some s
      | Some (Some (tag, payload, r)) \<Rightarrow>
        (case step tag payload s of None \<Rightarrow> None | Some s \<Rightarrow> walk_TLVs step r s))"
  by pat_completeness auto

termination
  by (relation "measure (\<lambda>(step, rest, s). length rest)") (auto dest: parseTLV_shorter)

declare walk_TLVs.simps [simp del]

text \<open>The header of an APDU: the length octets are read without a check of their number.\<close>

definition apdu_length :: "bytes \<Rightarrow> (int \<times> nat) option" where
  "apdu_length apdu =
     (let lengthByte = apdu ! 1 in
        if lengthByte AND 0x80 = 0 then Some (uint lengthByte, 2)
        else let numBytes = unat (lengthByte AND 0x7f) in
          do { len \<leftarrow> long_length apdu 2 numBytes; Some (len, 2 + numBytes) })"

definition ParseGOOSEAPDU :: "bytes \<Rightarrow> bytes \<Rightarrow> (u16 \<times> u16 \<times> time \<times> bool \<times> bool) option" where
  "ParseGOOSEAPDU apdu spare =
     (if length apdu < 2 \<or> apdu ! 0 \<noteq> 0x61 then Some (0, 0, zeroTime, False, False)
      else do {
        (len, off) \<leftarrow> apdu_length apdu;
        if int (length apdu) < i64 (int off + len) then Some (0, 0, zeroTime, False, False)
        else do {
          data \<leftarrow> slice_to apdu spare off (i64 (int off + len));
          g \<leftarrow> walk_TLVs (\<lambda>tag payload g. Some (goose_field tag payload g)) data
                \<lparr>g_stNum = 0, g_sqNum = 0, g_t = zeroTime, g_allData = False,
                 g_stNumSet = False, g_sqNumSet = False, g_allDataSet = False\<rparr>;
          Some (g_stNum g, g_sqNum g, g_t g, g_allData g, g_stNumSet g \<and> g_sqNumSet g \<and> g_allDataSet g) } })"

section \<open>SV\<close>

definition BuildSVAPDU :: "u16 \<Rightarrow> u16 \<Rightarrow> bytes \<Rightarrow> bytes option" where
  "BuildSVAPDU smpCnt confRev svID =
     do { asduPayload \<leftarrow> concat_TLVs
            [(0x80, iec_String svID), (0x81, Integer16 smpCnt), (0x82, Integer16 confRev), (0x83, [0x00]),
             (0x84, Integer16 4800), (0x85, Integer16 0)];
          payload \<leftarrow> concat_TLVs [(0x80, [0x01, 0x01, 0x01]), (0x81, [0x00, 0x00]), (0xa2, asduPayload)];
          l \<leftarrow> encodeLength (int (length payload));
          Some (0x60 # l @ payload) }"

text \<open>The state is \<open>smpCnt\<close> and \<open>smpCntSet\<close>.\<close>

definition sv_smpCnt :: "byte \<Rightarrow> bytes \<Rightarrow> u16 \<times> bool \<Rightarrow> u16 \<times> bool" where
  "sv_smpCnt tag payload s =
     (if tag = 0x81 \<and> length payload = 2 then (Uint16 (payload ! 0) (payload ! 1), True) else s)"

definition ParseSVAPDU :: "bytes \<Rightarrow> bytes \<Rightarrow> (u16 \<times> bool) option" where
  "ParseSVAPDU apdu spare =
     (if length apdu < 2 \<or> apdu ! 0 \<noteq> 0x60 then Some (0, False)
      else do {
        (len, off) \<leftarrow> apdu_length apdu;
        data \<leftarrow> slice_to apdu spare off (i64 (int off + len));
        walk_TLVs (\<lambda>tag payload s.
            if tag = 0x81 then Some (sv_smpCnt tag payload s)
            else if tag = 0xa2 then walk_TLVs (\<lambda>t pl s. Some (sv_smpCnt t pl s)) payload s
            else Some s) data (0, False) })"

definition SVState :: "u16 \<Rightarrow> u16" where
  "SVState smpCnt = (smpCnt + 1) mod 4096"

section \<open>Round trips\<close>

lemma uint_byte_bounds: "0 \<le> uint (b :: byte)" "uint b < 256"
  using unsigned_less[of b] by simp_all

lemma or_push8: "0 \<le> b \<Longrightarrow> b < 256 \<Longrightarrow> push_bit 8 a OR b = 256 * a + (b :: int)"
  using concat_bit_def[of 8 b a] concat_bit_eq[of 8 b a]
  by (simp add: take_bit_int_eq_self push_bit_eq_mult or.commute)

lemma be_step_eq:
  assumes "0 \<le> acc" and "256 * acc + uint b < 2 ^ 63"
  shows "be_step b acc = 256 * acc + uint b"
proof -
  have "push_bit 8 acc = 256 * acc" "256 * acc < 2 ^ 63"
    using assms(2) uint_byte_bounds(1)[of b] by (simp add: push_bit_eq_mult, linarith)
  then have "i64 (push_bit 8 acc) = push_bit 8 acc"
    using assms(1) by (intro i64_id) simp_all
  then show ?thesis using or_push8[OF uint_byte_bounds[of b]] by (simp add: be_step_def)
qed

lemma uint_of_nat_byte: "uint (of_nat n :: byte) = int (n mod 256)"
  by (simp add: unsigned_of_nat take_bit_of_nat take_bit_eq_mod zmod_int)

lemma be_digits:
  assumes "0 \<le> acc" and "acc * 256 ^ k + int (v mod 256 ^ k) < 2 ^ 63"
  shows "fold be_step (map (\<lambda>i. of_nat (v div 256 ^ i)) (rev [0..<k])) acc = acc * 256 ^ k + int (v mod 256 ^ k)"
  using assms
proof (induction k arbitrary: acc)
  case 0
  then show ?case by simp
next
  case (Suc k)
  let ?d = "int (v div 256 ^ k mod 256)"
  have split: "int (v mod 256 ^ Suc k) = ?d * 256 ^ k + int (v mod 256 ^ k)"
    using mod_mult2_eq[of v "256 ^ k" 256] by (simp add: mult.commute)
  have "256 * acc + ?d \<le> (256 * acc + ?d) * 256 ^ k"
    using Suc.prems(1) mult_left_mono[of 1 "256 ^ k" "256 * acc + ?d"] by simp
  then have lt: "256 * acc + ?d < 2 ^ 63"
    using Suc.prems(2) split by (simp add: algebra_simps)
  have "be_step (of_nat (v div 256 ^ k)) acc = 256 * acc + ?d"
    using Suc.prems(1) lt by (subst be_step_eq) (simp_all add: uint_of_nat_byte)
  then show ?case
    using Suc.IH[of "256 * acc + ?d"] Suc.prems split by (simp add: algebra_simps)
qed

lemma len_bytes_bound: "v < 256 ^ len_bytes v"
proof (induction v rule: len_bytes.induct)
  case (1 v)
  then show ?case by (cases "v = 0") (simp_all add: len_bytes.simps[of v] div_less_iff_less_mult mult.commute)
qed

lemma len_bytes_le: "v < 256 ^ k \<Longrightarrow> len_bytes v \<le> k"
proof (induction k arbitrary: v)
  case 0
  then show ?case by (simp add: len_bytes.simps[of 0])
next
  case (Suc k)
  have "v div 256 < 256 ^ k" using Suc.prems by (simp add: div_less_iff_less_mult mult.commute)
  with Suc.IH[of "v div 256"] show ?case by (simp add: len_bytes.simps[of v])
qed

lemma b80: "bit (0x80 :: byte) n \<longleftrightarrow> n = 7"
proof -
  have "(0x80 :: byte) = push_bit 7 1" by simp
  then show ?thesis by (auto simp only: bit_push_bit_iff bit_1_iff) (simp add: possible_bit_def)
qed

lemma long_form_octet:
  assumes "k < 128"
  shows "((0x80 :: byte) OR of_nat k) AND 0x80 \<noteq> 0" and "unat (((0x80 :: byte) OR of_nat k) AND 0x7f) = k"
proof -
  have b7f: "(0x7f :: byte) = mask 7" by (simp add: mask_eq_exp_minus_1)
  have "bit (((0x80 :: byte) OR of_nat k) AND 0x80) 7" by (simp add: bit_and_iff bit_or_iff b80)
  then show "((0x80 :: byte) OR of_nat k) AND 0x80 \<noteq> 0" by force
  have "((0x80 :: byte) OR of_nat k) AND 0x7f = take_bit 7 (of_nat k)"
    unfolding b7f by (rule bit_word_eqI) (auto simp only: bit_and_iff bit_or_iff b80 bit_mask_iff bit_take_bit_iff possible_bit_word)
  then show "unat (((0x80 :: byte) OR of_nat k) AND 0x7f) = k"
    using assms by (simp add: unsigned_take_bit_eq unsigned_of_nat take_bit_nat_eq_self)
qed

text \<open>The octets of a length read back, whatever follows them.\<close>

lemma encodeLength_octets:
  assumes "int n < 2 ^ 63"
  obtains l where "encodeLength (int n) = Some l"
    and "\<And>tag r. tlv_header (tag # l @ r) = Some (int n, Suc (length l))"
    and "\<And>tag r. apdu_length (tag # l @ r) = Some (int n, Suc (length l))" and "length l \<le> 9" and "l \<noteq> []"
proof (cases "n < 128")
  case True
  have "(word_of_int (int n) :: byte) AND 0x80 = 0 \<and> uint (word_of_int (int n) :: byte) = int n"
  proof
    show "uint (word_of_int (int n) :: byte) = int n"
      using True by (simp add: unsigned_of_nat take_bit_nat_eq_self)
    have "(of_nat n :: byte) = take_bit 7 (of_nat n)"
      using True by (simp add: take_bit_of_nat take_bit_nat_eq_self)
    moreover have "take_bit 7 w AND 0x80 = 0" for w :: byte
      by (rule bit_word_eqI) (auto simp only: bit_and_iff bit_take_bit_iff b80 bit_0_eq bot_apply bot_bool_def)
    ultimately show "(word_of_int (int n) :: byte) AND 0x80 = 0" by (metis of_int_of_nat_eq)
  qed
  with True show thesis
    by (intro that[of "[word_of_int (int n)]"]) (simp_all add: encodeLength_def tlv_header_def apdu_length_def Let_def)
next
  case False
  let ?k = "len_bytes n" and ?d = "map (\<lambda>i. of_nat (n div 256 ^ i) :: byte) (rev [0..<len_bytes n])"
  have k: "?k \<le> 8" using assms by (intro len_bytes_le) simp
  have v: "fold be_step ?d 0 = int n"
    using be_digits[of 0 ?k n] len_bytes_bound[of n] assms by simp
  have g: "gslice 2 (2 + ?k) (tag # (0x80 OR of_nat ?k) # ?d @ r) = ?d" for tag r
    by (simp add: gslice_def)
  have "tlv_header (tag # ((0x80 OR of_nat ?k) # ?d) @ r) = Some (int n, 2 + ?k)"
    "apdu_length (tag # ((0x80 OR of_nat ?k) # ?d) @ r) = Some (int n, 2 + ?k)" for tag r
    using long_form_octet[of ?k] k v g
    by (simp_all add: tlv_header_def apdu_length_def long_length_def Let_def)
  with k False show thesis
    by (intro that[of "(0x80 OR of_nat ?k) # ?d"]) (simp_all add: encodeLength_def Let_def)
qed

lemma parseTLV_encodeTLV:
  assumes "int (length payload) < 2 ^ 62"
  obtains tlv where "encodeTLV tag payload = Some tlv" and "\<And>r. parseTLV (tlv @ r) = Some (Some (tag, payload, r))"
    and "length tlv \<le> length payload + 10" and "tlv \<noteq> []"
proof -
  have "int (length payload) < 2 ^ 63" using assms by simp
  then obtain l where l: "encodeLength (int (length payload)) = Some l"
    "\<And>tag r. tlv_header (tag # l @ r) = Some (int (length payload), Suc (length l))" "length l \<le> 9" "l \<noteq> []"
    by (rule encodeLength_octets) blast
  have i: "i64 (int (Suc (length l)) + int (length payload)) = int (Suc (length l) + length payload)"
    using assms l(3) by (subst i64_id) simp_all
  have p: "parseTLV ((tag # l @ payload) @ r) = Some (Some (tag, payload, r))" for r
    using l(2)[of tag "payload @ r"] l(4) i
    by (cases l) (simp_all add: parseTLV_def slice_to_def gslice_def nat_add_distrib)
  show thesis by (rule that[OF _ p]) (use l in \<open>simp_all add: encodeTLV_def\<close>)
qed

text \<open>Running the body of a TLV loop over a list of fields.\<close>

primrec step_all :: "(byte \<Rightarrow> bytes \<Rightarrow> 's \<Rightarrow> 's option) \<Rightarrow> (byte \<times> bytes) list \<Rightarrow> 's \<Rightarrow> 's option" where
  "step_all step [] s = Some s"
| "step_all step (f # fs) s = Option.bind (step (fst f) (snd f) s) (step_all step fs)"

text \<open>What \<open>concat_TLVs\<close> writes, a TLV loop reads, field by field.\<close>

lemma walk_concat_acc:
  assumes "\<forall>f \<in> set fs. int (length (snd f)) < 2 ^ 62"
  shows "\<exists>bs. (\<forall>acc. fold (\<lambda>(tag, p) acc. do { payload \<leftarrow> acc; tlv \<leftarrow> encodeTLV tag p; Some (payload @ tlv) }) fs (Some acc)
                 = Some (acc @ bs))
            \<and> (\<forall>s. walk_TLVs step bs s = step_all step fs s)
            \<and> length bs \<le> sum_list (map (\<lambda>f. length (snd f) + 10) fs)"
  using assms
proof (induction fs)
  case Nil
  then show ?case by (simp add: walk_TLVs.simps)
next
  case (Cons f fs)
  obtain bs where bs:
    "\<And>acc. fold (\<lambda>(tag, p) acc. do { payload \<leftarrow> acc; tlv \<leftarrow> encodeTLV tag p; Some (payload @ tlv) }) fs (Some acc) = Some (acc @ bs)"
    "\<And>s. walk_TLVs step bs s = step_all step fs s" "length bs \<le> sum_list (map (\<lambda>f. length (snd f) + 10) fs)"
    using Cons by auto
  obtain tlv where tlv: "encodeTLV (fst f) (snd f) = Some tlv" "\<And>r. parseTLV (tlv @ r) = Some (Some (fst f, snd f, r))"
    "length tlv \<le> length (snd f) + 10" "tlv \<noteq> []"
    using parseTLV_encodeTLV[of "snd f" "fst f"] Cons.prems by auto
  have "walk_TLVs step (tlv @ bs) s = step_all step (f # fs) s" for s
    using tlv(2,4) bs(2) by (subst walk_TLVs.simps) (auto split: option.splits)
  then show ?case
    using bs tlv by (intro exI[of _ "tlv @ bs"]) (cases f, auto)
qed

lemma walk_concat:
  assumes "\<forall>f \<in> set fs. int (length (snd f)) < 2 ^ 62"
  shows "\<exists>bs. concat_TLVs fs = Some bs \<and> (\<forall>s. walk_TLVs step bs s = step_all step fs s)
            \<and> length bs \<le> sum_list (map (\<lambda>f. length (snd f) + 10) fs)"
  using walk_concat_acc[OF assms, of step] by (fastforce simp: concat_TLVs_def)

text \<open>An APDU is read back to exactly its payload.\<close>

lemma apdu_slice:
  assumes "int (length payload) < 2 ^ 62"
  shows "\<exists>l off. encodeLength (int (length payload)) = Some l \<and> l \<noteq> []
            \<and> apdu_length (tag # l @ payload) = Some (int (length payload), off)
            \<and> i64 (int off + int (length payload)) = int (length (tag # l @ payload))
            \<and> slice_to (tag # l @ payload) spare off (int (length (tag # l @ payload))) = Some payload"
proof -
  have "int (length payload) < 2 ^ 63" using assms by simp
  then obtain l where l: "encodeLength (int (length payload)) = Some l"
    "\<And>tag r. apdu_length (tag # l @ r) = Some (int (length payload), Suc (length l))" "length l \<le> 9" "l \<noteq> []"
    by (rule encodeLength_octets) blast
  then have "i64 (int (Suc (length l)) + int (length payload)) = int (length (tag # l @ payload))"
    using assms by (subst i64_id) simp_all
  then show ?thesis
    using l by (intro exI[of _ l] exI[of _ "Suc (length l)"]) (simp add: slice_to_def gslice_def)
qed

lemma Integer16_octets:
  "length (Integer16 v) = 2" "Uint16 (Integer16 v ! 0) (Integer16 v ! 1) = v"
proof -
  have "Uint16 (ucast (drop_bit 8 v)) (ucast (v AND 0xff)) = v"
  proof (rule bit_word_eqI)
    fix n assume "n < LENGTH(16)"
    then show "bit (Uint16 (ucast (drop_bit 8 v)) (ucast (v AND 0xff))) n = bit v n"
    proof -
      have ff: "(0xff :: u16) = mask 8" by (simp add: mask_eq_exp_minus_1)
      show ?thesis
        using \<open>n < LENGTH(16)\<close>
        by (cases "n < 8") (auto simp: Uint16_def ff bit_simps)
    qed
  qed
  then show "length (Integer16 v) = 2" "Uint16 (Integer16 v ! 0) (Integer16 v ! 1) = v"
    by (simp_all add: Integer16_def)
qed

lemma length_Boolean: "length (Boolean b) = 3"
  by (simp add: Boolean_def)

lemma take8_ff: "uint (word_of_int (x AND 0xff) :: byte) = take_bit 8 x"
proof -
  have ff: "(0xff :: int) = mask 8" by (simp add: mask_eq_exp_minus_1)
  show ?thesis unfolding ff by (simp add: unsigned_of_int take_bit_eq_mask and.assoc)
qed

lemma take8: "uint (word_of_int x :: byte) = take_bit 8 x"
  by (simp add: unsigned_of_int)

lemma DecodeUtcTime_octets:
  "DecodeUtcTime [b0, b1, b2, b3, b4, b5, b6, q] =
     (push_bit 24 (uint b0) OR push_bit 16 (uint b1) OR push_bit 8 (uint b2) OR uint b3) * 1000000000
     + (push_bit 16 (uint b4) OR push_bit 8 (uint b5) OR uint b6) * 1000000000 div 16777216"
  by (simp add: DecodeUtcTime_def)

lemma epoch_octets:
  "push_bit 24 (take_bit 8 (drop_bit 24 e)) OR push_bit 16 (take_bit 8 (drop_bit 16 e))
     OR push_bit 8 (take_bit 8 (drop_bit 8 e)) OR take_bit 8 e = take_bit 32 (e :: int)" (is "?l = ?r")
proof (rule bit_eqI)
  fix n :: nat
  consider "n < 8" | "8 \<le> n" "n < 16" | "16 \<le> n" "n < 24" | "24 \<le> n" by linarith
  then show "bit ?l n = bit ?r n" by cases (auto simp: bit_simps)
qed

lemma frac_octets:
  "push_bit 16 (take_bit 8 (drop_bit 16 e)) OR push_bit 8 (take_bit 8 (drop_bit 8 e)) OR take_bit 8 e
     = take_bit 24 (e :: int)" (is "?l = ?r")
proof (rule bit_eqI)
  fix n :: nat
  consider "n < 8" | "8 \<le> n" "n < 16" | "16 \<le> n" by linarith
  then show "bit ?l n = bit ?r n" by cases (auto simp: bit_simps)
qed

lemma div_bounds: "0 < c \<Longrightarrow> c * (x div c) \<le> x \<and> x < c * (x div c) + (c :: int)"
  using mult_div_mod_eq[of c x] pos_mod_bound[of c x] pos_mod_sign[of c x] by linarith

text \<open>The fraction: how far \<open>ns\<close> is from what 24 bits keep of it.\<close>

lemma frac_bounds:
  assumes "0 \<le> n" and "n < 1000000000"
  defines "f \<equiv> n * 16777216 div 1000000000"
  shows "0 \<le> f" and "f < 16777216" and "f * 1000000000 div 16777216 \<le> n" and "n - f * 1000000000 div 16777216 \<le> (60 :: int)"
proof -
  have f: "1000000000 * f \<le> n * 16777216" "n * 16777216 < 1000000000 * f + 1000000000"
    unfolding f_def using div_bounds[of 1000000000 "n * 16777216"] by simp_all
  have g: "16777216 * (f * 1000000000 div 16777216) \<le> f * 1000000000"
    "f * 1000000000 < 16777216 * (f * 1000000000 div 16777216) + 16777216"
    using div_bounds[of 16777216 "f * 1000000000"] by simp_all
  show "0 \<le> f" "f < 16777216" using f assms(1,2) by linarith+
  show "f * 1000000000 div 16777216 \<le> n" "n - f * 1000000000 div 16777216 \<le> 60" using f g by linarith+
qed

lemma DecodeUtcTime_Encode:
  assumes "0 \<le> t" and "t < 2 ^ 32 * 1000000000"
  shows "DecodeUtcTime (EncodeUtcTime t)
           = t div 1000000000 * 1000000000 + (t mod 1000000000) * 16777216 div 1000000000 * 1000000000 div 16777216"
proof -
  define e f where "e = t div 1000000000" and "f = (t mod 1000000000) * 16777216 div 1000000000"
  have "0 \<le> e" "e < 2 ^ 32"
    using div_bounds[of 1000000000 t] assms unfolding e_def by linarith+
  then have e: "take_bit 32 e = e" by (intro take_bit_int_eq_self)
  have f: "take_bit 24 f = f"
    using frac_bounds[of "t mod 1000000000"] unfolding f_def by (intro take_bit_int_eq_self) simp_all
  have enc: "EncodeUtcTime t =
     [word_of_int (drop_bit 24 e), word_of_int (drop_bit 16 e AND 0xff),
      word_of_int (drop_bit 8 e AND 0xff), word_of_int (e AND 0xff),
      word_of_int (drop_bit 16 f AND 0xff), word_of_int (drop_bit 8 f AND 0xff), word_of_int (f AND 0xff), 0x80]"
    by (simp add: EncodeUtcTime_def e_def f_def Let_def)
  show ?thesis
    unfolding enc DecodeUtcTime_octets take8_ff unfolding take8 epoch_octets unfolding frac_octets e f by (simp add: e_def f_def)
qed

lemma utc_bounds:
  assumes "0 \<le> t" and "t < 2 ^ 32 * 1000000000"
  shows "DecodeUtcTime (EncodeUtcTime t) \<le> t" and "t - DecodeUtcTime (EncodeUtcTime t) \<le> 60"
proof -
  have "0 \<le> t mod 1000000000" "t mod 1000000000 < 1000000000" by simp_all
  then show "DecodeUtcTime (EncodeUtcTime t) \<le> t" "t - DecodeUtcTime (EncodeUtcTime t) \<le> 60"
    using frac_bounds(3,4)[of "t mod 1000000000"] mult_div_mod_eq[of 1000000000 t]
    unfolding DecodeUtcTime_Encode[OF assms] by linarith+
qed

section \<open>Properties of the codec\<close>

text \<open>\<open>parseTLV\<close> inverts \<open>encodeTLV\<close>: a TLV of any payload shorter than 2^62 bytes, in the short or
  the long form of its length, followed by anything, is read back to its tag, its payload and exactly
  the bytes after it; the encoder does not panic.\<close>

theorem tlv_round_trip:
  assumes "int (length payload) < 2 ^ 62"
  shows "\<exists>tlv. encodeTLV tag payload = Some tlv \<and> parseTLV (tlv @ rest) = Some (Some (tag, payload, rest))"
  using parseTLV_encodeTLV[OF assms, of tag] by blast

theorem tlv_round_trip_witness:
  "\<exists>tlv. encodeTLV 0x80 (replicate 300 7) = Some tlv \<and> parseTLV (tlv @ [1, 2]) = Some (Some (0x80, replicate 300 7, [1, 2]))"
  by (rule tlv_round_trip) simp

text \<open>UtcTime: any instant from 1970 to the end of the 32-bit epoch decodes to an instant that is
  never later and at most 60 ns earlier, the resolution of the 24-bit fraction.\<close>

theorem utc_time_resolution:
  assumes "0 \<le> t" and "t < 2 ^ 32 * 1000000000"
  shows "DecodeUtcTime (EncodeUtcTime t) \<le> t \<and> t - DecodeUtcTime (EncodeUtcTime t) \<le> 60"
  using utc_bounds[OF assms] by blast

theorem utc_time_resolution_witness:
  "DecodeUtcTime (EncodeUtcTime 1700000000123456789) \<le> 1700000000123456789
   \<and> 1700000000123456789 - DecodeUtcTime (EncodeUtcTime 1700000000123456789) \<le> 60"
  by (rule utc_time_resolution) simp_all

lemma goose_parsed:
  assumes "int (length gcbRef) < 2 ^ 60" and "int (length datSet) < 2 ^ 60" and "int (length goID) < 2 ^ 60"
    and "0 \<le> t" and "t < 2 ^ 32 * 1000000000"
  shows "\<exists>apdu t'. BuildGOOSEAPDU stNum sqNum t test confRev gcbRef datSet goID = Some apdu
           \<and> ParseGOOSEAPDU apdu spare = Some (stNum, sqNum, t', test, True) \<and> t' \<le> t \<and> t - t' \<le> 60"
proof -
  let ?fs = "[(0x80, iec_String gcbRef), (0x81, Integer16 2000), (0x82, iec_String datSet), (0x83, iec_String goID),
    (0x84, EncodeUtcTime t), (0x85, Integer16 stNum), (0x86, Integer16 sqNum), (0x87, Boolean test),
    (0x88, Integer16 confRev), (0x89, Boolean False), (0x8a, [0x01]), (0xab, Boolean test)] :: (byte \<times> bytes) list"
  let ?step = "\<lambda>tag payload g. Some (goose_field tag payload g)"
  have len: "length (EncodeUtcTime t) = 8" by (simp add: EncodeUtcTime_def Let_def)
  have "\<forall>f \<in> set ?fs. int (length (snd f)) < 2 ^ 62"
    using assms(1-3) by (simp add: iec_String_def length_Boolean Integer16_octets len)
  from walk_concat[OF this, of ?step] obtain bs where bs: "concat_TLVs ?fs = Some bs"
    "\<And>s. walk_TLVs ?step bs s = step_all ?step ?fs s" "length bs \<le> sum_list (map (\<lambda>f. length (snd f) + 10) ?fs)"
    by blast
  from bs(3) have "int (length bs) < 2 ^ 62"
    using assms(1-3) by (simp add: iec_String_def length_Boolean Integer16_octets len)
  then obtain l off where l: "encodeLength (int (length bs)) = Some l" "l \<noteq> []"
    and off: "apdu_length (0x61 # l @ bs) = Some (int (length bs), off)"
    "i64 (int off + int (length bs)) = int (length (0x61 # l @ bs))"
    "slice_to (0x61 # l @ bs) spare off (int (length (0x61 # l @ bs))) = Some bs"
    using apdu_slice by blast
  have "ParseGOOSEAPDU (0x61 # l @ bs) spare = Some (stNum, sqNum, DecodeUtcTime (EncodeUtcTime t), test, True)"
    using l(2) off bs(2) Integer16_octets len
    by (cases l) (simp_all add: ParseGOOSEAPDU_def goose_field_def Boolean_def)
  then show ?thesis
    using bs(1) l utc_bounds[OF assms(4,5)] by (simp add: BuildGOOSEAPDU_def)
qed

text \<open>C34. A GOOSE APDU is read back whatever follows it in the receive buffer: \<open>ParseGOOSEAPDU\<close> returns
  the state number, the sequence number and the data value that \<open>BuildGOOSEAPDU\<close> was given, \<open>ok\<close>, and the
  timestamp to the resolution of UtcTime. Neither panics, for reference strings of any length below
  2^60 bytes.\<close>

theorem goose_round_trip:
  assumes "int (length gcbRef) < 2 ^ 60" and "int (length datSet) < 2 ^ 60" and "int (length goID) < 2 ^ 60"
    and "0 \<le> t" and "t < 2 ^ 32 * 1000000000"
  shows "\<exists>apdu t'. BuildGOOSEAPDU stNum sqNum t test confRev gcbRef datSet goID = Some apdu
           \<and> ParseGOOSEAPDU apdu spare = Some (stNum, sqNum, t', test, True) \<and> t' \<le> t \<and> t - t' \<le> 60"
  using goose_parsed[OF assms] .

theorem goose_round_trip_witness:
  "\<exists>apdu t'. BuildGOOSEAPDU 3 65535 1700000000123456789 True 1 [103, 99, 98] [100] [105] = Some apdu
     \<and> ParseGOOSEAPDU apdu [9, 9] = Some (3, 65535, t', True, True)
     \<and> t' \<le> 1700000000123456789 \<and> 1700000000123456789 - t' \<le> 60"
  by (rule goose_round_trip) simp_all

lemma sv_parsed:
  assumes "int (length svID) < 2 ^ 60"
  shows "\<exists>apdu. BuildSVAPDU smpCnt confRev svID = Some apdu \<and> ParseSVAPDU apdu spare = Some (smpCnt, True)"
proof -
  let ?as = "[(0x80, iec_String svID), (0x81, Integer16 smpCnt), (0x82, Integer16 confRev), (0x83, [0x00]),
    (0x84, Integer16 4800), (0x85, Integer16 0)] :: (byte \<times> bytes) list"
  let ?in = "\<lambda>t pl s. Some (sv_smpCnt t pl s)"
  let ?out = "\<lambda>tag payload s. if tag = 0x81 then Some (sv_smpCnt tag payload s)
            else if tag = 0xa2 then walk_TLVs ?in payload s else Some s"
  have "\<forall>f \<in> set ?as. int (length (snd f)) < 2 ^ 62"
    using assms by (simp add: iec_String_def Integer16_octets)
  from walk_concat[OF this, of ?in] obtain as where as: "concat_TLVs ?as = Some as"
    "\<And>s. walk_TLVs ?in as s = step_all ?in ?as s" "length as \<le> sum_list (map (\<lambda>f. length (snd f) + 10) ?as)"
    by blast
  let ?fs = "[(0x80, [0x01, 0x01, 0x01]), (0x81, [0x00, 0x00]), (0xa2, as)] :: (byte \<times> bytes) list"
  from as(3) have "int (length as) < 2 ^ 61"
    using assms by (simp add: iec_String_def Integer16_octets)
  then have "\<forall>f \<in> set ?fs. int (length (snd f)) < 2 ^ 62" by simp
  from walk_concat[OF this, of ?out] obtain bs where bs: "concat_TLVs ?fs = Some bs"
    "\<And>s. walk_TLVs ?out bs s = step_all ?out ?fs s" "length bs \<le> sum_list (map (\<lambda>f. length (snd f) + 10) ?fs)"
    by blast
  from bs(3) have "int (length bs) < 2 ^ 62"
    using \<open>int (length as) < 2 ^ 61\<close> by simp
  then obtain l off where l: "encodeLength (int (length bs)) = Some l" "l \<noteq> []"
    and off: "apdu_length (0x60 # l @ bs) = Some (int (length bs), off)"
    "i64 (int off + int (length bs)) = int (length (0x60 # l @ bs))"
    "slice_to (0x60 # l @ bs) spare off (int (length (0x60 # l @ bs))) = Some bs"
    using apdu_slice by blast
  have "ParseSVAPDU (0x60 # l @ bs) spare = Some (smpCnt, True)"
    using l(2) off bs(2) as(2) Integer16_octets
    by (cases l) (simp_all add: ParseSVAPDU_def sv_smpCnt_def)
  then show ?thesis
    using bs(1) as(1) l by (simp add: BuildSVAPDU_def)
qed

text \<open>C35. An SV APDU is read back whatever follows it in the receive buffer: \<open>ParseSVAPDU\<close> returns the
  sample counter that \<open>BuildSVAPDU\<close> was given (the counter inside the ASDU, although the security
  field before it carries the same tag and two bytes as well), and neither panics.\<close>

theorem sv_round_trip:
  assumes "int (length svID) < 2 ^ 60"
  shows "\<exists>apdu. BuildSVAPDU smpCnt confRev svID = Some apdu \<and> ParseSVAPDU apdu spare = Some (smpCnt, True)"
  using sv_parsed[OF assms] .

theorem sv_round_trip_witness:
  "\<exists>apdu. BuildSVAPDU 4095 1 [115, 118] = Some apdu \<and> ParseSVAPDU apdu [] = Some (4095, True)"
  by (rule sv_round_trip) simp

lemma apdu_length_tag: "r \<noteq> [] \<Longrightarrow> apdu_length (tag # r) = apdu_length (tag' # r)"
  by (cases r) (simp_all add: apdu_length_def long_length_def gslice_def Let_def)

text \<open>The two receivers differ on an APDU whose length field promises more bytes than there are:
  \<open>ParseGOOSEAPDU\<close> checks the length and answers not-ok, \<open>ParseSVAPDU\<close> has no such check and panics
  when the slice has no spare capacity.\<close>

theorem truncated_apdu:
  assumes "apdu_length (0x61 # r) = Some (len, off)" and "r \<noteq> []"
    and "0 \<le> len" and "int off + len < 2 ^ 63" and "int (length (0x61 # r)) < int off + len"
  shows "ParseGOOSEAPDU (0x61 # r) spare = Some (0, 0, zeroTime, False, False) \<and> ParseSVAPDU (0x60 # r) [] = None"
proof
  have i: "i64 (int off + len) = int off + len" using assms(3,4) by (intro i64_id) simp_all
  have sv: "apdu_length (0x60 # r) = Some (len, off)" using assms(1) apdu_length_tag[OF assms(2), of "0x60" "0x61"] by simp
  show "ParseGOOSEAPDU (0x61 # r) spare = Some (0, 0, zeroTime, False, False)"
    using assms(1,2,5) i by (cases r) (simp_all add: ParseGOOSEAPDU_def)
  show "ParseSVAPDU (0x60 # r) [] = None"
    using assms(2,5) sv i by (cases r) (simp_all add: ParseSVAPDU_def slice_to_def)
qed

theorem truncated_apdu_witness:
  "ParseGOOSEAPDU [0x61, 0x05, 0x85] [1] = Some (0, 0, zeroTime, False, False) \<and> ParseSVAPDU [0x60, 0x05, 0x85] [] = None"
  using truncated_apdu[of "[0x05, 0x85]" 5 2 "[1]"] by (simp add: apdu_length_def)

end
