(* ===== verification/TrafficGen.thy ===== *)
theory TrafficGen
  imports IEC Iface Node
begin

text \<open>
  \<open>cmd/trafficgen/main.go\<close>: the GOOSE and Sampled Values traffic generator: frames, the receiver's
  statistics, the send and receive loops and the arguments; and the VLAN restoration of
  \<open>cmd/trafficgen/socket_linux.go\<close>.

  The package variables \<open>dstMAC\<close> and \<open>srcMAC\<close> are arguments. A loop polls its stop channel, the clock
  and the socket: the answers to the successive polls are functions of the poll's number. Output to
  the terminal, the report and the process are in the theories \<open>Report\<close> and \<open>TrafficMain\<close>.
\<close>

unbundle bit_operations_syntax

definition etGOOSE :: u16 where "etGOOSE = 0x88B8"
definition etSV :: u16 where "etSV = 0x88BA"
definition payloadHeaderLen :: nat where "payloadHeaderLen = 8"

section \<open>Frames\<close>

text \<open>\<open>copy(frame[i:i+6], mac)\<close> into fresh zero bytes.\<close>

definition copy6 :: "bytes \<Rightarrow> bytes" where
  "copy6 mac = take 6 (mac @ replicate 6 0)"

definition assembleFrame :: "bytes \<Rightarrow> bytes \<Rightarrow> u16 \<Rightarrow> bytes \<Rightarrow> int \<Rightarrow> int \<Rightarrow> u16 \<Rightarrow> bytes" where
  "assembleFrame dstMAC srcMAC appid apdu vid pcp et =
     (let header = put16 appid @ put16 (of_nat (length apdu + 8)) @ put16 0 @ put16 0;
          tagged = (vid \<ge> 0)
      in copy6 dstMAC @ copy6 srcMAC @
         (if tagged
          then let tci = push_bit 13 (word_of_int (pcp AND 0x07)) OR word_of_int (vid AND 0x0FFF)
               in [0x81, 0x00] @ put16 tci @ put16 et @ header @ apdu
          else put16 et @ header @ apdu))"

definition str :: "string \<Rightarrow> bytes" where
  "str s = map of_char s"

definition buildFrame :: "bytes \<Rightarrow> bytes \<Rightarrow> time \<Rightarrow> u16 \<Rightarrow> u16 \<Rightarrow> u16 \<Rightarrow> int \<Rightarrow> int \<Rightarrow> bytes option" where
  "buildFrame dstMAC srcMAC now appid stNum sqNum vid pcp =
     do { apdu \<leftarrow> BuildGOOSEAPDU stNum sqNum now False 1 (str ''LLN0$GO$gcb0'') (str ''LLN0$dataset'') (str ''LLN0$GO$gcb0'');
          Some (assembleFrame dstMAC srcMAC appid apdu vid pcp etGOOSE) }"

text \<open>The parameter \<open>dst\<close> of \<open>buildFrameEt\<close> is not used.\<close>

definition buildFrameEt :: "bytes \<Rightarrow> bytes \<Rightarrow> time \<Rightarrow> u16 \<Rightarrow> u16 \<Rightarrow> u16 \<Rightarrow> int \<Rightarrow> int \<Rightarrow> u16 \<Rightarrow> bytes option" where
  "buildFrameEt dstMAC srcMAC now appid stNum sqNum vid pcp et =
     do { apdu \<leftarrow> (if et = etGOOSE
                   then BuildGOOSEAPDU stNum sqNum now False 1 (str ''LLN0$GO$gcb0'') (str ''LLN0$dataset'') (str ''LLN0$GO$gcb0'')
                   else BuildSVAPDU stNum 1 (str ''MU01''));
          Some (assembleFrame dstMAC srcMAC appid apdu vid pcp et) }"

record parsed =
  pf_appid :: u16
  pf_stNum :: u16
  pf_sqNum :: u16
  pf_smpCnt :: u16
  pf_sentAt :: time
  pf_allData :: bool
  pf_vid :: int
  pf_pcp :: int
  pf_ok :: bool

definition not_ours :: parsed where
  "not_ours = \<lparr>pf_appid = 0, pf_stNum = 0, pf_sqNum = 0, pf_smpCnt = 0, pf_sentAt = zeroTime, pf_allData = False,
     pf_vid = -1, pf_pcp = 0, pf_ok = False\<rparr>"

text \<open>The part of \<open>parseFrame\<close> behind the VLAN tag; \<open>spare\<close> are the bytes of the buffer after the frame.\<close>

definition parse_payload :: "bytes \<Rightarrow> bytes \<Rightarrow> u16 \<Rightarrow> u16 \<Rightarrow> nat \<Rightarrow> int \<Rightarrow> int \<Rightarrow> parsed option" where
  "parse_payload frame spare wantAppid et off vid pcp =
     (if et \<noteq> etGOOSE \<and> et \<noteq> etSV then Some not_ours
      else if length frame < off + payloadHeaderLen then Some not_ours
      else let appid = get16 frame off in
        if wantAppid \<noteq> 0 \<and> appid \<noteq> wantAppid then Some not_ours
        else let apdu = drop (off + payloadHeaderLen) frame in
          if et = etGOOSE
          then do { (stNum, sqNum, sentAt, allData, okParse) \<leftarrow> ParseGOOSEAPDU apdu spare;
                    Some \<lparr>pf_appid = appid, pf_stNum = stNum, pf_sqNum = sqNum, pf_smpCnt = 0, pf_sentAt = sentAt,
                          pf_allData = allData, pf_vid = vid, pf_pcp = pcp, pf_ok = okParse\<rparr> }
          else do { (smpCnt, okParse) \<leftarrow> ParseSVAPDU apdu spare;
                    Some \<lparr>pf_appid = appid, pf_stNum = 0, pf_sqNum = 0, pf_smpCnt = smpCnt, pf_sentAt = zeroTime,
                          pf_allData = False, pf_vid = vid, pf_pcp = pcp, pf_ok = okParse\<rparr> })"

definition parseFrame :: "bytes \<Rightarrow> bytes \<Rightarrow> u16 \<Rightarrow> parsed option" where
  "parseFrame frame spare wantAppid =
     (if length frame < 14 + payloadHeaderLen then Some not_ours
      else let et = get16 frame 12 in
        if et = 0x8100 \<or> et = 0x88a8
        then (if length frame < 18 + payloadHeaderLen then Some not_ours
              else let tci = get16 frame 14
                   in parse_payload frame spare wantAppid (get16 frame 16) 18
                        (uint (tci AND 0x0FFF)) (uint (drop_bit 13 tci AND 0x07)))
        else parse_payload frame spare wantAppid et 14 (-1) 0)"

text \<open>
  \<open>fmt.Sscanf(s, "%x", &b)\<close> on a string of two bytes: white space is skipped (a newline is an error),
  a sign is accepted, at least one hex digit is needed, and what follows the digits is ignored.
\<close>

definition scan_space :: "char \<Rightarrow> bool" where
  "scan_space c \<longleftrightarrow> (of_char c :: nat) \<in> {9, 11, 12, 13, 32}"

fun scan_digits :: "string \<Rightarrow> int \<Rightarrow> int" where
  "scan_digits [] v = v"
| "scan_digits (c # cs) v = (case hexval c of None \<Rightarrow> v | Some d \<Rightarrow> scan_digits cs (16 * v + int d))"

definition scan_hex :: "string \<Rightarrow> int option" where
  "scan_hex s =
     (let s = dropWhile scan_space s;
          neg = (s \<noteq> [] \<and> hd s = CHR ''-'');
          s = (if s \<noteq> [] \<and> (hd s = CHR ''-'' \<or> hd s = CHR ''+'') then tl s else s)
      in if s = [] \<or> hexval (hd s) = None then None
         else Some (if neg then - scan_digits s 0 else scan_digits s 0))"

definition parseMAC :: "string \<Rightarrow> string + bytes" where
  "parseMAC s =
     (if length s \<noteq> 17 then Inl s
      else case those (map (\<lambda>i. scan_hex (gslice (i * 3) (i * 3 + 2) s)) [0..<6]) of
          None \<Rightarrow> Inl s
        | Some bs \<Rightarrow> Inr (map word_of_int bs))"

section \<open>Statistics\<close>

record stats =
  st_total :: int
  st_unique :: int
  st_dupes :: int
  st_latency :: "int list"
  st_lastKey :: string
  st_lastSeen :: "bool gomap"
  st_tags :: "((int \<times> int) \<times> int) list"

definition no_stats :: stats where
  "no_stats = \<lparr>st_total = 0, st_unique = 0, st_dupes = 0, st_latency = [], st_lastKey = '''', st_lastSeen = [], st_tags = []\<rparr>"

text \<open>The map of maps \<open>tags\<close> is kept as one map from pairs; a missing count is zero.\<close>

definition noteTagged :: "int \<Rightarrow> int \<Rightarrow> stats \<Rightarrow> stats" where
  "noteTagged vid pcp s =
     (if vid < 0 then s
      else s\<lparr>st_tags := AList.update (vid, pcp)
              ((case map_of (st_tags s) (vid, pcp) of None \<Rightarrow> 0 | Some c \<Rightarrow> c) + 1) (st_tags s)\<rparr>)"

definition seen_key :: "stats \<Rightarrow> string \<Rightarrow> bool" where
  "seen_key s k = (case gm_get (st_lastSeen s) k of None \<Rightarrow> False | Some b \<Rightarrow> b)"

definition noteFrame :: "time \<Rightarrow> string \<Rightarrow> time \<Rightarrow> stats \<Rightarrow> stats" where
  "noteFrame now k sentAt s =
     (let s = s\<lparr>st_total := st_total s + 1\<rparr> in
        if sentAt = zeroTime
        then (if seen_key s k then s\<lparr>st_dupes := st_dupes s + 1\<rparr>
              else s\<lparr>st_unique := st_unique s + 1, st_lastSeen := gm_put k True (st_lastSeen s), st_lastKey := k\<rparr>)
        else let lat = time_Sub now sentAt;
                 s = (if lat > 0 then s\<lparr>st_latency := st_latency s @ [lat]\<rparr> else s)
             in if seen_key s k then s\<lparr>st_dupes := st_dupes s + 1\<rparr>
                else s\<lparr>st_lastSeen := gm_put k True (st_lastSeen s), st_unique := st_unique s + 1, st_lastKey := k\<rparr>)"

section \<open>The Linux socket\<close>

datatype recv_error = EAGAIN | EINTR | OtherErrno

definition restoreVLANTag :: "abi \<Rightarrow> nat \<Rightarrow> cmsg list option \<Rightarrow> nat \<Rightarrow> bytes \<Rightarrow> nat \<times> bytes" where
  "restoreVLANTag A oobn msgs n buf =
     (if oobn = 0 then (n, buf)
      else case msgs of None \<Rightarrow> (n, buf) | Some ms \<Rightarrow> restore_loop A ms n buf)"

text \<open>The socket is bound, then the two options are requested with their results ignored; the errors of
  \<open>InterfaceByName\<close>, \<open>Socket\<close> and \<open>bind\<close> are returned.\<close>

record linuxSocket =
  ls_fd :: int
  ls_ifIndex :: int
  ls_timeout :: int

definition try_setopt :: "kernel \<Rightarrow> int \<Rightarrow> int \<Rightarrow> int \<Rightarrow> kstate \<Rightarrow> kstate" where
  "try_setopt K fd opt v s = (if kn_setopt K fd opt v then s\<lparr>ks_opts := (fd, opt, v) # ks_opts s\<rparr> else s)"

definition openSocket :: "abi \<Rightarrow> kernel \<Rightarrow> string \<Rightarrow> kstate \<Rightarrow> (iface_error + linuxSocket) \<times> kstate" where
  "openSocket A K ifc s =
     (case kn_iface K ifc of
        None \<Rightarrow> (Inl (NoInterface ifc), s)
      | Some (idx, _) \<Rightarrow>
     (case kn_fd K s of
        None \<Rightarrow> (Inl SocketFailed, s)
      | Some fd \<Rightarrow>
        let s = k_open fd s in
        if \<not> kn_bind K fd idx then (Inl (BindFailed ifc), k_close fd s)
        else let s = s\<lparr>ks_bound := (fd, idx) # ks_bound s\<rparr>;
                 s = try_setopt K fd (SO_RCVBUF A) (512 * 1024) s;
                 s = try_setopt K fd (PACKET_AUXDATA A) 1 s
             in (Inr \<lparr>ls_fd = fd, ls_ifIndex = idx, ls_timeout = 0\<rparr>, s)))"

text \<open>\<open>sendto\<close> without an address; \<open>&frame[0]\<close> of an empty frame panics.\<close>

definition ls_Send :: "bool \<Rightarrow> bytes \<Rightarrow> (unit option) option" where
  "ls_Send ok frame = (if frame = [] then None else Some (if ok then Some () else None))"

definition ls_Close :: "linuxSocket \<Rightarrow> kstate \<Rightarrow> kstate" where
  "ls_Close r s = k_close (ls_fd r) s"

text \<open>The \<open>Timeval\<close> that \<open>SetRecvTimeout\<close> passes on: Go divides towards zero, and the time-outs used are
  not negative.\<close>

definition ls_SetRecvTimeout :: "nat \<Rightarrow> linuxSocket \<Rightarrow> linuxSocket \<times> nat \<times> nat" where
  "ls_SetRecvTimeout d s = (s\<lparr>ls_timeout := int d\<rparr>, d div 1000000000, d mod 1000000000 div 1000)"

definition ls_Recv :: "abi \<Rightarrow> recv_error + recvd \<Rightarrow> bytes \<Rightarrow> (recv_error + nat) \<times> bytes" where
  "ls_Recv A res buf =
     (case res of
        Inl err \<Rightarrow> (if err = EAGAIN \<or> err = EINTR then Inr 0 else Inl err, buf)
      | Inr r \<Rightarrow>
        let (nr, buf) = recv_into (rc_pkt r) buf;
            (n, buf) = restoreVLANTag A (rc_oobn r) (rc_msgs r) nr buf
        in (Inr n, buf))"

section \<open>Sending\<close>

datatype tg_exit = Done | StoppedBySignal | SendFailed | Panicked | ReadFailed

datatype tx = Sent bytes | Slept int

record io =
  io_stop :: "nat \<Rightarrow> bool"
  io_now :: "nat \<Rightarrow> time"
  io_send :: "nat \<Rightarrow> bool"

record send_args =
  sa_dst :: bytes
  sa_src :: bytes
  sa_appid :: u16
  sa_vid :: int
  sa_pcp :: int
  sa_burst :: bool
  sa_loop :: bool
  sa_et :: u16
  sa_interval :: int

record sender =
  sd_stNum :: u16
  sd_sqNum :: u16
  sd_sent :: nat
  sd_polls :: nat
  sd_out :: "tx list"

text \<open>Build the next frame and send it; \<open>Inl\<close> ends the program.\<close>

definition send_frame :: "io \<Rightarrow> send_args \<Rightarrow> sender \<Rightarrow> tg_exit option \<times> sender" where
  "send_frame io a s =
     (let k = sd_sent s;
          s = s\<lparr>sd_sent := k + 1\<rparr> in
      case buildFrameEt (sa_dst a) (sa_src a) (io_now io k) (sa_appid a) (sd_stNum s) (sd_sqNum s) (sa_vid a) (sa_pcp a) (sa_et a) of
        None \<Rightarrow> (Some Panicked, s)
      | Some frame \<Rightarrow>
        if io_send io k then (None, s\<lparr>sd_out := sd_out s @ [Sent frame]\<rparr>) else (Some SendFailed, s))"

definition poll_stop :: "io \<Rightarrow> sender \<Rightarrow> bool \<times> sender" where
  "poll_stop io s = (io_stop io (sd_polls s), s\<lparr>sd_polls := sd_polls s + 1\<rparr>)"

definition do_sleep :: "int \<Rightarrow> sender \<Rightarrow> sender" where
  "do_sleep d s = s\<lparr>sd_out := sd_out s @ [Slept d]\<rparr>"

text \<open>The retransmissions of one event; \<open>j\<close> of them are left, \<open>d\<close> is the next delay.\<close>

fun burst_loop :: "io \<Rightarrow> send_args \<Rightarrow> nat \<Rightarrow> int \<Rightarrow> sender \<Rightarrow> tg_exit option \<times> sender" where
  "burst_loop io a 0 d s = (None, s)"
| "burst_loop io a (Suc j) d s =
     (case poll_stop io s of
        (True, s) \<Rightarrow> (Some StoppedBySignal, s)
      | (False, s) \<Rightarrow>
        (case send_frame io a ((do_sleep d s)\<lparr>sd_sqNum := sd_sqNum s + 1\<rparr>) of
           (Some x, s) \<Rightarrow> (Some x, s)
         | (None, s) \<Rightarrow> burst_loop io a j (2 * d) s))"

text \<open>The body of the loop of \<open>send\<close> after the poll.\<close>

definition send_event :: "io \<Rightarrow> send_args \<Rightarrow> sender \<Rightarrow> tg_exit option \<times> sender" where
  "send_event io a s =
     (case send_frame io a (s\<lparr>sd_stNum := sd_stNum s + 1, sd_sqNum := 1\<rparr>) of
        (Some x, s) \<Rightarrow> (Some x, s)
      | (None, s) \<Rightarrow>
        if sa_burst a
        then (case burst_loop io a 3 2000000 s of
                (Some x, s) \<Rightarrow> (Some x, s)
              | (None, s) \<Rightarrow> (None, if sa_loop a then s else do_sleep (sa_interval a) s))
        else (None, do_sleep (sa_interval a) s))"

fun send_loop :: "io \<Rightarrow> send_args \<Rightarrow> nat \<Rightarrow> sender \<Rightarrow> tg_exit \<times> sender" where
  "send_loop io a 0 s = (Done, s)"
| "send_loop io a (Suc i) s =
     (case poll_stop io s of
        (True, s) \<Rightarrow> (StoppedBySignal, s)
      | (False, s) \<Rightarrow>
        (case send_event io a s of
           (Some x, s) \<Rightarrow> (x, s)
         | (None, s) \<Rightarrow> send_loop io a i s))"

text \<open>\<open>int(^uint(0) >> 1)\<close> is the largest 64-bit \<open>int\<close>.\<close>

definition send :: "io \<Rightarrow> send_args \<Rightarrow> int \<Rightarrow> tg_exit \<times> sender" where
  "send io a cnt =
     (let cnt = (if sa_loop a then 2 ^ 63 - 1 else cnt)
      in send_loop io a (nat cnt) \<lparr>sd_stNum = 1, sd_sqNum = 1, sd_sent = 0, sd_polls = 0, sd_out = []\<rparr>)"

fun frames_out :: "tx list \<Rightarrow> bytes list" where
  "frames_out [] = []"
| "frames_out (Sent f # ts) = f # frames_out ts"
| "frames_out (Slept d # ts) = frames_out ts"

section \<open>Receiving\<close>

definition recv_frame :: "u16 \<Rightarrow> time \<Rightarrow> bytes \<Rightarrow> bytes \<Rightarrow> stats \<Rightarrow> stats option" where
  "recv_frame appid now frame spare s =
     do { p \<leftarrow> parseFrame frame spare appid;
          if \<not> pf_ok p then Some s
          else let k = show_int (uint (pf_stNum p)) @ ''|'' @ show_int (uint (pf_sqNum p));
                   s = noteFrame now k (pf_sentAt p) s
               in Some (noteTagged (pf_vid p) (pf_pcp p) s) }"

text \<open>One turn of the loop of \<open>recv\<close>: what the clock, the stop channel and the socket answer. The
  buffer of a received frame is given as the frame and what lies behind it.\<close>

record recv_turn =
  rt_expired :: bool
  rt_stop :: bool
  rt_now :: time
  rt_recv :: "(bytes \<times> bytes) option"

text \<open>An empty frame is the time-out of the socket. The result is the exit and the statistics reported;
  \<^const>\<open>None\<close> as exit is a loop that is still running at the end of the turns.\<close>

fun recv :: "bool \<Rightarrow> u16 \<Rightarrow> recv_turn list \<Rightarrow> stats \<Rightarrow> tg_exit option \<times> stats" where
  "recv loop appid [] s = (None, s)"
| "recv loop appid (t # ts) s =
     (if \<not> loop \<and> rt_expired t then (Some Done, s)
      else if rt_stop t then (Some StoppedBySignal, s)
      else case rt_recv t of
          None \<Rightarrow> (Some ReadFailed, s)
        | Some (frame, spare) \<Rightarrow>
          if frame = [] then recv loop appid ts s
          else (case recv_frame appid (rt_now t) frame spare s of
                  None \<Rightarrow> (Some Panicked, s)
                | Some s \<Rightarrow> recv loop appid ts s))"

section \<open>Arguments\<close>

datatype tg_mode = ModeSend | ModeRecv | ModePing

datatype arg_error = BadEt string | BadMcast string | BadSrcMac string

definition main_args :: "string \<Rightarrow> string \<Rightarrow> string \<Rightarrow> string \<Rightarrow> nat \<Rightarrow> arg_error + (tg_mode \<times> u16 \<times> bytes \<times> bytes \<times> u16)" where
  "main_args mode et mcast src appid =
     (let run = (\<lambda>etV mcast.
        case parseMAC mcast of
          Inl s \<Rightarrow> Inl (BadMcast s)
        | Inr dst \<Rightarrow>
          (case parseMAC src of
             Inl s \<Rightarrow> Inl (BadSrcMac s)
           | Inr srcBytes \<Rightarrow>
             Inr (if mode = ''send'' then ModeSend else if mode = ''recv'' then ModeRecv else ModePing,
                  etV, dst, srcBytes, of_nat appid)))
      in if map ascii_lower et = ''goose'' then run etGOOSE (if mcast = '''' then ''01:0c:cd:01:00:01'' else mcast)
         else if map ascii_lower et = ''sv'' then run etSV (if mcast = '''' then ''01:0c:cd:04:00:00'' else mcast)
         else Inl (BadEt et))"

section \<open>Frames are read back\<close>

lemma length_copy6 [simp]: "length (copy6 m) = 6"
  by (simp add: copy6_def)

lemma and_mask_int: "(x :: int) AND 0x0FFF = take_bit 12 x" "x AND 0x07 = take_bit 3 x"
proof -
  have "(0x0FFF :: int) = mask 12" "(0x07 :: int) = mask 3" by (simp_all add: mask_eq_exp_minus_1)
  then show "x AND 0x0FFF = take_bit 12 x" "x AND 0x07 = take_bit 3 x" by (simp_all only: take_bit_eq_mask)
qed

lemma tci_fields:
  fixes vid pcp :: int
  defines "tci \<equiv> push_bit 13 (word_of_int (pcp AND 0x07)) OR word_of_int (vid AND 0x0FFF) :: u16"
  shows "uint (tci AND 0x0FFF) = vid mod 4096" and "uint (drop_bit 13 tci AND 0x07) = pcp mod 8"
proof -
  have m: "(0x0FFF :: u16) = mask 12" "(0x07 :: u16) = mask 3" by (simp_all add: mask_eq_exp_minus_1)
  have "tci AND 0x0FFF = word_of_int (take_bit 12 vid)"
    unfolding tci_def m and_mask_int by (rule bit_word_eqI) (auto simp: bit_simps)
  then show "uint (tci AND 0x0FFF) = vid mod 4096" by (simp add: unsigned_of_int take_bit_eq_mod)
  have "drop_bit 13 tci AND 0x07 = word_of_int (take_bit 3 pcp)"
    unfolding tci_def m and_mask_int by (rule bit_word_eqI) (auto simp: bit_simps)
  then show "uint (drop_bit 13 tci AND 0x07) = pcp mod 8" by (simp add: unsigned_of_int take_bit_eq_mod)
qed

text \<open>What the receiver finds in an assembled frame: the APDU, the APPID and the tag.\<close>

lemma parseFrame_assemble:
  assumes "et = etGOOSE \<or> et = etSV" and "want = 0 \<or> want = appid"
  shows "parseFrame (assembleFrame dst src appid apdu vid pcp et) spare want =
    (if et = etGOOSE
     then do { (stNum, sqNum, sentAt, allData, okParse) \<leftarrow> ParseGOOSEAPDU apdu spare;
               Some \<lparr>pf_appid = appid, pf_stNum = stNum, pf_sqNum = sqNum, pf_smpCnt = 0, pf_sentAt = sentAt,
                     pf_allData = allData, pf_vid = (if vid \<ge> 0 then vid mod 4096 else -1),
                     pf_pcp = (if vid \<ge> 0 then pcp mod 8 else 0), pf_ok = okParse\<rparr> }
     else do { (smpCnt, okParse) \<leftarrow> ParseSVAPDU apdu spare;
               Some \<lparr>pf_appid = appid, pf_stNum = 0, pf_sqNum = 0, pf_smpCnt = smpCnt, pf_sentAt = zeroTime,
                     pf_allData = False, pf_vid = (if vid \<ge> 0 then vid mod 4096 else -1),
                     pf_pcp = (if vid \<ge> 0 then pcp mod 8 else 0), pf_ok = okParse\<rparr> })"
proof -
  let ?m = "copy6 dst @ copy6 src"
  let ?h = "put16 appid @ put16 (of_nat (length apdu + 8)) @ put16 0 @ put16 (0 :: u16)"
  let ?tci = "push_bit 13 (word_of_int (pcp AND 0x07)) OR word_of_int (vid AND 0x0FFF) :: u16"
  have m: "length ?m = 12" by simp
  have et: "et \<noteq> 0x8100" "et \<noteq> 0x88a8" using assms(1) by (auto simp: etGOOSE_def etSV_def)
  have g: "get16 (?m @ put16 v @ r) 12 = v" for v r using m by (rule get16_put16_append)
  have h: "get16 (xs @ ?h @ apdu) (length xs) = appid" for xs
    using get16_put16_append[of xs "length xs" appid] by simp
  have pay: "drop (length xs + 8) (xs @ ?h @ apdu) = apdu" "length (xs @ ?h @ apdu) = length xs + 8 + length apdu" for xs
    by simp_all
  have sv: "etSV \<noteq> etGOOSE" by (simp add: etGOOSE_def etSV_def)
  show ?thesis
  proof (cases "vid \<ge> 0")
    case False
    define F where "F = (?m @ put16 et) @ ?h @ apdu"
    have "assembleFrame dst src appid apdu vid pcp et = F"
      using False by (simp add: assembleFrame_def F_def Let_def)
    moreover have "get16 F 12 = et" "get16 F 14 = appid" "drop 22 F = apdu" "length F = 22 + length apdu"
      using g[of et "?h @ apdu"] h[of "?m @ put16 et"] pay[of "?m @ put16 et"] by (simp_all add: F_def)
    ultimately show ?thesis
      using False assms et sv by (auto simp: parseFrame_def parse_payload_def payloadHeaderLen_def Let_def)
  next
    case True
    let ?t = "?m @ put16 0x8100 @ put16 ?tci @ put16 et"
    define F where "F = ?t @ ?h @ apdu"
    have "[0x81, 0x00] = put16 0x8100" by (simp add: put16_def)
    then have "assembleFrame dst src appid apdu vid pcp et = F"
      using True by (simp add: assembleFrame_def F_def Let_def)
    moreover have "get16 F 12 = 0x8100" "get16 F 14 = ?tci" "get16 F 16 = et"
      using g[of "0x8100" "put16 ?tci @ put16 et @ ?h @ apdu"] get16_put16_append[of "?m @ put16 0x8100" 14 ?tci "put16 et @ ?h @ apdu"]
        get16_put16_append[of "?m @ put16 0x8100 @ put16 ?tci" 16 et "?h @ apdu"] m by (simp_all add: F_def)
    moreover have "get16 F 18 = appid" "drop 26 F = apdu" "length F = 26 + length apdu"
      using h[of ?t] pay[of ?t] by (simp_all add: F_def)
    ultimately show ?thesis
      using True assms et sv tci_fields[of pcp vid]
      by (auto simp: parseFrame_def parse_payload_def payloadHeaderLen_def Let_def)
  qed
qed

lemma assemble_nonempty: "assembleFrame dst src appid apdu vid pcp et \<noteq> []"
proof -
  have "copy6 dst \<noteq> []" by (simp add: copy6_def)
  then show ?thesis by (simp add: assembleFrame_def Let_def)
qed

section \<open>Counting\<close>

lemma noteFrame_counts:
  "st_total (noteFrame now k t s) = st_total s + 1"
  "st_unique (noteFrame now k t s) = st_unique s + (if seen_key s k then 0 else 1)"
  "st_dupes (noteFrame now k t s) = st_dupes s + (if seen_key s k then 1 else 0)"
  "seen_key (noteFrame now k t s) k' \<longleftrightarrow> k' = k \<or> seen_key s k'"
  by (auto simp: noteFrame_def seen_key_def Let_def gm_get_put split: option.splits)

lemma noteTagged_counts [simp]:
  "st_total (noteTagged v p s) = st_total s" "st_unique (noteTagged v p s) = st_unique s"
  "st_dupes (noteTagged v p s) = st_dupes s" "seen_key (noteTagged v p s) = seen_key s"
  by (simp_all add: noteTagged_def seen_key_def fun_eq_iff)

lemma no_stats_seen: "\<not> seen_key no_stats k"
  by (simp add: seen_key_def no_stats_def)

text \<open>A statistics value that has counted the keys \<open>ks\<close>, in that order.\<close>

definition counted :: "string list \<Rightarrow> stats \<Rightarrow> bool" where
  "counted ks s \<longleftrightarrow> st_total s = int (length ks) \<and> st_unique s = int (card (set ks))
     \<and> st_dupes s = int (length ks) - int (card (set ks)) \<and> (\<forall>k. seen_key s k \<longleftrightarrow> k \<in> set ks)"

lemma counted_no_stats: "counted [] no_stats"
  by (simp add: counted_def no_stats_seen) (simp add: no_stats_def)

lemma counted_noteFrame: "counted ks s \<Longrightarrow> counted (ks @ [k]) (noteTagged v p (noteFrame now k t s))"
  by (auto simp: counted_def noteFrame_counts card_insert_if)

text \<open>The key under which \<open>recv\<close> counts a frame.\<close>

definition frame_key :: "u16 \<times> u16 \<Rightarrow> string" where
  "frame_key x = show_int (uint (fst x)) @ ''|'' @ show_int (uint (snd x))"

lemma frame_key_inject: "frame_key x = frame_key y \<longleftrightarrow> x = y"
proof -
  have "frame_key x = key (show_int (uint (fst x))) (uint (snd x))" for x by (simp add: frame_key_def key_def)
  then show ?thesis
    using show_int_inject by (auto simp: key_inject prod_eq_iff word_uint_eq_iff)
qed

section \<open>A GOOSE stream\<close>

definition clock_ok :: "time \<Rightarrow> bool" where
  "clock_ok t \<longleftrightarrow> 0 \<le> t \<and> t < 2 ^ 32 * 1000000000"

lemma goose_built:
  assumes "clock_ok t"
  shows "\<exists>f. buildFrameEt dst src t appid st sq vid pcp etGOOSE = Some f
    \<and> (\<forall>spare want now s. want = 0 \<or> want = appid \<longrightarrow>
        (\<exists>t'. recv_frame want now f spare s = Some
          (noteTagged (if vid \<ge> 0 then vid mod 4096 else -1) (if vid \<ge> 0 then pcp mod 8 else 0)
            (noteFrame now (frame_key (st, sq)) t' s))))"
proof -
  note g = goose_parsed[of "str ''LLN0$GO$gcb0''" "str ''LLN0$dataset''" "str ''LLN0$GO$gcb0''" t st sq False 1]
  have "\<exists>apdu t'. BuildGOOSEAPDU st sq t False 1 (str ''LLN0$GO$gcb0'') (str ''LLN0$dataset'') (str ''LLN0$GO$gcb0'') = Some apdu
      \<and> ParseGOOSEAPDU apdu spare = Some (st, sq, t', False, True) \<and> t' \<le> t \<and> t - t' \<le> 60" for spare
    using assms by (intro g) (simp_all add: str_def clock_ok_def)
  note b = this
  obtain apdu where apdu: "BuildGOOSEAPDU st sq t False 1 (str ''LLN0$GO$gcb0'') (str ''LLN0$dataset'') (str ''LLN0$GO$gcb0'') = Some apdu"
    using b[of "[]"] by blast
  have p: "\<exists>t'. ParseGOOSEAPDU apdu spare = Some (st, sq, t', False, True)" for spare
    using b[of spare] unfolding apdu option.inject by blast
  have "\<exists>t'. recv_frame want now (assembleFrame dst src appid apdu vid pcp etGOOSE) spare s = Some
          (noteTagged (if vid \<ge> 0 then vid mod 4096 else -1) (if vid \<ge> 0 then pcp mod 8 else 0)
            (noteFrame now (frame_key (st, sq)) t' s))" if w: "want = 0 \<or> want = appid" for spare want now s
  proof -
    obtain t' where "ParseGOOSEAPDU apdu spare = Some (st, sq, t', False, True)" using p[of spare] by blast
    then show ?thesis
      unfolding recv_frame_def parseFrame_assemble[OF disjI1[OF refl] w] frame_key_def Let_def by auto
  qed
  then show ?thesis using apdu by (simp add: buildFrameEt_def)
qed

text \<open>The \<open>(stNum, sqNum)\<close> pairs of a stream: an event per count, and its retransmissions.\<close>

definition stream_keys :: "bool \<Rightarrow> u16 \<Rightarrow> nat \<Rightarrow> (u16 \<times> u16) list" where
  "stream_keys burst st cnt =
     concat (map (\<lambda>i. map (\<lambda>j. (st + of_nat (Suc i), of_nat (Suc j))) [0..<(if burst then 4 else 1)]) [0..<cnt])"

text \<open>A frame of the sender that carries the given pair.\<close>

definition carries_pair :: "io \<Rightarrow> send_args \<Rightarrow> u16 \<times> u16 \<Rightarrow> bytes \<Rightarrow> bool" where
  "carries_pair io a x f \<longleftrightarrow> (\<exists>k. buildFrameEt (sa_dst a) (sa_src a) (io_now io k) (sa_appid a) (fst x) (snd x)
     (sa_vid a) (sa_pcp a) (sa_et a) = Some f)"

definition io_fine :: "io \<Rightarrow> bool" where
  "io_fine io \<longleftrightarrow> (\<forall>k. \<not> io_stop io k \<and> io_send io k \<and> clock_ok (io_now io k))"

lemma frames_out_append: "frames_out (xs @ ys) = frames_out xs @ frames_out ys"
  by (induction xs rule: frames_out.induct) auto

text \<open>A sender that has sent frames for the pairs \<open>xs\<close> since \<open>s\<close>, and is at \<open>(st, sq)\<close>.\<close>

definition advanced :: "io \<Rightarrow> send_args \<Rightarrow> (u16 \<times> u16) list \<Rightarrow> u16 \<Rightarrow> u16 \<Rightarrow> sender \<Rightarrow> sender \<Rightarrow> bool" where
  "advanced io a xs st sq s s' \<longleftrightarrow> sd_stNum s' = st \<and> sd_sqNum s' = sq
     \<and> (\<exists>fs. frames_out (sd_out s') = frames_out (sd_out s) @ fs \<and> list_all2 (carries_pair io a) xs fs)"

lemma advanced_trans: "advanced io a xs st sq s s1 \<Longrightarrow> advanced io a ys st' sq' s1 s2 \<Longrightarrow> advanced io a (xs @ ys) st' sq' s s2"
  unfolding advanced_def by (fastforce intro: list_all2_appendI)

lemma send_frame_advances:
  assumes "io_fine io" and "sa_et a = etGOOSE"
  shows "\<exists>s'. send_frame io a s = (None, s') \<and> advanced io a [(sd_stNum s, sd_sqNum s)] (sd_stNum s) (sd_sqNum s) s s'"
proof -
  obtain f where "buildFrameEt (sa_dst a) (sa_src a) (io_now io (sd_sent s)) (sa_appid a) (sd_stNum s) (sd_sqNum s)
      (sa_vid a) (sa_pcp a) etGOOSE = Some f"
    using goose_built[of "io_now io (sd_sent s)"] assms(1) unfolding io_fine_def by blast
  then show ?thesis
    using assms by (auto simp: send_frame_def io_fine_def advanced_def carries_pair_def frames_out_append Let_def)
qed

lemma advanced_from:
  "frames_out (sd_out s1) = frames_out (sd_out s) \<Longrightarrow> advanced io a xs st sq s1 s2 \<Longrightarrow> advanced io a xs st sq s s2"
  by (simp add: advanced_def)

lemma advanced_sleep: "advanced io a xs st sq s s' \<Longrightarrow> advanced io a xs st sq s (do_sleep d s')"
  by (simp add: advanced_def do_sleep_def frames_out_append)

lemma poll_fine: "io_fine io \<Longrightarrow> poll_stop io s = (False, s\<lparr>sd_polls := sd_polls s + 1\<rparr>)"
  by (simp add: poll_stop_def io_fine_def)

lemma upt_Suc_0: "[0..<Suc n] = 0 # map Suc [0..<n]"
  by (simp add: upt_conv_Cons map_Suc_upt del: upt_Suc)

lemma burst_advances:
  assumes "io_fine io" and "sa_et a = etGOOSE"
  shows "\<exists>s'. burst_loop io a j d s = (None, s')
    \<and> advanced io a (map (\<lambda>i. (sd_stNum s, sd_sqNum s + of_nat (Suc i))) [0..<j]) (sd_stNum s) (sd_sqNum s + of_nat j) s s'"
proof (induction j arbitrary: d s)
  case 0
  then show ?case by (simp add: advanced_def)
next
  case (Suc j)
  let ?s0 = "s\<lparr>sd_polls := sd_polls s + 1\<rparr>"
  let ?s1 = "(do_sleep d ?s0)\<lparr>sd_sqNum := sd_sqNum ?s0 + 1\<rparr>"
  obtain s2 where s2: "send_frame io a ?s1 = (None, s2)"
    "advanced io a [(sd_stNum s, sd_sqNum s + 1)] (sd_stNum s) (sd_sqNum s + 1) ?s1 s2"
    using send_frame_advances[OF assms, of ?s1] by (auto simp: do_sleep_def)
  have "frames_out (sd_out ?s1) = frames_out (sd_out s)" by (simp add: do_sleep_def frames_out_append)
  from advanced_from[OF this s2(2)] have a1: "advanced io a [(sd_stNum s, sd_sqNum s + 1)] (sd_stNum s) (sd_sqNum s + 1) s s2" .
  then have at: "sd_stNum s2 = sd_stNum s" "sd_sqNum s2 = sd_sqNum s + 1" by (simp_all add: advanced_def)
  obtain s' where s': "burst_loop io a j (2 * d) s2 = (None, s')"
    "advanced io a (map (\<lambda>i. (sd_stNum s, sd_sqNum s + 1 + of_nat (Suc i))) [0..<j]) (sd_stNum s) (sd_sqNum s + 1 + of_nat j) s2 s'"
    using Suc[of "2 * d" s2] unfolding at by blast
  have "burst_loop io a (Suc j) d s = (None, s')"
    using s2(1) s'(1) by (simp add: poll_fine[OF assms(1)])
  then show ?case
    using advanced_trans[OF a1 s'(2)] by (auto simp: upt_Suc_0 comp_def algebra_simps simp del: upt_Suc)
qed

lemma event_advances:
  assumes "io_fine io" and "sa_et a = etGOOSE"
  shows "\<exists>s'. send_event io a s = (None, s')
    \<and> (\<exists>sq. advanced io a (map (\<lambda>j. (sd_stNum s + 1, of_nat (Suc j))) [0..<(if sa_burst a then 4 else 1)]) (sd_stNum s + 1) sq s s')"
proof -
  let ?s0 = "s\<lparr>sd_stNum := sd_stNum s + 1, sd_sqNum := 1\<rparr>"
  obtain s1 where s1: "send_frame io a ?s0 = (None, s1)" "advanced io a [(sd_stNum s + 1, 1)] (sd_stNum s + 1) 1 ?s0 s1"
    using send_frame_advances[OF assms, of ?s0] by auto
  have a1: "advanced io a [(sd_stNum s + 1, 1)] (sd_stNum s + 1) 1 s s1"
    by (rule advanced_from[OF _ s1(2)]) simp
  then have at: "sd_stNum s1 = sd_stNum s + 1" "sd_sqNum s1 = 1" by (simp_all add: advanced_def)
  show ?thesis
  proof (cases "sa_burst a")
    case False
    then show ?thesis using s1(1) advanced_sleep[OF a1] by (auto simp: send_event_def)
  next
    case True
    obtain s2 where s2: "burst_loop io a 3 2000000 s1 = (None, s2)"
      "advanced io a (map (\<lambda>i. (sd_stNum s + 1, 1 + of_nat (Suc i))) [0..<3]) (sd_stNum s + 1) (1 + of_nat 3) s1 s2"
      using burst_advances[OF assms, of 3 2000000 s1] unfolding at by blast
    have pairs: "[(sd_stNum s + 1, 1)] @ map (\<lambda>i. (sd_stNum s + 1, 1 + of_nat (Suc i))) [0..<3]
        = map (\<lambda>j. (sd_stNum s + 1, of_nat (Suc j) :: u16)) [0..<(if sa_burst a then 4 else 1)]"
      using True by (simp add: upt_rec)
    note a2 = advanced_trans[OF a1 s2(2), unfolded pairs]
    have "send_event io a s = (None, if sa_loop a then s2 else do_sleep (sa_interval a) s2)"
      using True s1(1) s2(1) by (simp add: send_event_def)
    then show ?thesis using a2 advanced_sleep[OF a2, of "sa_interval a"] by (cases "sa_loop a") (fastforce simp only: if_True if_False)+
  qed
qed

lemma stream_keys_Suc:
  "stream_keys burst st (Suc c) = map (\<lambda>j. (st + 1, of_nat (Suc j))) [0..<(if burst then 4 else 1)] @ stream_keys burst (st + 1) c"
  by (simp add: stream_keys_def upt_Suc_0 comp_def algebra_simps del: upt_Suc)

lemma loop_advances:
  assumes "io_fine io" and "sa_et a = etGOOSE"
  shows "\<exists>s' st sq. send_loop io a c s = (Done, s') \<and> advanced io a (stream_keys (sa_burst a) (sd_stNum s) c) st sq s s'"
proof (induction c arbitrary: s)
  case 0
  then show ?case by (simp add: advanced_def stream_keys_def)
next
  case (Suc c)
  let ?s0 = "s\<lparr>sd_polls := sd_polls s + 1\<rparr>"
  obtain s1 sq where s1: "send_event io a ?s0 = (None, s1)"
    "advanced io a (map (\<lambda>j. (sd_stNum s + 1, of_nat (Suc j))) [0..<(if sa_burst a then 4 else 1)]) (sd_stNum s + 1) sq ?s0 s1"
    using event_advances[OF assms, of ?s0] by auto
  then have at: "sd_stNum s1 = sd_stNum s + 1" by (simp add: advanced_def)
  obtain s' st sq' where s': "send_loop io a c s1 = (Done, s')" "advanced io a (stream_keys (sa_burst a) (sd_stNum s + 1) c) st sq' s1 s'"
    using Suc[of s1] unfolding at by blast
  have "advanced io a (stream_keys (sa_burst a) (sd_stNum s) (Suc c)) st sq' s s'"
    unfolding stream_keys_Suc by (rule advanced_from[OF _ advanced_trans[OF s1(2) s'(2)]]) simp
  then show ?case using s1(1) s'(1) by (auto simp: poll_fine[OF assms(1)])
qed

lemma of_nat_u16_inject: "i < 65536 \<Longrightarrow> j < 65536 \<Longrightarrow> (of_nat i :: u16) = of_nat j \<longleftrightarrow> i = j"
  by (simp add: word_of_nat_eq_iff take_bit_nat_eq_self)

lemma distinct_stream_keys:
  assumes "c \<le> 65536"
  shows "distinct (stream_keys burst st c)"
proof -
  let ?m = "if burst then 4 else 1 :: nat" and ?g = "\<lambda>(i, j). (st + of_nat (Suc i), of_nat (Suc j)) :: u16 \<times> u16"
  have eq: "stream_keys burst st c = map ?g (List.product [0..<c] [0..<?m])"
    by (simp add: stream_keys_def product_concat_map map_concat comp_def)
  have "inj_on ?g (set (List.product [0..<c] [0..<?m]))"
  proof (rule inj_onI, clarify)
    fix i j i' j'
    assume "(i, j) \<in> set (List.product [0..<c] [0..<?m])" "(i', j') \<in> set (List.product [0..<c] [0..<?m])"
      "st + of_nat (Suc i) = st + of_nat (Suc i')" "of_nat (Suc j) = (of_nat (Suc j') :: u16)"
    then show "i = i' \<and> j = j'"
      using assms of_nat_u16_inject[of i i'] of_nat_u16_inject[of j j'] by (auto split: if_splits)
  qed
  then show ?thesis unfolding eq by (simp add: distinct_map distinct_product)
qed

lemma length_stream_keys: "length (stream_keys burst st c) = c * (if burst then 4 else 1)"
  by (simp add: stream_keys_def length_concat comp_def sum_list_triv)

text \<open>A GOOSE frame of the sender is neither short nor long: the fields have a fixed size.\<close>

lemma length_concat_TLVs: "concat_TLVs fs = Some bs \<Longrightarrow> sum_list (map (\<lambda>f. length (snd f)) fs) \<le> length bs"
proof (induction fs arbitrary: bs rule: rev_induct)
  case (snoc f fs)
  then obtain b l where "concat_TLVs fs = Some b" "bs = b @ fst f # l @ snd f"
    by (auto simp: concat_TLVs_def encodeTLV_def split: bind_splits prod.splits)
  then show ?case using snoc.IH[of b] by simp
qed simp

lemma goose_frame_shape:
  assumes "buildFrameEt dst src t appid st sq vid pcp etGOOSE = Some f"
  obtains apdu where "f = assembleFrame dst src appid apdu vid pcp etGOOSE" and "46 \<le> length apdu" and "length apdu \<le> 300"
proof -
  let ?fs = "[(0x80, iec_String (str ''LLN0$GO$gcb0'')), (0x81, Integer16 2000), (0x82, iec_String (str ''LLN0$dataset'')),
    (0x83, iec_String (str ''LLN0$GO$gcb0'')), (0x84, EncodeUtcTime t), (0x85, Integer16 st), (0x86, Integer16 sq), (0x87, Boolean False),
    (0x88, Integer16 1), (0x89, Boolean False), (0x8a, [0x01]), (0xab, Boolean False)] :: (byte \<times> bytes) list"
  have len: "length (EncodeUtcTime t) = 8" by (simp add: EncodeUtcTime_def Let_def)
  have "\<forall>f \<in> set ?fs. int (length (snd f)) < 2 ^ 62"
    by (simp add: iec_String_def length_Boolean Integer16_octets len str_def)
  from walk_concat[OF this, of "\<lambda>_ _. Some"] obtain bs where bs: "concat_TLVs ?fs = Some bs"
    "length bs \<le> sum_list (map (\<lambda>f. length (snd f) + 10) ?fs)" by blast
  from bs(2) have b: "length bs \<le> 200"
    by (simp add: iec_String_def length_Boolean Integer16_octets len str_def)
  from length_concat_TLVs[OF bs(1)] have b': "46 \<le> length bs"
    by (simp add: iec_String_def length_Boolean Integer16_octets len str_def)
  have "int (length bs) < 2 ^ 63" using b by simp
  then obtain l where l: "encodeLength (int (length bs)) = Some l" "length l \<le> 9"
    by (rule encodeLength_octets) blast
  have "f = assembleFrame dst src appid (0x61 # l @ bs) vid pcp etGOOSE"
    using assms bs(1) l(1) by (simp add: buildFrameEt_def BuildGOOSEAPDU_def)
  then show thesis by (rule that) (use b b' l(2) in simp_all)
qed

lemma goose_frame_length:
  assumes "buildFrameEt dst src t appid st sq vid pcp etGOOSE = Some f"
  shows "length f \<le> 2048"
  by (rule goose_frame_shape[OF assms]) (simp add: assembleFrame_def Let_def)

text \<open>Receiving frames of a GOOSE stream, each as often as it arrives, counts their pairs.\<close>

lemma recv_stream:
  assumes "sa_et a = etGOOSE" and "\<forall>k. clock_ok (io_now io k)" and "list_all2 (carries_pair io a) ks fs"
    and "want = 0 \<or> want = sa_appid a" and "\<forall>(i, now, spare) \<in> set as. i < length fs" and "counted (map (\<lambda>i. frame_key (ks ! i)) seen) s"
  shows "\<exists>s'. recv loop want (map (\<lambda>(i, now, spare). \<lparr>rt_expired = False, rt_stop = False, rt_now = now, rt_recv = Some (fs ! i, spare)\<rparr>) as) s
      = (None, s') \<and> counted (map (\<lambda>i. frame_key (ks ! i)) (seen @ map fst as)) s'"
  using assms(5,6)
proof (induction as arbitrary: seen s)
  case Nil
  then show ?case by simp
next
  case (Cons x as)
  obtain i now spare where x: "x = (i, now, spare)" by (cases x) auto
  then have i: "i < length fs" using Cons.prems(1) by simp
  obtain k where k: "buildFrameEt (sa_dst a) (sa_src a) (io_now io k) (sa_appid a) (fst (ks ! i)) (snd (ks ! i)) (sa_vid a) (sa_pcp a) etGOOSE = Some (fs ! i)"
    using list_all2_nthD2[OF assms(3) i] assms(1) by (auto simp: carries_pair_def)
  obtain t' v p where r: "recv_frame want now (fs ! i) spare s = Some (noteTagged v p (noteFrame now (frame_key (ks ! i)) t' s))"
    using goose_built[OF assms(2)[rule_format, of k], of "sa_dst a" "sa_src a" "sa_appid a" "fst (ks ! i)" "snd (ks ! i)" "sa_vid a" "sa_pcp a"]
      assms(4) unfolding k option.inject by (metis prod.collapse)
  have ne: "fs ! i \<noteq> []" using k assemble_nonempty by (auto simp: buildFrameEt_def split: bind_splits)
  let ?s = "noteTagged v p (noteFrame now (frame_key (ks ! i)) t' s)"
  have "counted (map (\<lambda>i. frame_key (ks ! i)) (seen @ [i])) ?s"
    using counted_noteFrame[OF Cons.prems(2)] by simp
  from Cons.IH[OF _ this] Cons.prems(1) show ?case by (simp add: x r ne)
qed

section \<open>Properties\<close>

text \<open>An uninterrupted sender and a receiver that gets any sequence of its frames, with anything behind
  each of them in the buffer: what was sent fits the buffer, and is counted.\<close>

lemma goose_stream_counted:
  assumes "io_fine io" and "sa_et a = etGOOSE" and "\<not> sa_loop a" and "0 \<le> cnt" and "cnt \<le> 65536"
    and "want = 0 \<or> want = sa_appid a"
    and "\<forall>(i, now, spare) \<in> set as. i < nat cnt * (if sa_burst a then 4 else 1)"
  shows "\<exists>s fs r. send io a cnt = (Done, s) \<and> frames_out (sd_out s) = fs \<and> length fs = nat cnt * (if sa_burst a then 4 else 1)
    \<and> (\<forall>f \<in> set fs. length f \<le> 2048)
    \<and> recv False want (map (\<lambda>(i, now, spare). \<lparr>rt_expired = False, rt_stop = False, rt_now = now, rt_recv = Some (fs ! i, spare)\<rparr>) as) no_stats
        = (None, r)
    \<and> st_total r = int (length as) \<and> st_unique r = int (card (fst ` set as)) \<and> st_dupes r = st_total r - st_unique r"
proof -
  let ?s0 = "\<lparr>sd_stNum = 1, sd_sqNum = 1, sd_sent = 0, sd_polls = 0, sd_out = []\<rparr>"
  let ?ks = "stream_keys (sa_burst a) 1 (nat cnt)"
  obtain s st sq where s: "send_loop io a (nat cnt) ?s0 = (Done, s)" "advanced io a ?ks st sq ?s0 s"
    using loop_advances[OF assms(1,2), of "nat cnt" ?s0] by auto
  then obtain fs where fs: "frames_out (sd_out s) = fs" "list_all2 (carries_pair io a) ?ks fs" by (auto simp: advanced_def)
  have len: "length fs = length ?ks" using fs(2) by (auto dest: list_all2_lengthD)
  have d: "distinct ?ks" using assms(5) by (intro distinct_stream_keys) (simp add: nat_le_iff)
  have in_range: "\<forall>(i, now, spare) \<in> set as. i < length fs" using assms(7) len by (simp add: length_stream_keys)
  obtain r where r: "recv False want (map (\<lambda>(i, now, spare). \<lparr>rt_expired = False, rt_stop = False, rt_now = now, rt_recv = Some (fs ! i, spare)\<rparr>) as) no_stats
      = (None, r)" "counted (map (\<lambda>i. frame_key (?ks ! i)) (map fst as)) r"
    using recv_stream[OF assms(2) _ fs(2) assms(6) in_range, of "[]" no_stats] assms(1) counted_no_stats by (auto simp: io_fine_def)
  have "i < length ?ks" if "i \<in> fst ` set as" for i using that in_range len by fastforce
  then have "inj_on (\<lambda>i. frame_key (?ks ! i)) (fst ` set as)"
    using d by (intro inj_onI) (simp add: frame_key_inject nth_eq_iff_index_eq)
  then have "card (set (map (\<lambda>i. frame_key (?ks ! i)) (map fst as))) = card (fst ` set as)"
    unfolding set_map by (rule card_image)
  moreover have "length f \<le> 2048" if "f \<in> set fs" for f
    using that fs(2) assms(2) goose_frame_length by (fastforce simp: carries_pair_def list_all2_conv_all_nth in_set_conv_nth)
  ultimately show ?thesis
    using s(1) fs(1) r len assms(3) by (simp add: send_def counted_def length_stream_keys Let_def)
qed

lemma sent_goose_frames:
  assumes "io_fine io" and "sa_et a = etGOOSE" and "\<not> sa_loop a" and "f \<in> set (frames_out (sd_out (snd (send io a cnt))))"
  obtains apdu where "f = assembleFrame (sa_dst a) (sa_src a) (sa_appid a) apdu (sa_vid a) (sa_pcp a) etGOOSE"
    and "46 \<le> length apdu" and "length apdu \<le> 300"
proof -
  let ?s0 = "\<lparr>sd_stNum = 1, sd_sqNum = 1, sd_sent = 0, sd_polls = 0, sd_out = []\<rparr>"
  obtain s st sq where s: "send_loop io a (nat cnt) ?s0 = (Done, s)"
    "advanced io a (stream_keys (sa_burst a) 1 (nat cnt)) st sq ?s0 s"
    using loop_advances[OF assms(1,2), of "nat cnt" ?s0] by auto
  then have "list_all2 (carries_pair io a) (stream_keys (sa_burst a) 1 (nat cnt)) (frames_out (sd_out s))"
    by (auto simp: advanced_def)
  moreover have "f \<in> set (frames_out (sd_out s))" using assms(3,4) s(1) by (simp add: send_def Let_def)
  ultimately obtain k where "carries_pair io a k f" by (metis in_set_conv_nth list_all2_nthD2)
  then obtain t where "buildFrameEt (sa_dst a) (sa_src a) t (sa_appid a) (fst k) (snd k) (sa_vid a) (sa_pcp a) etGOOSE = Some f"
    using assms(2) by (auto simp: carries_pair_def)
  then show thesis by (rule goose_frame_shape) (rule that)
qed

definition ex_io :: io where
  "ex_io = \<lparr>io_stop = (\<lambda>_. False), io_now = (\<lambda>k. 1700000000000000000 + int (k mod 1000) * 1000000), io_send = (\<lambda>_. True)\<rparr>"

definition ex_send :: "u16 \<Rightarrow> send_args" where
  "ex_send et = \<lparr>sa_dst = [1, 12, 205, 1, 0, 1], sa_src = [2, 0, 0, 0, 0, 1], sa_appid = 0x1001, sa_vid = 0, sa_pcp = 4,
     sa_burst = True, sa_loop = False, sa_et = et, sa_interval = 10000000\<rparr>"

lemma ex_io_fine: "io_fine ex_io"
proof -
  have "clock_ok (1700000000000000000 + int (k mod 1000) * 1000000)" for k
  proof -
    have "k mod 1000 < 1000" by simp
    then have "int (k mod 1000) < 1000" by linarith
    then show ?thesis unfolding clock_ok_def by simp
  qed
  then show ?thesis by (simp add: io_fine_def ex_io_def)
qed

lemma sv_built:
  "\<exists>f. buildFrameEt dst src t appid st sq vid pcp etSV = Some f
    \<and> (\<forall>spare want now s. want = 0 \<or> want = appid \<longrightarrow>
        recv_frame want now f spare s = Some
          (noteTagged (if vid \<ge> 0 then vid mod 4096 else -1) (if vid \<ge> 0 then pcp mod 8 else 0)
            (noteFrame now (frame_key (0, 0)) zeroTime s)))"
proof -
  have ne: "etSV \<noteq> etGOOSE" by (simp add: etSV_def etGOOSE_def)
  have b: "\<exists>apdu. BuildSVAPDU st 1 (str ''MU01'') = Some apdu \<and> ParseSVAPDU apdu spare = Some (st, True)" for spare
    by (rule sv_parsed) (simp add: str_def)
  obtain apdu where apdu: "BuildSVAPDU st 1 (str ''MU01'') = Some apdu" using b[of "[]"] by blast
  have p: "ParseSVAPDU apdu spare = Some (st, True)" for spare using b[of spare] unfolding apdu option.inject by blast
  have "recv_frame want now (assembleFrame dst src appid apdu vid pcp etSV) spare s = Some
          (noteTagged (if vid \<ge> 0 then vid mod 4096 else -1) (if vid \<ge> 0 then pcp mod 8 else 0)
            (noteFrame now (frame_key (0, 0)) zeroTime s))" if w: "want = 0 \<or> want = appid" for spare want now s
    unfolding recv_frame_def parseFrame_assemble[OF disjI2[OF refl] w] frame_key_def Let_def using p ne by simp
  then show ?thesis using apdu ne by (simp add: buildFrameEt_def)
qed

text \<open>Sampled Values are counted as one frame: the receiver's key is made of the GOOSE numbers, which
  are zero in a Sampled Values frame. Whatever sample counters the frames of a stream carry, all but
  the first are reported as duplicates.\<close>

theorem sv_stream_all_duplicates:
  assumes "\<forall>(f, now, spare) \<in> set xs. \<exists>st t. buildFrameEt dst src t appid st 1 vid pcp etSV = Some f"
    and "xs \<noteq> []" and "want = 0 \<or> want = appid"
  shows "\<exists>r. recv False want (map (\<lambda>(f, now, spare). \<lparr>rt_expired = False, rt_stop = False, rt_now = now, rt_recv = Some (f, spare)\<rparr>) xs) no_stats
      = (None, r) \<and> st_total r = int (length xs) \<and> st_unique r = 1 \<and> st_dupes r = int (length xs) - 1"
proof -
  have "\<exists>r. recv False want (map (\<lambda>(f, now, spare). \<lparr>rt_expired = False, rt_stop = False, rt_now = now, rt_recv = Some (f, spare)\<rparr>) xs) s
      = (None, r) \<and> counted (replicate (n + length xs) (frame_key (0, 0))) r" if "counted (replicate n (frame_key (0, 0))) s" for n s
    using assms(1) that
  proof (induction xs arbitrary: n s)
    case (Cons x xs)
    obtain f now spare where x: "x = (f, now, spare)" by (cases x) auto
    obtain st t where f: "buildFrameEt dst src t appid st 1 vid pcp etSV = Some f" using Cons.prems(1) x by auto
    obtain v p where r: "recv_frame want now f spare s = Some (noteTagged v p (noteFrame now (frame_key (0, 0)) zeroTime s))"
      using sv_built[of dst src t appid st 1 vid pcp] assms(3) unfolding f option.inject by blast
    have ne: "f \<noteq> []" using f assemble_nonempty by (auto simp: buildFrameEt_def split: bind_splits)
    have "counted (replicate (Suc n) (frame_key (0, 0))) (noteTagged v p (noteFrame now (frame_key (0, 0)) zeroTime s))"
      using counted_noteFrame[OF Cons.prems(2), of "frame_key (0, 0)" v p now zeroTime] by (simp add: replicate_append_same)
    from Cons.IH[OF _ this] Cons.prems(1) show ?case by (simp add: x r ne)
  qed simp
  from this[of 0 no_stats] counted_no_stats obtain r where
    "recv False want (map (\<lambda>(f, now, spare). \<lparr>rt_expired = False, rt_stop = False, rt_now = now, rt_recv = Some (f, spare)\<rparr>) xs) no_stats = (None, r)"
    "counted (replicate (length xs) (frame_key (0, 0))) r" by auto
  then show ?thesis using assms(2) by (auto simp: counted_def)
qed

theorem sv_stream_all_duplicates_witness:
  "\<exists>f g r. buildFrameEt [1] [2] 0 7 100 1 (-1) 0 etSV = Some f \<and> buildFrameEt [1] [2] 0 7 101 1 (-1) 0 etSV = Some g
    \<and> recv False 7 (map (\<lambda>(f, now, spare). \<lparr>rt_expired = False, rt_stop = False, rt_now = now, rt_recv = Some (f, spare)\<rparr>) [(f, 0, []), (g, 0, [])]) no_stats
        = (None, r) \<and> st_unique r = 1 \<and> st_dupes r = 1"
proof -
  obtain f where f: "buildFrameEt [1] [2] 0 7 100 1 (-1) 0 etSV = Some f"
    using sv_built[of "[1]" "[2]" 0 7 100 1 "-1" 0] by (elim exE conjE)
  obtain g where g: "buildFrameEt [1] [2] 0 7 101 1 (-1) 0 etSV = Some g"
    using sv_built[of "[1]" "[2]" 0 7 101 1 "-1" 0] by (elim exE conjE)
  have built: "\<forall>(f, now, spare) \<in> set [(f, 0 :: time, [] :: bytes), (g, 0, [])]. \<exists>st t. buildFrameEt [1] [2] t 7 st 1 (-1) 0 etSV = Some f"
    using f g by auto
  have ne: "[(f, 0 :: time, [] :: bytes), (g, 0, [])] \<noteq> []" by simp
  obtain r where "recv False 7 (map (\<lambda>(f, now, spare). \<lparr>rt_expired = False, rt_stop = False, rt_now = now, rt_recv = Some (f, spare)\<rparr>)
      [(f, 0, []), (g, 0, [])]) no_stats = (None, r)" "st_unique r = 1" "st_dupes r = int (length [(f, 0 :: time, [] :: bytes), (g, 0, [])]) - 1"
    using sv_stream_all_duplicates[OF built ne disjI2[OF refl]] by (elim exE conjE)
  moreover from this(3) have "st_dupes r = 1" by simp
  ultimately show ?thesis using f g by (intro exI conjI)
qed

lemma hexdigit_scan: "n < 16 \<Longrightarrow> hexval (hexdigit n) = Some n \<and> \<not> scan_space (hexdigit n) \<and> hexdigit n \<noteq> CHR ''-'' \<and> hexdigit n \<noteq> CHR ''+''"
proof -
  have "\<forall>n \<in> set [0..<16]. hexval (hexdigit n) = Some n \<and> \<not> scan_space (hexdigit n) \<and> hexdigit n \<noteq> CHR ''-'' \<and> hexdigit n \<noteq> CHR ''+''"
    by code_simp
  then show "n < 16 \<Longrightarrow> hexval (hexdigit n) = Some n \<and> \<not> scan_space (hexdigit n) \<and> hexdigit n \<noteq> CHR ''-'' \<and> hexdigit n \<noteq> CHR ''+''" by simp
qed

lemma scan_hex02: "scan_hex (hex02 b) = Some (uint b)"
proof -
  have lt: "unat b div 16 < 16" "unat b mod 16 < 16" using unat_byte_less[of b] by auto
  have "16 * int (unat b div 16) + int (unat b mod 16) = uint b"
    by (metis mult_div_mod_eq of_nat_add of_nat_mult of_nat_numeral uint_nat)
  then show ?thesis
    using hexdigit_scan[OF lt(1)] hexdigit_scan[OF lt(2)] by (simp add: scan_hex_def hex02_def Let_def)
qed

text \<open>A MAC address printed the way the engine prints it is read back by \<open>parseMAC\<close>.\<close>

theorem parse_mac_round_trip: "parseMAC (fmtMAC a b c d e f) = Inr [a, b, c, d, e, f]"
proof -
  let ?s = "fmtMAC a b c d e f"
  have g: "gslice 0 2 ?s = hex02 a" "gslice 3 5 ?s = hex02 b" "gslice 6 8 ?s = hex02 c"
    "gslice 9 11 ?s = hex02 d" "gslice 12 14 ?s = hex02 e" "gslice 15 17 ?s = hex02 f"
    unfolding fmtMAC_def hex02_def gslice_def by simp_all
  have u: "[0..<6] = [0, 1, 2, 3, 4, 5 :: nat]" by code_simp
  show ?thesis unfolding parseMAC_def u by (simp add: g g(1)[unfolded numeral_2_eq_2] scan_hex02)
qed

end
