(* ===== verification/WinSocket.thy ===== *)
theory WinSocket
  imports Prelude "HOL-Library.Sublist"
begin

text \<open>
  \<open>cmd/trafficgen/socket_windows.go\<close>: the Npcap socket of the traffic generator. The list of devices
  and the results of the calls into \<open>wpcap.dll\<close> are arguments; a Go or C string is its bytes. A path
  that ends in \<open>os.Exit\<close> is a left value.
\<close>

record device =
  d_name :: bytes
  d_description :: bytes

datatype resolve_error = NoInterfaces | IndexOutOfRange int | Ambiguous "device list" | NoMatch

section \<open>Strings\<close>

definition lowerASCII :: "bytes \<Rightarrow> bytes" where
  "lowerASCII s = map (\<lambda>c. if 65 \<le> c \<and> c \<le> 90 then c + 32 else c) s"

text \<open>The loop of \<open>contains\<close> from position \<open>i\<close>.\<close>

function contains_from :: "bytes \<Rightarrow> bytes \<Rightarrow> nat \<Rightarrow> bool" where
  "contains_from s sub i =
     (if i + length sub \<le> length s
      then if gslice i (i + length sub) s = sub then True else contains_from s sub (i + 1)
      else False)"
  by pat_completeness auto
termination by (relation "measure (\<lambda>(s, sub, i). Suc (length s) - i)") auto

declare contains_from.simps [simp del]

definition contains :: "bytes \<Rightarrow> bytes \<Rightarrow> bool" where
  "contains s sub = contains_from s sub 0"

definition containsFold :: "bytes \<Rightarrow> bytes \<Rightarrow> bool" where
  "containsFold s lowerSub \<longleftrightarrow> length lowerSub > 0 \<and> length lowerSub \<le> length s
     \<and> length (lowerASCII s) \<ge> length lowerSub \<and> contains (lowerASCII s) lowerSub"

text \<open>\<open>cStr\<close> and \<open>ptrStr\<close>: up to the first zero byte (or the end of the slice).\<close>

fun cStr :: "bytes \<Rightarrow> bytes" where
  "cStr [] = []"
| "cStr (c # cs) = (if c = 0 then [] else c # cStr cs)"

text \<open>
  \<open>fmt.Sscanf(s, "%d", &idx)\<close>: white space is skipped (a newline is an error), then an optional sign and
  at least one digit are read; what follows the digits is ignored. A value outside 64 bits is an error.
\<close>

definition scan_spaces :: "bytes list" where
  "scan_spaces = [[9], [11], [12], [13], [32], [0xc2, 0x85], [0xc2, 0xa0], [0xe1, 0x9a, 0x80]]
     @ map (\<lambda>b. [0xe2, 0x80, b]) [0x80, 0x81, 0x82, 0x83, 0x84, 0x85, 0x86, 0x87, 0x88, 0x89, 0x8a, 0xa8, 0xa9, 0xaf]
     @ [[0xe2, 0x81, 0x9f], [0xe3, 0x80, 0x80]]"

function skip_space :: "bytes \<Rightarrow> bytes" where
  "skip_space s =
     (case List.find (\<lambda>sp. take (length sp) s = sp) scan_spaces of
        None \<Rightarrow> s
      | Some sp \<Rightarrow> if s = [] \<or> sp = [] then s else skip_space (drop (length sp) s))"
  by pat_completeness auto
termination by (relation "measure length") auto

declare skip_space.simps [simp del]

definition is_digit :: "byte \<Rightarrow> bool" where
  "is_digit c \<longleftrightarrow> 48 \<le> c \<and> c \<le> 57"

definition scan_d :: "bytes \<Rightarrow> int option" where
  "scan_d s =
     (let s = skip_space s;
          neg = (s \<noteq> [] \<and> hd s = 45);
          s = (if s \<noteq> [] \<and> (hd s = 45 \<or> hd s = 43) then tl s else s);
          ds = takeWhile is_digit s;
          v = foldl (\<lambda>v c. 10 * v + (uint c - 48)) 0 ds;
          v = (if neg then - v else v)
      in if ds = [] \<or> \<not> (- (2 ^ 63) \<le> v \<and> v < 2 ^ 63) then None else Some v)"

section \<open>Devices\<close>

definition resolveDevice :: "device list \<Rightarrow> bytes \<Rightarrow> resolve_error + bytes" where
  "resolveDevice devs ifc =
     (if length devs = 0 then Inl NoInterfaces
      else case List.find (\<lambda>d. d_name d = ifc) devs of
          Some d \<Rightarrow> Inr (d_name d)
        | None \<Rightarrow>
          (case scan_d ifc of
             Some idx \<Rightarrow>
               if idx \<ge> 1 \<and> idx \<le> int (length devs) then Inr (d_name (devs ! nat (idx - 1)))
               else Inl (IndexOutOfRange idx)
           | None \<Rightarrow>
             let lower = lowerASCII ifc;
                 matches = filter (\<lambda>d. containsFold (d_description d) lower) devs
             in if length matches = 1 then Inr (d_name (matches ! 0))
                else if length matches > 1 then Inl (Ambiguous matches)
                else Inl NoMatch))"

section \<open>The socket\<close>

record windowsSocket =
  ws_handle :: int
  ws_closed :: bool

datatype win_error = SocketClosed | PcapError

definition ws_Send :: "windowsSocket \<Rightarrow> int \<Rightarrow> bytes \<Rightarrow> (win_error + unit) option" where
  "ws_Send s r frame =
     (if ws_closed s then Some (Inl SocketClosed)
      else if frame = [] then None
      else if r \<noteq> 0 then Some (Inl PcapError) else Some (Inr ()))"

text \<open>\<open>pcap_next_ex\<close> returned \<open>r\<close> and, for 1, a packet of \<open>caplen\<close> bytes.\<close>

definition ws_Recv :: "windowsSocket \<Rightarrow> int \<Rightarrow> bytes \<Rightarrow> bytes \<Rightarrow> (win_error + nat) \<times> bytes" where
  "ws_Recv s r pkt buf =
     (if ws_closed s then (Inl SocketClosed, buf)
      else if r = 1
      then let caplen = (if length pkt > length buf then length buf else length pkt)
           in (Inr caplen, take caplen pkt @ drop caplen buf)
      else if r = 0 then (Inr 0, buf)
      else (Inl PcapError, buf))"

text \<open>\<open>openSocket\<close>; \<open>pcap\<close> is what \<open>pcap_open_live\<close> returns for the device name with its terminating zero,
  0 on failure.\<close>

datatype open_error = Unresolved resolve_error | OpenLive bytes

definition win_openSocket :: "(bytes \<Rightarrow> int) \<Rightarrow> device list \<Rightarrow> bytes \<Rightarrow> open_error + windowsSocket" where
  "win_openSocket pcap devs ifc =
     (case resolveDevice devs ifc of
        Inl e \<Rightarrow> Inl (Unresolved e)
      | Inr dev \<Rightarrow>
        let r = pcap (dev @ [0])
        in if r = 0 then Inl (OpenLive dev) else Inr \<lparr>ws_handle = r, ws_closed = False\<rparr>)"

text \<open>The time-out is fixed when the handle is opened.\<close>

definition ws_SetRecvTimeout :: "int \<Rightarrow> windowsSocket \<Rightarrow> windowsSocket" where
  "ws_SetRecvTimeout d s = s"

text \<open>The second component counts the calls of \<open>pcap_close\<close>.\<close>

definition ws_Close :: "windowsSocket \<times> nat \<Rightarrow> windowsSocket \<times> nat" where
  "ws_Close sc = (if ws_closed (fst sc) then sc else ((fst sc)\<lparr>ws_closed := True\<rparr>, snd sc + 1))"

section \<open>Properties\<close>

lemma contains_from_iff: "contains_from s sub i \<longleftrightarrow> (\<exists>j \<ge> i. j + length sub \<le> length s \<and> gslice j (j + length sub) s = sub)"
proof (induction s sub i rule: contains_from.induct)
  case (1 s sub i)
  show ?case
  proof (cases "i + length sub \<le> length s")
    case True
    show ?thesis
    proof (cases "gslice i (i + length sub) s = sub")
      case False
      then show ?thesis
        using 1[OF True False] True by (subst contains_from.simps) (auto simp: Suc_le_eq nat_less_le)
    qed (use True in \<open>auto simp: contains_from.simps[of s sub i]\<close>)
  qed (auto simp: contains_from.simps[of s sub i])
qed

lemma contains_sublist: "contains s sub \<longleftrightarrow> sublist sub s"
proof
  assume "contains s sub"
  then obtain j where j: "gslice j (j + length sub) s = sub" by (auto simp: contains_def contains_from_iff)
  have "s = take j s @ take (length sub) (drop j s) @ drop (length sub) (drop j s)"
    by (simp only: append_take_drop_id)
  then have "s = take j s @ sub @ drop (length sub) (drop j s)" using j by (simp add: gslice_def)
  then show "sublist sub s" unfolding sublist_def by blast
next
  assume "sublist sub s"
  then obtain a b where s: "s = a @ sub @ b" by (auto simp: sublist_def)
  then have "gslice (length a) (length a + length sub) s = sub" by (simp add: gslice_def)
  then show "contains s sub"
    using s unfolding contains_def contains_from_iff by (intro exI[of _ "length a"]) simp
qed

lemma containsFold_iff: "containsFold s sub \<longleftrightarrow> sub \<noteq> [] \<and> sublist sub (lowerASCII s)"
  by (auto simp: containsFold_def contains_sublist lowerASCII_def dest: sublist_length_le)

text \<open>What \<open>--iface\<close> resolves to on Windows: an exact device name always wins; otherwise an argument that
  starts with a number is an index, out of range or not, whatever follows the number; otherwise the
  argument must occur, up to ASCII case, in the description of exactly one device.\<close>

theorem resolve_device:
  "resolveDevice devs ifc =
    (if devs = [] then Inl NoInterfaces
     else if ifc \<in> d_name ` set devs then Inr ifc
     else case scan_d ifc of
         Some idx \<Rightarrow> if 1 \<le> idx \<and> idx \<le> int (length devs) then Inr (d_name (devs ! nat (idx - 1))) else Inl (IndexOutOfRange idx)
       | None \<Rightarrow>
         (case filter (\<lambda>d. ifc \<noteq> [] \<and> sublist (lowerASCII ifc) (lowerASCII (d_description d))) devs of
            [] \<Rightarrow> Inl NoMatch
          | [d] \<Rightarrow> Inr (d_name d)
          | ds \<Rightarrow> Inl (Ambiguous ds)))"
proof -
  have f: "(\<lambda>d. containsFold (d_description d) (lowerASCII ifc))
      = (\<lambda>d. ifc \<noteq> [] \<and> sublist (lowerASCII ifc) (lowerASCII (d_description d)))"
    by (simp add: containsFold_iff fun_eq_iff lowerASCII_def)
  have n: "List.find (\<lambda>d. d_name d = ifc) devs = None \<longleftrightarrow> \<not> (\<exists>d \<in> set devs. d_name d = ifc)"
    by (auto simp: find_None_iff)
  show ?thesis
  proof (cases "List.find (\<lambda>d. d_name d = ifc) devs")
    case None
    then show ?thesis
      using n unfolding resolveDevice_def f Let_def by (auto split: option.splits list.splits)
  next
    case (Some d)
    then have "d \<in> set devs" "d_name d = ifc" by (auto simp: find_Some_iff)
    with Some show ?thesis by (auto simp: resolveDevice_def)
  qed
qed

text \<open>A closed socket is closed once, however often \<open>Close\<close> is called.\<close>

lemma close_once: "snd ((ws_Close ^^ Suc k) (s, c)) = (if ws_closed s then c else c + 1)"
proof -
  have "(ws_Close ^^ Suc k) (s, c) = ws_Close (s, c)"
    by (induction k) (auto simp: ws_Close_def)
  then show ?thesis by (simp add: ws_Close_def)
qed

end
