(* ===== verification/PktSocket.thy ===== *)
theory PktSocket
  imports Prelude
begin

text \<open>
  \<open>cmd/trafficgen/socket_iface.go\<close>: the interface \<open>pktSocket\<close> behind which the traffic generator keeps its
  Linux and its Npcap socket. \<open>Recv\<close> takes what the system answers and the caller's buffer, and gives
  the count or the error and the buffer afterwards.
\<close>

text \<open>The receive loop of \<open>cmd/trafficgen/main.go\<close> makes one buffer and hands it to every \<open>Recv\<close>; after each it
  looks at \<open>buf[:nr]\<close>, and the rest of the buffer lies behind that slice. An error ends the loop.\<close>

fun socket_turns :: "('r \<Rightarrow> bytes \<Rightarrow> ('e + nat) \<times> bytes) \<Rightarrow> 'r list \<Rightarrow> bytes \<Rightarrow> (bytes \<times> bytes) option list" where
  "socket_turns Recv [] buf = []"
| "socket_turns Recv (r # rs) buf =
     (case Recv r buf of
        (Inl _, _) \<Rightarrow> [None]
      | (Inr n, buf) \<Rightarrow> Some (take n buf, drop n buf) # socket_turns Recv rs buf)"

text \<open>What the comments of the interface promise: \<open>Recv\<close> returns a frame, or zero bytes and no error after a
  time-out. \<open>delivers w r\<close> says that the answer \<open>r\<close> carries the frame \<open>w\<close>, as it was on the wire.\<close>

locale pkt_socket =
  fixes Recv :: "'r \<Rightarrow> bytes \<Rightarrow> ('e + nat) \<times> bytes"
    and timed_out :: "'r \<Rightarrow> bool"
    and delivers :: "bytes \<Rightarrow> 'r \<Rightarrow> bool"
  assumes recv_timeout: "timed_out r \<Longrightarrow> Recv r buf = (Inr 0, buf)"
    and recv_delivers: "delivers w r \<Longrightarrow> length w \<le> length buf \<Longrightarrow> Recv r buf = (Inr (length w), w @ drop (length w) buf)"
begin

lemma timeout_turn: "timed_out r \<Longrightarrow> socket_turns Recv (r # rs) buf = Some ([], buf) # socket_turns Recv rs buf"
  by (simp add: recv_timeout)

lemma delivery_turn:
  "delivers w r \<Longrightarrow> length w \<le> length buf \<Longrightarrow>
     socket_turns Recv (r # rs) buf = Some (w, drop (length w) buf) # socket_turns Recv rs (w @ drop (length w) buf)"
  by (simp add: recv_delivers)

text \<open>The buffer keeps its length, so a frame that fits once fits always.\<close>

lemma delivery_room: "delivers w r \<Longrightarrow> length w \<le> length buf \<Longrightarrow> length (snd (Recv r buf)) = length buf"
  by (simp add: recv_delivers)

end

end
