(* ===== verification/Capture.thy ===== *)
theory Capture
  imports TrafficGen WinSocket PktSocket
begin

text \<open>
  The receiver of the traffic generator over its sockets: the interface \<open>pktSocket\<close> interpreted on the
  Linux socket (\<open>socket_linux.go\<close>) and on the Npcap socket (\<open>socket_windows.go\<close>), and what the
  statistics say of a stream that a sender put on the wire.
\<close>

section \<open>The sockets keep the contract\<close>

text \<open>A frame on the wire and how the kernel hands it over: as it is, with control messages that carry no
  VLAN tag, or with its tag stripped and reported in a control message.\<close>

definition inline :: "abi \<Rightarrow> bytes \<Rightarrow> recvd \<Rightarrow> bool" where
  "inline A w r \<longleftrightarrow> rc_pkt r = w \<and> (case rc_msgs r of None \<Rightarrow> True | Some ms \<Rightarrow> \<forall>m \<in> set ms. aux_vlan A m = None)"

definition stripped :: "abi \<Rightarrow> bytes \<Rightarrow> recvd \<Rightarrow> bool" where
  "stripped A w r \<longleftrightarrow> 16 \<le> length w \<and> rc_pkt r = take 12 w @ drop 16 w \<and> 0 < rc_oobn r
     \<and> (\<exists>ms m ns. rc_msgs r = Some (ms @ m # ns) \<and> (\<forall>m \<in> set ms. aux_vlan A m = None)
          \<and> aux_vlan A m = Some (get16 w 14, get16 w 12))"

definition linux_delivers :: "abi \<Rightarrow> bytes \<Rightarrow> recv_error + recvd \<Rightarrow> bool" where
  "linux_delivers A w r \<longleftrightarrow> (\<exists>p. r = Inr p \<and> (inline A w p \<or> stripped A w p))"

definition linux_timeout :: "recv_error + recvd \<Rightarrow> bool" where
  "linux_timeout r \<longleftrightarrow> r = Inl EAGAIN \<or> r = Inl EINTR"

lemma ls_Recv_inline:
  assumes "inline A w p" and "length w \<le> length buf"
  shows "ls_Recv A (Inr p) buf = (Inr (length w), w @ drop (length w) buf)"
proof -
  have "restoreVLANTag A (rc_oobn p) (rc_msgs p) n b = (n, b)" for n b
    using assms(1) restore_skip[of _ A "[]" n b] by (auto simp: restoreVLANTag_def inline_def split: option.splits)
  then show ?thesis using assms by (simp add: ls_Recv_def inline_def recv_into_fits)
qed

lemma ls_Recv_stripped:
  assumes "stripped A w p" and "length w \<le> length buf"
  shows "ls_Recv A (Inr p) buf = (Inr (length w), w @ drop (length w) buf)"
proof -
  obtain ms m ns where p: "rc_msgs p = Some (ms @ m # ns)" "\<forall>m \<in> set ms. aux_vlan A m = None"
    "aux_vlan A m = Some (get16 w 14, get16 w 12)" using assms(1) by (auto simp: stripped_def)
  have len: "16 \<le> length w" "0 < rc_oobn p" "rc_pkt p = take 12 w @ drop 16 w" using assms(1) by (simp_all add: stripped_def)
  show ?thesis
    using restore_stripped[OF len(1) assms(2) p(2,3), of ns] len(2,3) p(1)
    by (simp add: ls_Recv_def restoreVLANTag_def case_prod_beta)
qed

interpretation linux: pkt_socket "ls_Recv A" linux_timeout "linux_delivers A" for A
proof
  fix r and buf :: bytes
  show "linux_timeout r \<Longrightarrow> ls_Recv A r buf = (Inr 0, buf)"
    by (auto simp: linux_timeout_def ls_Recv_def)
next
  fix w r and buf :: bytes
  assume "linux_delivers A w r" "length w \<le> length buf"
  then show "ls_Recv A r buf = (Inr (length w), w @ drop (length w) buf)"
    using ls_Recv_inline ls_Recv_stripped by (auto simp: linux_delivers_def)
qed

text \<open>Npcap hands over the result of \<open>pcap_next_ex\<close> and the packet, tag and all.\<close>

definition npcap_Recv :: "windowsSocket \<Rightarrow> int \<times> bytes \<Rightarrow> bytes \<Rightarrow> (win_error + nat) \<times> bytes" where
  "npcap_Recv s = (\<lambda>(r, pkt) buf. ws_Recv s r pkt buf)"

definition npcap_delivers :: "windowsSocket \<Rightarrow> bytes \<Rightarrow> int \<times> bytes \<Rightarrow> bool" where
  "npcap_delivers s w x \<longleftrightarrow> \<not> ws_closed s \<and> x = (1, w)"

definition npcap_timeout :: "windowsSocket \<Rightarrow> int \<times> bytes \<Rightarrow> bool" where
  "npcap_timeout s x \<longleftrightarrow> \<not> ws_closed s \<and> fst x = 0"

interpretation npcap: pkt_socket "npcap_Recv s" "npcap_timeout s" "npcap_delivers s" for s
  by unfold_locales (auto simp: npcap_Recv_def npcap_timeout_def npcap_delivers_def ws_Recv_def Let_def)

section \<open>The receive loop over a socket\<close>

text \<open>The turns of \<open>recv\<close> on a socket, before its deadline and without a signal: the clock readings and what
  the system answers, with the buffer of 2048 bytes.\<close>

definition capture :: "('r \<Rightarrow> bytes \<Rightarrow> ('e + nat) \<times> bytes) \<Rightarrow> (time \<times> 'r) list \<Rightarrow> bytes \<Rightarrow> recv_turn list" where
  "capture Recv xs buf =
     map2 (\<lambda>now x. \<lparr>rt_expired = False, rt_stop = False, rt_now = now, rt_recv = x\<rparr>) (map fst xs) (socket_turns Recv (map snd xs) buf)"

text \<open>Arrivals: which frame of the list \<open>fs\<close> arrives, or that none does before the time-out.\<close>

definition arrivals :: "(bytes \<Rightarrow> 'r \<Rightarrow> bool) \<Rightarrow> ('r \<Rightarrow> bool) \<Rightarrow> bytes list \<Rightarrow> (nat option \<times> time \<times> 'r) list \<Rightarrow> bool" where
  "arrivals delivers timed_out fs as \<longleftrightarrow>
     (\<forall>(x, now, r) \<in> set as. case x of
        None \<Rightarrow> timed_out r
      | Some i \<Rightarrow> i < length fs \<and> delivers (fs ! i) r)"

definition arrived :: "(nat option \<times> time \<times> 'r) list \<Rightarrow> nat list" where
  "arrived as = List.map_filter fst as"

lemma arrived_simps [simp]:
  "arrived [] = []" "arrived ((None, y) # as) = arrived as" "arrived ((Some i, y) # as) = i # arrived as"
  by (simp_all add: arrived_def map_filter_def)

context pkt_socket
begin

text \<open>Over a socket the loop does what it does on the frames of the wire, with something behind each.\<close>

lemma capture_turns:
  assumes "arrivals delivers timed_out fs as" and "\<forall>f \<in> set fs. length f \<le> length buf"
  shows "\<exists>bs. map fst bs = arrived as \<and> (\<forall>s. recv False want (capture Recv (map snd as) buf) s
    = recv False want (map (\<lambda>(i, now, spare). \<lparr>rt_expired = False, rt_stop = False, rt_now = now, rt_recv = Some (fs ! i, spare)\<rparr>) bs) s)"
  using assms
proof (induction as arbitrary: buf)
  case Nil
  then show ?case by (simp add: capture_def)
next
  case (Cons a as)
  obtain x now r where a: "a = (x, now, r)" by (cases a) auto
  have rest: "arrivals delivers timed_out fs as" using Cons.prems(1) by (simp add: arrivals_def)
  show ?case
  proof (cases x)
    case None
    then have "timed_out r" using Cons.prems(1) a by (simp add: arrivals_def)
    then have "capture Recv (map snd (a # as)) buf
        = \<lparr>rt_expired = False, rt_stop = False, rt_now = now, rt_recv = Some ([], buf)\<rparr> # capture Recv (map snd as) buf"
      by (simp add: capture_def a recv_timeout)
    then show ?thesis using Cons.IH[OF rest Cons.prems(2)] a None by simp
  next
    case (Some i)
    let ?b = "fs ! i @ drop (length (fs ! i)) buf"
    have d: "delivers (fs ! i) r" "length (fs ! i) \<le> length buf" using Cons.prems a Some by (simp_all add: arrivals_def)
    have c: "capture Recv (map snd (a # as)) buf
        = \<lparr>rt_expired = False, rt_stop = False, rt_now = now, rt_recv = Some (fs ! i, drop (length (fs ! i)) buf)\<rparr>
          # capture Recv (map snd as) ?b"
      using d by (simp add: capture_def a recv_delivers)
    have "length ?b = length buf" using d(2) by simp
    moreover define T where "T = capture Recv (map snd as) ?b"
    ultimately obtain bs where bs: "map fst bs = arrived as" "\<forall>s. recv False want T s
        = recv False want (map (\<lambda>(i, now, spare). \<lparr>rt_expired = False, rt_stop = False, rt_now = now, rt_recv = Some (fs ! i, spare)\<rparr>) bs) s"
      using Cons.IH[of ?b] rest Cons.prems(2) unfolding T_def by metis
    show ?thesis
      unfolding c T_def[symmetric] using bs a Some
      by (intro exI[of _ "(i, now, drop (length (fs ! i)) buf) # bs"]) (simp split: option.split)
  qed
qed

lemma stream_counted:
  assumes "io_fine io" and "sa_et a = etGOOSE" and "\<not> sa_loop a" and "0 \<le> cnt" and "cnt \<le> 65536"
    and "want = 0 \<or> want = sa_appid a"
    and "arrivals delivers timed_out (frames_out (sd_out (snd (send io a cnt)))) as"
  shows "\<exists>s r. send io a cnt = (Done, s) \<and> length (frames_out (sd_out s)) = nat cnt * (if sa_burst a then 4 else 1)
    \<and> recv False want (capture Recv (map snd as) (replicate 2048 0)) no_stats = (None, r)
    \<and> st_total r = int (length (arrived as)) \<and> st_unique r = int (card (set (arrived as))) \<and> st_dupes r = st_total r - st_unique r"
proof -
  note sent = goose_stream_counted[OF assms(1-6)]
  obtain s where s: "send io a cnt = (Done, s)" "length (frames_out (sd_out s)) = nat cnt * (if sa_burst a then 4 else 1)"
    "\<forall>f \<in> set (frames_out (sd_out s)). length f \<le> 2048"
    using sent[of "[]"] by auto
  let ?fs = "frames_out (sd_out s)"
  obtain bs where bs: "map fst bs = arrived as" "\<And>s. recv False want (capture Recv (map snd as) (replicate 2048 0)) s
      = recv False want (map (\<lambda>(i, now, spare). \<lparr>rt_expired = False, rt_stop = False, rt_now = now, rt_recv = Some (?fs ! i, spare)\<rparr>) bs) s"
    using capture_turns[of ?fs as "replicate 2048 0" want] assms(7) s(1,3) by auto
  have "i < length ?fs" if "i \<in> set (arrived as)" for i
    using that assms(7) s(1) by (auto simp: arrived_def arrivals_def map_filter_def split: option.splits)
  then have "\<forall>(i, now, spare) \<in> set bs. i < nat cnt * (if sa_burst a then 4 else 1)"
    unfolding bs(1)[symmetric] s(2) by force
  moreover have "length bs = length (arrived as)" "fst ` set bs = set (arrived as)" unfolding bs(1)[symmetric] by simp_all
  ultimately show ?thesis using sent[of bs] bs(2) s by auto
qed

end

section \<open>Properties\<close>

text \<open>C19. The traffic generator measures what it means to, from the wire to the report: a sender that is not
  interrupted sends, for \<open>cnt\<close> GOOSE events, one frame each (four with bursts). A receiver of that APPID
  on a Linux socket that gets any sequence of these frames, lost, repeated and reordered, with VLAN tags
  in place or stripped by the kernel, between any number of time-outs, reports as total the number of
  arrivals, as unique the number of different frames among them, and as duplicates the difference, as
  long as the state number has not wrapped around.\<close>

theorem linux_stream_counted:
  assumes "io_fine io" and "sa_et a = etGOOSE" and "\<not> sa_loop a" and "0 \<le> cnt" and "cnt \<le> 65536"
    and "want = 0 \<or> want = sa_appid a"
    and "arrivals (linux_delivers A) linux_timeout (frames_out (sd_out (snd (send io a cnt)))) as"
  shows "\<exists>s r. send io a cnt = (Done, s) \<and> length (frames_out (sd_out s)) = nat cnt * (if sa_burst a then 4 else 1)
    \<and> recv False want (capture (ls_Recv A) (map snd as) (replicate 2048 0)) no_stats = (None, r)
    \<and> st_total r = int (length (arrived as)) \<and> st_unique r = int (card (set (arrived as))) \<and> st_dupes r = st_total r - st_unique r"
  using linux.stream_counted[OF assms] .

theorem linux_stream_counted_witness:
  "\<exists>s f g r. send ex_io (ex_send etGOOSE) 2 = (Done, s) \<and> frames_out (sd_out s) ! 7 = f \<and> frames_out (sd_out s) ! 0 = g
    \<and> recv False 0x1001 (capture (ls_Recv ex_abi)
         [(5, Inl EAGAIN), (6, Inr \<lparr>rc_pkt = f, rc_oobn = 0, rc_msgs = None\<rparr>), (7, Inr \<lparr>rc_pkt = g, rc_oobn = 36, rc_msgs = Some []\<rparr>),
          (8, Inl EINTR), (9, Inr \<lparr>rc_pkt = f, rc_oobn = 0, rc_msgs = None\<rparr>)] (replicate 2048 0)) no_stats = (None, r)
    \<and> st_total r = 3 \<and> st_unique r = 2 \<and> st_dupes r = 1"
proof -
  define s where "s = snd (send ex_io (ex_send etGOOSE) 2)"
  define f g where "f = frames_out (sd_out s) ! 7" and "g = frames_out (sd_out s) ! 0"
  let ?P = "\<lambda>w n ms. Inr \<lparr>rc_pkt = w, rc_oobn = n, rc_msgs = ms\<rparr> :: recv_error + recvd"
  let ?as = "[(None, 5, Inl EAGAIN), (Some 7, 6, ?P f 0 None), (Some 0, 7, ?P g 36 (Some [])), (None, 8, Inl EINTR), (Some 7, 9, ?P f 0 None)]"
  have e: "sa_et (ex_send etGOOSE) = etGOOSE" "\<not> sa_loop (ex_send etGOOSE)" "sa_appid (ex_send etGOOSE) = 0x1001"
    "sa_burst (ex_send etGOOSE)" by (simp_all add: ex_send_def)
  note c = linux_stream_counted[OF ex_io_fine e(1,2), of 2 "0x1001" ex_abi]
  have nil: "arrivals (linux_delivers ex_abi) linux_timeout (frames_out (sd_out (snd (send ex_io (ex_send etGOOSE) 2)))) []"
    by (simp add: arrivals_def)
  have len: "length (frames_out (sd_out s)) = 8" using c[OF _ _ _ nil] e unfolding s_def by auto
  have "arrivals (linux_delivers ex_abi) linux_timeout (frames_out (sd_out s)) ?as"
    using len by (simp add: arrivals_def linux_delivers_def linux_timeout_def inline_def f_def g_def)
  from c[OF _ _ _ this[unfolded s_def]] e obtain r where r: "send ex_io (ex_send etGOOSE) 2 = (Done, s)"
    "recv False 0x1001 (capture (ls_Recv ex_abi) (map snd ?as) (replicate 2048 0)) no_stats = (None, r)"
    "st_total r = int (length (arrived ?as))" "st_unique r = int (card (set (arrived ?as)))" "st_dupes r = st_total r - st_unique r"
    unfolding s_def by (auto simp del: arrived_simps recv.simps)
  have "set (arrived ?as) = {0, 7}" by auto
  then have u: "st_unique r = 2" using r(4) by simp
  show ?thesis
    by (rule exI[of _ s], rule exI[of _ f], rule exI[of _ g], rule exI[of _ r]) (use r f_def g_def u in simp)
qed

text \<open>The same holds on an Npcap socket.\<close>

theorem npcap_stream_counted:
  assumes "io_fine io" and "sa_et a = etGOOSE" and "\<not> sa_loop a" and "0 \<le> cnt" and "cnt \<le> 65536"
    and "want = 0 \<or> want = sa_appid a"
    and "arrivals (npcap_delivers w) (npcap_timeout w) (frames_out (sd_out (snd (send io a cnt)))) as"
  shows "\<exists>s r. send io a cnt = (Done, s) \<and> length (frames_out (sd_out s)) = nat cnt * (if sa_burst a then 4 else 1)
    \<and> recv False want (capture (npcap_Recv w) (map snd as) (replicate 2048 0)) no_stats = (None, r)
    \<and> st_total r = int (length (arrived as)) \<and> st_unique r = int (card (set (arrived as))) \<and> st_dupes r = st_total r - st_unique r"
  using npcap.stream_counted[OF assms] .

end
