(* ===== verification/Report.thy ===== *)
theory Report
  imports TrafficGen "HOL-Library.Char_ord" "HOL-Library.List_Lexorder"
begin

text \<open>
  \<open>stats.report\<close> and \<open>stats.partial\<close> of \<open>cmd/trafficgen/main.go\<close>, with what they use of Go's
  \<open>float64\<close>: multiplication of non-negative numbers.

  A \<open>float64\<close> that is not negative, not too large and not too small is a number of 53 significant
  bits times a power of two. The product of two of them is rounded to the nearest such number, ties to
  an even last bit (\<open>rne\<close>); the conversion to \<open>int\<close> drops the fraction.
\<close>

section \<open>Floating point\<close>

fun bit_len :: "nat \<Rightarrow> nat" where
  "bit_len n = (if n = 0 then 0 else Suc (bit_len (n div 2)))"

declare bit_len.simps [simp del]

definition rne :: "nat \<Rightarrow> nat" where
  "rne m =
     (let sh = bit_len m - 53;
          q = m div 2 ^ sh; r = 2 * (m mod 2 ^ sh);
          up = (r > 2 ^ sh \<or> (r = 2 ^ sh \<and> odd q))
      in (if up then q + 1 else q) * 2 ^ sh)"

text \<open>A number \<open>m / 2^k\<close>.\<close>

type_synonym f64 = "nat \<times> nat"

definition f64_of_int :: "nat \<Rightarrow> f64" where
  "f64_of_int n = (rne n, 0)"

definition f64_mul :: "f64 \<Rightarrow> f64 \<Rightarrow> f64" where
  "f64_mul x y = (rne (fst x * fst y), snd x + snd y)"

definition int_of_f64 :: "f64 \<Rightarrow> nat" where
  "int_of_f64 x = fst x div 2 ^ snd x"

text \<open>The literals \<open>0.50\<close> and \<open>0.95\<close>.\<close>

definition f64_050 :: f64 where "f64_050 = (1, 1)"
definition f64_095 :: f64 where "f64_095 = (0x1E666666666666, 53)"

section \<open>The report\<close>

definition partial :: "stats \<Rightarrow> string" where
  "partial s = ''total='' @ show_int (st_total s) @ '' unique='' @ show_int (st_unique s) @ '' dupes='' @ show_int (st_dupes s)"

text \<open>The closure \<open>p\<close>: an index out of range panics.\<close>

definition percentile :: "int list \<Rightarrow> f64 \<Rightarrow> int option" where
  "percentile lat q =
     (let i = int_of_f64 (f64_mul (f64_of_int (length lat - 1)) q)
      in if i < length lat then Some (lat ! i) else None)"

definition latency_line :: "string \<Rightarrow> int list \<Rightarrow> string option" where
  "latency_line label lat =
     do { p50 \<leftarrow> percentile lat f64_050;
          p95 \<leftarrow> percentile lat f64_095;
          Some (label @ '': latency min='' @ dur_String (lat ! 0) @ '' p50='' @ dur_String p50 @ '' p95='' @ dur_String p95
            @ '' max='' @ dur_String (lat ! (length lat - 1)) @ '' (n='' @ show_int (int (length lat)) @ '')'') }"

definition tag_part :: "(int \<times> int) \<times> int \<Rightarrow> string" where
  "tag_part t = ''vid='' @ show_int (fst (fst t)) @ '' pcp='' @ show_int (snd (fst t)) @ '' (n='' @ show_int (snd t) @ '')''"

definition tags_line :: "string \<Rightarrow> ((int \<times> int) \<times> int) list \<Rightarrow> string" where
  "tags_line label tags = label @ '': observed tags: '' @ join '', '' (sort (map tag_part tags))"

text \<open>
  The lines printed, and the statistics with the latencies sorted. The order in which the two maps are
  ranged over does not matter, the parts are sorted (\<open>sort.Strings\<close> compares bytes).
\<close>

definition report :: "string \<Rightarrow> stats \<Rightarrow> (string list \<times> stats) option" where
  "report label s =
     (let counts = label @ '': '' @ partial s;
          tags = (if st_tags s \<noteq> [] then [tags_line label (st_tags s)] else [])
      in if st_latency s = [] then Some (counts # tags, s)
         else let s = s\<lparr>st_latency := sort (st_latency s)\<rparr>
              in do { line \<leftarrow> latency_line label (st_latency s);
                      Some (counts # line # tags, s) })"

section \<open>Rounding\<close>

lemma bit_len_bounds:
  assumes "0 < n"
  shows "2 ^ (bit_len n - 1) \<le> n" and "n < 2 ^ bit_len n" and "0 < bit_len n"
proof -
  have "2 ^ (bit_len n - 1) \<le> n \<and> n < 2 ^ bit_len n \<and> 0 < bit_len n" using assms
  proof (induction n rule: bit_len.induct)
    case (1 n)
    show ?case
    proof (cases "n div 2 = 0")
      case True
      then show ?thesis using "1.prems" by (simp add: bit_len.simps[of n] bit_len.simps[of 0])
    next
      case False
      then have ih: "2 ^ (bit_len (n div 2) - 1) \<le> n div 2" "n div 2 < 2 ^ bit_len (n div 2)" "0 < bit_len (n div 2)"
        using "1.IH" "1.prems" by simp_all
      obtain k where k: "bit_len (n div 2) = Suc k" using ih(3) by (cases "bit_len (n div 2)") auto
      then have "bit_len n = Suc (Suc k)" using "1.prems" by (subst bit_len.simps) simp
      then show ?thesis using ih(1,2) k by auto
    qed
  qed
  then show "2 ^ (bit_len n - 1) \<le> n" "n < 2 ^ bit_len n" "0 < bit_len n" by simp_all
qed

text \<open>The weight of the last of the 53 bits. The rounded number is a multiple of it, at most a half of it away.\<close>

definition ulp :: "nat \<Rightarrow> nat" where
  "ulp m = 2 ^ (bit_len m - 53)"

lemma rne_dvd: "ulp m dvd rne m"
  by (simp add: rne_def ulp_def Let_def)

lemma rne_near: "2 * rne m \<le> 2 * m + ulp m" "2 * m \<le> 2 * rne m + ulp m"
proof -
  define u where "u = ulp m"
  define k r where "k = m div u * u" and "r = m mod u"
  have m: "m = k + r" unfolding k_def r_def by (rule div_mult_mod_eq[symmetric])
  have r: "r < u" by (simp add: r_def u_def ulp_def)
  have rne: "rne m = (if 2 * r > u \<or> (2 * r = u \<and> odd (m div u)) then k + u else k)"
    by (simp add: rne_def u_def ulp_def k_def r_def Let_def algebra_simps)
  show "2 * rne m \<le> 2 * m + ulp m" "2 * m \<le> 2 * rne m + ulp m"
    unfolding u_def[symmetric] rne using m r by auto
qed

text \<open>The last bit weighs little, and a multiple of its weight that is less than half of it away is the result.\<close>

lemma ulp_small:
  assumes "2 ^ 52 \<le> m"
  shows "2 ^ 52 * ulp m \<le> m"
proof -
  from assms have "0 < m" by simp
  note b = bit_len_bounds(1,2)[OF this]
  have "(2 :: nat) ^ 52 < 2 ^ bit_len m" using assms b(2) by linarith
  then have "52 < bit_len m" by (simp only: power_strict_increasing_iff one_less_numeral_iff semiring_norm)
  then have "52 + (bit_len m - 53) = bit_len m - 1" by simp
  then have "(2 :: nat) ^ 52 * ulp m = 2 ^ (bit_len m - 1)" unfolding ulp_def power_add[symmetric] by simp
  with b(1) show ?thesis by simp
qed

lemma ulp_large: "m < 2 ^ 53 * ulp m"
proof (cases "m = 0")
  case False
  then have "m < 2 ^ bit_len m" by (simp add: bit_len_bounds)
  also have "\<dots> \<le> 2 ^ (53 + (bit_len m - 53))" by (rule power_increasing) simp_all
  finally show ?thesis by (simp only: ulp_def power_add)
qed (simp add: ulp_def)

lemma rne_exact:
  assumes "ulp m dvd y" and "m \<le> y" and "2 * (y - m) < ulp m"
  shows "rne m = y"
proof (rule ccontr)
  assume "rne m \<noteq> y"
  then consider "rne m + ulp m \<le> y" | "y + ulp m \<le> rne m"
  proof (cases rule: linorder_cases[of "rne m" y])
    case less
    then have "ulp m dvd y - rne m" "0 < y - rne m" using assms(1) rne_dvd[of m] by (auto intro: dvd_diff_nat)
    then have "ulp m \<le> y - rne m" by (simp add: dvd_imp_le)
    then show ?thesis using that(1) less by simp
  next
    case greater
    then have "ulp m dvd rne m - y" "0 < rne m - y" using assms(1) rne_dvd[of m] by (auto intro: dvd_diff_nat)
    then have "ulp m \<le> rne m - y" by (simp add: dvd_imp_le)
    then show ?thesis using that(2) greater by simp
  qed simp
  then show False using rne_near[of m] assms(2,3) by cases linarith+
qed

lemma rne_53: "m < 2 ^ 53 \<Longrightarrow> rne m = m"
proof (cases "m = 0")
  case False
  assume "m < 2 ^ 53"
  moreover have "2 ^ (bit_len m - 1) \<le> m" "0 < bit_len m" using False bit_len_bounds[of m] by simp_all
  ultimately have "(2 :: nat) ^ (bit_len m - 1) < 2 ^ 53" by linarith
  then have "bit_len m - 1 < 53" by (simp only: power_strict_increasing_iff one_less_numeral_iff semiring_norm)
  then have "ulp m = 1" by (simp add: ulp_def)
  then show ?thesis by (intro rne_exact) simp_all
qed (simp add: rne_def Let_def bit_len.simps)

section \<open>Percentiles\<close>

lemma index_050: "n < 2 ^ 53 \<Longrightarrow> int_of_f64 (f64_mul (f64_of_int n) f64_050) = n div 2"
  by (simp add: int_of_f64_def f64_mul_def f64_of_int_def f64_050_def rne_53)

text \<open>The literal \<open>0.95\<close> is a little less than 95/100, and the products are rounded; the index is exact all the same.\<close>

lemma index_095:
  assumes "n < 2 ^ 48"
  shows "int_of_f64 (f64_mul (f64_of_int n) f64_095) = 95 * n div 100"
proof (cases "n = 0")
  case False
  define c where "c = (8556839292003942 :: nat)"
  define M where "M = n * c"
  define k where "k = 95 * n div 100"
  define r where "r = 95 * n mod 100"
  have c: "2 ^ 52 \<le> c" "c < 2 ^ 53" "100 * c + 40 = 95 * 2 ^ 53" by (simp_all add: c_def)
  have kr: "95 * n = 100 * k + r" unfolding k_def r_def by (rule mult_div_mod_eq[symmetric])
  have r: "r < 100" "5 dvd r" by (simp_all add: r_def dvd_mod)
  have "n * (100 * c + 40) = n * (95 * 2 ^ 53)" by (simp only: c(3))
  then have M: "100 * M + 40 * n = (100 * k + r) * 2 ^ 53" unfolding kr[symmetric] M_def by (simp add: algebra_simps)
  have "2 ^ 52 \<le> M" using c(1) False unfolding M_def by (metis gr0I le_trans mult_le_mono1 nat_mult_1 Suc_leI One_nat_def)
  then have "2 ^ 52 * ulp M \<le> n * c" unfolding M_def by (rule ulp_small)
  also have "\<dots> < n * 2 ^ 53" using c(2) False by simp
  finally have small: "ulp M < 2 * n" by simp
  have large: "n * c < 2 ^ 53 * ulp M" unfolding M_def by (rule ulp_large)
  have "rne M div 2 ^ 53 = k"
  proof (cases "r = 0")
    case True
    have "2 ^ (bit_len M - 53) < (2 :: nat) ^ 53" using small assms unfolding ulp_def by simp
    then have "bit_len M - 53 < 53" by (simp only: power_strict_increasing_iff one_less_numeral_iff semiring_norm)
    then have "ulp M dvd 2 ^ 53" unfolding ulp_def by (intro le_imp_power_dvd) simp
    then have "ulp M dvd k * 2 ^ 53" by (rule dvd_mult)
    moreover have y: "100 * (k * 2 ^ 53) = 100 * M + 40 * n" using M True by simp
    moreover have "4 * n < 5 * ulp M" using large by (simp add: c_def)
    ultimately have "rne M = k * 2 ^ 53" by (intro rne_exact) simp_all
    then show ?thesis by simp
  next
    case False
    with r have r: "5 \<le> r" "r \<le> 95" by presburger+
    have e: "2 * rne M \<le> 2 * M + ulp M" "2 * M \<le> 2 * rne M + ulp M" by (rule rne_near)+
    have n: "n < 281474976710656" using assms by simp
    have M': "100 * M + 40 * n = 900719925474099200 * k + 9007199254740992 * r" using M by (simp add: algebra_simps)
    have "9007199254740992 * k \<le> rne M" using e(2) M' r(1) n small by linarith
    moreover have "200 * rne M \<le> 200 * M + 200 * n" using e(1) small by linarith
    then have "200 * rne M < 1801439850948198400 * k + 1801439850948198400" using M' r(2) n by linarith
    then have "rne M < 9007199254740992 * (k + 1)" by simp
    ultimately show ?thesis by (intro div_nat_eqI) simp_all
  qed
  moreover have "rne n = n" using assms by (intro rne_53) simp
  ultimately show ?thesis
    by (simp add: int_of_f64_def f64_mul_def f64_of_int_def f64_095_def M_def c_def k_def)
qed (simp add: int_of_f64_def f64_mul_def f64_of_int_def f64_095_def rne_53)

lemma report_SomeE:
  assumes "report label s = Some (lines, s')"
  obtains rest l where "lines = (label @ '': '' @ partial s) # rest" and "s' = s\<lparr>st_latency := l\<rparr>"
proof (cases "st_latency s = []")
  case True
  then have "s' = s\<lparr>st_latency := st_latency s\<rparr>" using assms by (simp add: report_def Let_def)
  moreover have "lines = (label @ '': '' @ partial s) # (if st_tags s \<noteq> [] then [tags_line label (st_tags s)] else [])"
    using assms True unfolding report_def Let_def by (auto split: if_splits)
  ultimately show thesis using that by blast
next
  case False
  then obtain m where "latency_line label (sort (st_latency s)) = Some m"
    using assms unfolding report_def Let_def by (cases "latency_line label (sort (st_latency s))") simp_all
  then have "lines = (label @ '': '' @ partial s) # m # (if st_tags s \<noteq> [] then [tags_line label (st_tags s)] else [])"
    "s' = s\<lparr>st_latency := sort (st_latency s)\<rparr>"
    using assms False unfolding report_def Let_def by simp_all
  then show thesis using that by blast
qed

lemma report_sorted:
  assumes "st_latency s \<noteq> []" and "length (st_latency s) \<le> 2 ^ 48"
  shows "\<exists>line tags s'. report label s = Some ((label @ '': '' @ partial s) # line # tags, s')
    \<and> mset (st_latency s') = mset (st_latency s) \<and> sorted (st_latency s')
    \<and> percentile (st_latency s') f64_050 = Some (st_latency s' ! ((length (st_latency s) - 1) div 2))
    \<and> percentile (st_latency s') f64_095 = Some (st_latency s' ! (95 * (length (st_latency s) - 1) div 100))
    \<and> (\<forall>x \<in> set (st_latency s). st_latency s' ! 0 \<le> x \<and> x \<le> st_latency s' ! (length (st_latency s) - 1))
    \<and> st_latency s' ! 0 \<le> st_latency s' ! ((length (st_latency s) - 1) div 2)
    \<and> st_latency s' ! ((length (st_latency s) - 1) div 2) \<le> st_latency s' ! (95 * (length (st_latency s) - 1) div 100)
    \<and> st_latency s' ! (95 * (length (st_latency s) - 1) div 100) \<le> st_latency s' ! (length (st_latency s) - 1)"
proof -
  define N where "N = length (st_latency s) - 1"
  define L where "L = sort (st_latency s)"
  have len: "length L = N + 1" "N < 2 ^ 48" using assms by (cases "st_latency s"; simp add: N_def L_def)+
  have L: "sorted L" "mset L = mset (st_latency s)" "set L = set (st_latency s)" by (simp_all add: L_def)
  have "10 * n div 20 \<le> 19 * n div 20" "19 * n div 20 \<le> 20 * n div 20" for n :: nat by (rule div_le_mono, simp)+
  from this[of N] have i: "N div 2 \<le> 95 * N div 100" "95 * N div 100 \<le> N" by simp_all
  have p: "percentile L f64_050 = Some (L ! (N div 2))" "percentile L f64_095 = Some (L ! (95 * N div 100))"
    using index_050[of N] index_095[of N] len i unfolding percentile_def Let_def by auto
  have mono: "L ! i \<le> L ! j" if "i \<le> j" "j \<le> N" for i j
    using that len(1) L(1) by (intro sorted_nth_mono) simp_all
  have ends: "\<forall>x \<in> set (st_latency s). L ! 0 \<le> x \<and> x \<le> L ! N"
  proof
    fix x assume "x \<in> set (st_latency s)"
    then obtain j where "j < length L" "x = L ! j" unfolding L(3)[symmetric] in_set_conv_nth by blast
    then show "L ! 0 \<le> x \<and> x \<le> L ! N" using mono len(1) by simp
  qed
  obtain line where line: "latency_line label L = Some line" by (simp add: latency_line_def p)
  then have "report label s = Some ((label @ '': '' @ partial s) # line #
      (if st_tags s \<noteq> [] then [tags_line label (st_tags s)] else []), s\<lparr>st_latency := L\<rparr>)"
    using assms(1) by (simp add: report_def Let_def L_def)
  moreover have "L ! 0 \<le> L ! (N div 2)" "L ! (N div 2) \<le> L ! (95 * N div 100)" "L ! (95 * N div 100) \<le> L ! N"
    using i by (intro mono; linarith)+
  ultimately show ?thesis using p ends L(1,2) unfolding N_def[symmetric] by (intro exI conjI) (assumption | simp)+
qed

lemma report_percentiles_some:
  "length (st_latency s) \<le> 2 ^ 48 \<Longrightarrow> \<exists>lines s'. report label s = Some (lines, s')"
proof (cases "st_latency s = []")
  case True
  then show ?thesis by (simp add: report_def Let_def)
next
  case False
  assume "length (st_latency s) \<le> 2 ^ 48"
  from report_sorted[OF False this, of label] show ?thesis by blast
qed

section \<open>Properties\<close>



end
