(* ===== verification/TrafficMain.thy ===== *)
theory TrafficMain
  imports Capture Report TUI
begin

text \<open>
  The process \<open>trafficgen\<close> (\<open>cmd/trafficgen/main.go\<close>) on Linux: the modes \<open>send\<close> and \<open>recv\<close> from the opening
  of the socket to the exit, with what \<open>recv\<close> prints; \<open>pingMode\<close> with its two goroutines as a step relation;
  and \<open>main\<close>.

  A deferred call runs when its function returns or panics, and not when the process ends by \<open>os.Exit\<close>.
\<close>

unbundle bit_operations_syntax

text \<open>How a mode ends; \<open>Runs\<close> is a loop that goes on.\<close>

datatype tg_end = Exit int | Returns | Panics | Runs

abbreviation line :: "string \<Rightarrow> bytes" where
  "line s \<equiv> lit s @ LF"

section \<open>The mode \<open>send\<close>\<close>

definition send_mode :: "abi \<Rightarrow> kernel \<Rightarrow> string \<Rightarrow> io \<Rightarrow> send_args \<Rightarrow> int \<Rightarrow> kstate \<Rightarrow> tg_end \<times> tx list \<times> kstate" where
  "send_mode A K ifc io a cnt ks =
     (case openSocket A K ifc ks of
        (Inl _, ks) \<Rightarrow> (Exit 1, [], ks)
      | (Inr sock, ks) \<Rightarrow>
        (case send io a cnt of
           (Done, s) \<Rightarrow> (Returns, sd_out s, ls_Close sock ks)
         | (StoppedBySignal, s) \<Rightarrow> (Returns, sd_out s, ls_Close sock ks)
         | (Panicked, s) \<Rightarrow> (Panics, sd_out s, ls_Close sock ks)
         | (_, s) \<Rightarrow> (Exit 1, sd_out s, ks)))"

text \<open>\<open>stopChan\<close>: the channel is closed when the first signal comes, and a closed channel stays ready. The
  signal comes before poll number \<open>j\<close>, or never.\<close>

definition stopChan :: "nat option \<Rightarrow> nat \<Rightarrow> bool" where
  "stopChan sig k = (case sig of None \<Rightarrow> False | Some j \<Rightarrow> j \<le> k)"

section \<open>The mode \<open>recv\<close>\<close>

text \<open>The loop with what it prints: the screen after every frame of ours, and with \<open>--loop\<close> a line at a
  time-out when the last one is more than ten seconds old.\<close>

fun recv_run :: "bytes \<Rightarrow> bool \<Rightarrow> u16 \<Rightarrow> recv_turn list \<Rightarrow> time \<Rightarrow> stats \<Rightarrow> bytes list \<Rightarrow> tg_exit option \<times> stats \<times> bytes list" where
  "recv_run version loop appid [] lastReport s out = (None, s, out)"
| "recv_run version loop appid (t # ts) lastReport s out =
     (if \<not> loop \<and> rt_expired t then (Some Done, s, out)
      else if rt_stop t then (Some StoppedBySignal, s, out)
      else case rt_recv t of
          None \<Rightarrow> (Some ReadFailed, s, out)
        | Some (frame, spare) \<Rightarrow>
          if frame = []
          then (if loop \<and> time_Sub (rt_now t) lastReport > 10000000000
                then recv_run version loop appid ts (rt_now t) s (out @ [line (''recv: partial '' @ partial s)])
                else recv_run version loop appid ts lastReport s out)
          else (case parseFrame frame spare appid of
                  None \<Rightarrow> (Some Panicked, s, out)
                | Some p \<Rightarrow>
                  if \<not> pf_ok p then recv_run version loop appid ts lastReport s out
                  else let k = show_int (uint (pf_stNum p)) @ ''|'' @ show_int (uint (pf_sqNum p));
                           s = noteFrame (rt_now t) k (pf_sentAt p) s;
                           out = out @ [tui_Update version (pf_stNum p) (pf_allData p) (st_total s) (st_unique s) (st_dupes s) 0 []]
                       in recv_run version loop appid ts lastReport (noteTagged (pf_vid p) (pf_pcp p) s) out))"

definition listening :: "string \<Rightarrow> u16 \<Rightarrow> bool \<Rightarrow> int \<Rightarrow> bytes" where
  "listening ifc appid loop dur =
     lit (''recv: listening on '' @ ifc @ '' for appid 0x'') @ hex4 appid
     @ line (if loop then '' (until Ctrl+C)'' else '' for '' @ dur_String dur)"

definition recv_mode :: "bytes \<Rightarrow> abi \<Rightarrow> kernel \<Rightarrow> string \<Rightarrow> u16 \<Rightarrow> int \<Rightarrow> bool \<Rightarrow> time \<Rightarrow> recv_turn list \<Rightarrow> kstate
    \<Rightarrow> tg_end \<times> bytes list \<times> kstate" where
  "recv_mode version A K ifc appid dur loop t0 turns ks =
     (case openSocket A K ifc ks of
        (Inl _, ks) \<Rightarrow> (Exit 1, [], ks)
      | (Inr sock, ks) \<Rightarrow>
        let (sock, _, _) = ls_SetRecvTimeout 1000000000 sock;
            out = [listening ifc appid loop dur, tui_Start version (lit ''subscriber'') (lit ifc) appid];
            (x, s, out) = recv_run version loop appid turns t0 no_stats out;
            unwind = (Panics, out @ [tui_Stop], ls_Close sock ks)
        in (case x of
              None \<Rightarrow> (Runs, out, ks)
            | Some ReadFailed \<Rightarrow> (Exit 1, out, ks)
            | Some Panicked \<Rightarrow> unwind
            | Some _ \<Rightarrow>
              (case report ''recv'' s of
                 None \<Rightarrow> unwind
               | Some (lines, _) \<Rightarrow> (Exit 0, out @ map line lines, ks))))"

section \<open>The mode \<open>ping\<close>\<close>

text \<open>
  Two goroutines share the statistics. The sender builds and sends \<open>count\<close> frames, sleeps, closes \<open>done\<close> and
  reports; the \<open>break\<close> under \<open>case <-stop\<close> leaves the \<open>select\<close>, not the loop, so that the answer of the poll
  has no effect. The receiver polls \<open>done\<close>, then reads: it may note a frame after \<open>done\<close> is closed. When the
  sender returns the process ends.
\<close>

datatype ping_point = Sending | Drained | Closed | Reported | Ended tg_end

datatype echo_point = Polling | Reading | Stopped

record ping =
  pg_at :: ping_point
  pg_i :: nat
  pg_out :: "tx list"
  pg_done :: bool
  pg_rx :: echo_point
  pg_stats :: stats
  pg_lines :: "string list"

record ping_args =
  pa_dst :: bytes
  pa_src :: bytes
  pa_appid :: u16
  pa_count :: int
  pa_vid :: int
  pa_pcp :: int
  pa_interval :: int

definition ping_frame :: "ping_args \<Rightarrow> time \<Rightarrow> nat \<Rightarrow> bytes option" where
  "ping_frame a now i = buildFrame (pa_dst a) (pa_src a) now (pa_appid a) (word_of_int (int i + 1)) 1 (pa_vid a) (pa_pcp a)"

definition ping_start :: ping where
  "ping_start = \<lparr>pg_at = Sending, pg_i = 0, pg_out = [], pg_done = False, pg_rx = Polling, pg_stats = no_stats, pg_lines = []\<rparr>"

definition ping_open :: "abi \<Rightarrow> kernel \<Rightarrow> string \<Rightarrow> kstate \<Rightarrow> (tg_end + linuxSocket \<times> ping) \<times> kstate" where
  "ping_open A K ifc ks =
     (case openSocket A K ifc ks of
        (Inl _, ks) \<Rightarrow> (Inl (Exit 1), ks)
      | (Inr sock, ks) \<Rightarrow> (Inr (fst (ls_SetRecvTimeout 500000000 sock), ping_start), ks))"

definition ping_over :: "ping \<Rightarrow> bool" where
  "ping_over g = (case pg_at g of Ended _ \<Rightarrow> True | _ \<Rightarrow> False)"

text \<open>The receiver: a read that fails or times out, and a frame; \<open>time.Now()\<close> is read for the frame and
  again in \<open>noteFrame\<close>.\<close>

definition ping_echo :: "ping_args \<Rightarrow> (bytes \<times> bytes) option \<Rightarrow> time \<Rightarrow> time \<Rightarrow> stats \<Rightarrow> stats option" where
  "ping_echo a r now now' s =
     (case r of
        None \<Rightarrow> Some s
      | Some (frame, spare) \<Rightarrow>
        if frame = [] then Some s
        else do { p \<leftarrow> parseFrame frame spare (pa_appid a);
                  Some (if \<not> pf_ok p then s else noteFrame now' ''ping'' now s) })"

inductive ping_moves :: "ping_args \<Rightarrow> ping \<Rightarrow> ping \<Rightarrow> bool" for a where
  sent: "pg_at g = Sending \<Longrightarrow> int (pg_i g) < pa_count a \<Longrightarrow> ping_frame a now (pg_i g) = Some f
    \<Longrightarrow> ping_moves a g (g\<lparr>pg_i := pg_i g + 1, pg_out := pg_out g @ [Sent f, Slept (pa_interval a)]\<rparr>)"
| refused: "pg_at g = Sending \<Longrightarrow> int (pg_i g) < pa_count a \<Longrightarrow> ping_frame a now (pg_i g) = Some f
    \<Longrightarrow> ping_moves a g (g\<lparr>pg_at := Ended (Exit 1)\<rparr>)"
| unbuilt: "pg_at g = Sending \<Longrightarrow> int (pg_i g) < pa_count a \<Longrightarrow> ping_frame a now (pg_i g) = None
    \<Longrightarrow> ping_moves a g (g\<lparr>pg_at := Ended Panics\<rparr>)"
| drain: "pg_at g = Sending \<Longrightarrow> \<not> int (pg_i g) < pa_count a
    \<Longrightarrow> ping_moves a g (g\<lparr>pg_at := Drained, pg_out := pg_out g @ [Slept 5000000000]\<rparr>)"
| close: "pg_at g = Drained \<Longrightarrow> ping_moves a g (g\<lparr>pg_at := Closed, pg_done := True\<rparr>)"
| reports: "pg_at g = Closed \<Longrightarrow> report ''ping'' (pg_stats g) = Some (lines, s)
    \<Longrightarrow> ping_moves a g (g\<lparr>pg_at := Reported, pg_stats := s, pg_lines := lines\<rparr>)"
| misreports: "pg_at g = Closed \<Longrightarrow> report ''ping'' (pg_stats g) = None \<Longrightarrow> ping_moves a g (g\<lparr>pg_at := Ended Panics\<rparr>)"
| returns: "pg_at g = Reported \<Longrightarrow> ping_moves a g (g\<lparr>pg_at := Ended Returns\<rparr>)"
| poll: "\<not> ping_over g \<Longrightarrow> pg_rx g = Polling \<Longrightarrow> ping_moves a g (g\<lparr>pg_rx := (if pg_done g then Stopped else Reading)\<rparr>)"
| echo: "\<not> ping_over g \<Longrightarrow> pg_rx g = Reading \<Longrightarrow> ping_echo a r now now' (pg_stats g) = Some s
    \<Longrightarrow> ping_moves a g (g\<lparr>pg_rx := Polling, pg_stats := s\<rparr>)"
| bad_echo: "\<not> ping_over g \<Longrightarrow> pg_rx g = Reading \<Longrightarrow> ping_echo a r now now' (pg_stats g) = None
    \<Longrightarrow> ping_moves a g (g\<lparr>pg_at := Ended Panics\<rparr>)"

inductive ping_reaches :: "ping_args \<Rightarrow> ping \<Rightarrow> bool" for a where
  start: "ping_reaches a ping_start"
| move: "ping_reaches a g \<Longrightarrow> ping_moves a g g' \<Longrightarrow> ping_reaches a g'"

section \<open>The process\<close>

text \<open>\<open>net.Interfaces\<close> is an argument; an address prints as hex octets with colons between them.\<close>

definition listDevices :: "(string \<times> bytes) list option \<Rightarrow> tg_end \<times> bytes list" where
  "listDevices ifaces =
     (case ifaces of
        None \<Rightarrow> (Exit 1, [])
      | Some is \<Rightarrow> (Returns, map (\<lambda>(name, hw). line (name @ [char_of (9 :: nat)] @ join '':'' (map hex02 hw))) is))"

text \<open>The flags; the interval stands for \<open>--rate\<close>, whose quotient is a \<open>float64\<close>.\<close>

record tg_flags =
  fl_mode :: string
  fl_appid :: nat
  fl_count :: int
  fl_interval :: int
  fl_vid :: int
  fl_pcp :: int
  fl_burst :: bool
  fl_loop :: bool
  fl_et :: string
  fl_mcast :: string
  fl_src :: string
  fl_list :: bool

definition default_flags :: tg_flags where
  "default_flags = \<lparr>fl_mode = ''ping'', fl_appid = 0x1001, fl_count = 100, fl_interval = 10000000, fl_vid = -1, fl_pcp = 4,
     fl_burst = False, fl_loop = False, fl_et = ''goose'', fl_mcast = '''', fl_src = ''02:00:00:00:00:01'', fl_list = False\<rparr>"

datatype tg_run = RunSend send_args int | RunRecv u16 bool | RunPing ping_args

definition tg_main :: "(string \<times> bytes) list option \<Rightarrow> tg_flags \<Rightarrow> (tg_end \<times> bytes list) + tg_run" where
  "tg_main ifaces fl =
     (if fl_list fl
      then (case listDevices ifaces of (Returns, out) \<Rightarrow> Inl (Exit 0, out) | (x, out) \<Rightarrow> Inl (x, out))
      else case main_args (fl_mode fl) (fl_et fl) (fl_mcast fl) (fl_src fl) (fl_appid fl) of
          Inl _ \<Rightarrow> Inl (Exit 1, [])
        | Inr (mode, et, dst, src, appid) \<Rightarrow>
          Inr (case mode of
                 ModeSend \<Rightarrow> RunSend \<lparr>sa_dst = dst, sa_src = src, sa_appid = appid, sa_vid = fl_vid fl, sa_pcp = fl_pcp fl,
                     sa_burst = fl_burst fl, sa_loop = fl_loop fl, sa_et = et, sa_interval = fl_interval fl\<rparr> (fl_count fl)
               | ModeRecv \<Rightarrow> RunRecv appid (fl_loop fl)
               | ModePing \<Rightarrow> RunPing \<lparr>pa_dst = dst, pa_src = src, pa_appid = appid, pa_count = fl_count fl,
                     pa_vid = fl_vid fl, pa_pcp = fl_pcp fl, pa_interval = fl_interval fl\<rparr>))"

section \<open>What the loop of \<open>recv\<close> prints does not change what it counts\<close>

lemma recv_run_counts:
  "fst (recv_run version loop appid turns t0 s out) = fst (recv loop appid turns s)
    \<and> fst (snd (recv_run version loop appid turns t0 s out)) = snd (recv loop appid turns s)"
proof (induction turns arbitrary: s t0 out)
  case (Cons t ts)
  show ?case
  proof (cases "rt_recv t")
    case (Some r)
    obtain frame spare where r: "r = (frame, spare)" by (cases r)
    show ?thesis
      using Some r Cons.IH by (cases loop; cases "parseFrame frame spare appid") (simp_all add: recv_frame_def Let_def)
  qed simp
qed simp

lemma recv_snoc:
  assumes "recv loop appid turns s = (None, r)"
  shows "recv loop appid (turns @ [d]) s = recv loop appid [d] r"
  using assms
proof (induction loop appid turns s rule: recv.induct)
  case (2 loop appid t ts s)
  then show ?case by (auto split: if_splits option.splits prod.splits)
qed simp

lemma recv_latencies: "length (st_latency (snd (recv loop appid turns s))) \<le> length (st_latency s) + length turns"
proof (induction loop appid turns s rule: recv.induct)
  case (2 loop appid t ts s)
  have "length (st_latency s') \<le> Suc (length (st_latency s))" if "recv_frame appid now f spare s = Some s'" for now f spare s'
    using that by (auto simp: recv_frame_def noteTagged_def noteFrame_def Let_def split: if_splits bind_splits)
  then show ?case using 2 by (fastforce split: option.splits prod.splits)
qed simp

text \<open>A subscriber that has reached its deadline reports and exits with status 0.\<close>

lemma recv_mode_reports:
  assumes "openSocket A K ifc ks = (Inr sock, ks')" and "recv False appid turns no_stats = (None, r)" and "rt_expired d"
    and "length turns \<le> 2 ^ 48"
  shows "\<exists>out. recv_mode version A K ifc appid dur False t0 (turns @ [d]) ks = (Exit 0, out, ks') \<and> line (''recv: '' @ partial r) \<in> set out"
proof -
  define X where "X = recv_run version False appid (turns @ [d]) t0 no_stats
    [listening ifc appid False dur, tui_Start version (lit ''subscriber'') (lit ifc) appid]"
  have "recv False appid (turns @ [d]) no_stats = (Some Done, r)" using recv_snoc[OF assms(2)] assms(3) by simp
  then have X: "fst X = Some Done" "fst (snd X) = r"
    using recv_run_counts[of version False appid "turns @ [d]" t0 no_stats] unfolding X_def by simp_all
  have "length (st_latency r) \<le> 2 ^ 48"
    using recv_latencies[of False appid turns no_stats] assms(2,4) by (simp add: no_stats_def)
  then have "\<exists>lines s'. report ''recv'' r = Some (lines, s')"
    using report_percentiles_some[of r "''recv''"] by blast
  then obtain lines s' where l: "report ''recv'' r = Some (lines, s')" by blast
  then obtain rest where "lines = (''recv'' @ '': '' @ partial r) # rest" by (rule report_SomeE)
  then have "line (''recv: '' @ partial r) \<in> set (map line lines)" by simp
  moreover have "recv_mode version A K ifc appid dur False t0 (turns @ [d]) ks = (Exit 0, snd (snd X) @ map line lines, ks')"
    using assms(1) X l unfolding recv_mode_def X_def[symmetric]
    by (cases X) (simp add: ls_SetRecvTimeout_def Let_def X_def[symmetric])
  ultimately show ?thesis by auto
qed

section \<open>A signal stops the publisher\<close>

text \<open>A sender with \<open>k\<close> frames to send before its next poll, which is not after poll number \<open>j\<close>.\<close>

definition paced :: "nat \<Rightarrow> nat \<Rightarrow> sender \<Rightarrow> bool" where
  "paced j k s \<longleftrightarrow> length (frames_out (sd_out s)) + k \<le> sd_polls s \<and> sd_polls s \<le> j"

lemma paced_frame: "paced j 1 s \<Longrightarrow> paced j 0 (snd (send_frame io a s))"
  by (auto simp: paced_def send_frame_def Let_def frames_out_append split: option.split)

lemma paced_updates [simp]:
  "paced j k (do_sleep d s) = paced j k s" "paced j k (s\<lparr>sd_sqNum := q\<rparr>) = paced j k s" "paced j k (s\<lparr>sd_stNum := q\<rparr>) = paced j k s"
  by (simp_all add: paced_def do_sleep_def frames_out_append)

text \<open>What a part of the loop leaves: it goes on and keeps the pace, or the program ends with at most \<open>j\<close>
  frames sent.\<close>

definition stops :: "nat \<Rightarrow> tg_exit option \<times> sender \<Rightarrow> bool" where
  "stops j r \<longleftrightarrow> length (frames_out (sd_out (snd r))) \<le> j \<and> (fst r = None \<longrightarrow> paced j 0 (snd r))"

lemma poll_paced:
  assumes "io_stop io = stopChan (Some j)" and "paced j 0 s"
  obtains (stopped) s' where "poll_stop io s = (True, s')" "length (frames_out (sd_out s')) \<le> j"
  | (going) s' where "poll_stop io s = (False, s')" "paced j 1 s'"
  using assms by (cases "j \<le> sd_polls s") (auto simp: poll_stop_def stopChan_def paced_def)

lemma frame_stops:
  assumes "paced j 1 s"
  obtains x s' where "send_frame io a s = (x, s')" "paced j 0 s'" "length (frames_out (sd_out s')) \<le> j"
proof (cases "send_frame io a s")
  case (Pair x s')
  then have "paced j 0 s'" using paced_frame[OF assms, of io a] by simp
  then show thesis using that Pair by (simp add: paced_def)
qed

lemma burst_stops:
  assumes "io_stop io = stopChan (Some j)"
  shows "paced j 0 s \<Longrightarrow> stops j (burst_loop io a k d s)"
proof (induction k arbitrary: d s)
  case (Suc k)
  from assms Suc.prems show ?case
  proof (cases rule: poll_paced)
    case (going s1)
    then have "paced j 1 ((do_sleep d s1)\<lparr>sd_sqNum := sd_sqNum s1 + 1\<rparr>)" by simp
    then obtain x s2 where "send_frame io a ((do_sleep d s1)\<lparr>sd_sqNum := sd_sqNum s1 + 1\<rparr>) = (x, s2)"
      "paced j 0 s2" "length (frames_out (sd_out s2)) \<le> j" by (rule frame_stops)
    then show ?thesis using going Suc.IH[of s2 "2 * d"] by (cases x) (simp_all add: stops_def)
  qed (simp add: stops_def)
qed (simp add: stops_def paced_def)

lemma event_stops:
  assumes "io_stop io = stopChan (Some j)" and "paced j 1 s"
  shows "stops j (send_event io a s)"
proof -
  have "paced j 1 (s\<lparr>sd_stNum := sd_stNum s + 1, sd_sqNum := 1\<rparr>)" using assms(2) by (simp add: paced_def)
  then obtain x s1 where f: "send_frame io a (s\<lparr>sd_stNum := sd_stNum s + 1, sd_sqNum := 1\<rparr>) = (x, s1)"
    "paced j 0 s1" "length (frames_out (sd_out s1)) \<le> j" by (rule frame_stops)
  obtain y s2 where b: "burst_loop io a 3 2000000 s1 = (y, s2)" by (cases "burst_loop io a 3 2000000 s1")
  then have "stops j (y, s2)" using burst_stops[OF assms(1) f(2), of a 3 2000000] by simp
  then show ?thesis
    using f b by (cases x; cases y) (simp_all add: send_event_def stops_def do_sleep_def frames_out_append paced_def)
qed

lemma loop_stops:
  assumes "io_stop io = stopChan (Some j)"
  shows "paced j 0 s \<Longrightarrow> length (frames_out (sd_out (snd (send_loop io a c s)))) \<le> j"
proof (induction c arbitrary: s)
  case (Suc c)
  from assms Suc.prems show ?case
  proof (cases rule: poll_paced)
    case (going s1)
    obtain x s2 where e: "send_event io a s1 = (x, s2)" by (cases "send_event io a s1")
    then have "stops j (x, s2)" using event_stops[OF assms going(2), of a] by simp
    then show ?thesis using going e Suc.IH[of s2] by (cases x) (simp_all add: stops_def)
  qed simp
qed (simp add: paced_def)

section \<open>Echoes\<close>

definition echoed :: "stats \<Rightarrow> bool" where
  "echoed s \<longleftrightarrow> (\<exists>n. counted (replicate n ''ping'') s)"

lemma echoed_no_stats: "echoed no_stats"
  using counted_no_stats by (auto simp: echoed_def intro: exI[of _ 0])

lemma echoed_noteFrame: "echoed s \<Longrightarrow> echoed (noteFrame now ''ping'' t s)"
  unfolding echoed_def
proof (erule exE)
  fix n
  assume "counted (replicate n ''ping'') s"
  then have "counted (replicate n ''ping'' @ [''ping'']) (noteFrame now ''ping'' t s)"
    by (auto simp: counted_def noteFrame_counts card_insert_if)
  then show "\<exists>n. counted (replicate n ''ping'') (noteFrame now ''ping'' t s)"
    by (metis replicate_Suc replicate_append_same)
qed

lemma echoed_echo: "echoed s \<Longrightarrow> ping_echo a r now now' s = Some s' \<Longrightarrow> echoed s'"
  by (auto simp: ping_echo_def echoed_noteFrame split: option.splits if_splits bind_splits)

lemma echoed_report:
  assumes "echoed s" and "report label s = Some (lines, s')"
  shows "echoed s'" and "hd lines = label @ '': '' @ partial s"
proof -
  obtain rest l where r: "lines = (label @ '': '' @ partial s) # rest" "s' = s\<lparr>st_latency := l\<rparr>"
    using assms(2) by (rule report_SomeE)
  have "seen_key (s\<lparr>st_latency := l\<rparr>) = seen_key s" by (simp add: seen_key_def fun_eq_iff)
  then show "echoed s'" using assms(1) r(2) by (simp add: echoed_def counted_def)
  show "hd lines = label @ '': '' @ partial s" by (simp only: r(1) list.sel)
qed

lemma echoed_counts:
  "echoed s \<Longrightarrow> 0 \<le> st_total s \<and> st_unique s = min 1 (st_total s) \<and> st_dupes s = st_total s - st_unique s"
proof -
  assume "echoed s"
  then obtain n where n: "st_total s = int n" "st_unique s = int (card (set (replicate n ''ping'')))"
    "st_dupes s = int n - int (card (set (replicate n ''ping'')))"
    by (auto simp: echoed_def counted_def)
  have "card (set (replicate n ''ping'')) = min 1 n" by (simp add: set_replicate_conv_if)
  then show ?thesis unfolding n by simp
qed

text \<open>The frames a ping has sent so far, and what its report says.\<close>

definition ping_inv :: "ping_args \<Rightarrow> ping \<Rightarrow> bool" where
  "ping_inv a g \<longleftrightarrow> length (frames_out (pg_out g)) = pg_i g \<and> pg_i g \<le> nat (pa_count a)
     \<and> (\<forall>i < pg_i g. \<exists>now. ping_frame a now i = Some (frames_out (pg_out g) ! i))
     \<and> (pg_at g \<in> {Drained, Closed, Reported, Ended Returns} \<longrightarrow> pg_i g = nat (pa_count a))
     \<and> echoed (pg_stats g)
     \<and> (pg_at g \<in> {Reported, Ended Returns} \<longrightarrow> (\<exists>s. echoed s \<and> pg_lines g \<noteq> [] \<and> hd (pg_lines g) = ''ping: '' @ partial s))"

lemma ping_inv_start: "ping_inv a ping_start"
  by (simp add: ping_inv_def ping_start_def echoed_no_stats)

lemma ping_inv_move: "ping_moves a g g' \<Longrightarrow> ping_inv a g \<Longrightarrow> ping_inv a g'"
proof (induction rule: ping_moves.induct)
  case (sent g now f)
  then show ?case
    by (auto simp: ping_inv_def frames_out_append nth_append less_Suc_eq)
next
  case (reports g lines s)
  then have "lines \<noteq> []" by (auto elim: report_SomeE)
  then show ?case using reports echoed_report[of "pg_stats g" "''ping''" lines s] by (auto simp: ping_inv_def)
next
  case (echo g r now now' s)
  then show ?case using echoed_echo by (auto simp: ping_inv_def)
qed (auto simp: ping_inv_def frames_out_append)

section \<open>Properties\<close>

text \<open>
  C20. Ctrl+C stops the publisher, in a burst, between events and with \<open>--loop\<close>: when the signal comes before poll
  number \<open>j\<close> of the stop channel, at most \<open>j\<close> frames are sent in all, and the mode ends; the socket is closed
  unless a send failed.
\<close>

theorem send_stops_on_signal:
  assumes "io_stop io = stopChan (Some j)" and "send_mode A K ifc io a cnt ks = (x, out, ks')"
  shows "length (frames_out out) \<le> j \<and> x \<noteq> Runs
    \<and> (\<forall>sock ks1. openSocket A K ifc ks = (Inr sock, ks1) \<and> x \<noteq> Exit 1 \<longrightarrow> ks' = ls_Close sock ks1)"
proof -
  let ?s0 = "\<lparr>sd_stNum = 1, sd_sqNum = 1, sd_sent = 0, sd_polls = 0, sd_out = []\<rparr>"
  have "paced j 0 ?s0" by (simp add: paced_def)
  from loop_stops[OF assms(1) this] have "length (frames_out (sd_out (snd (send io a cnt)))) \<le> j"
    by (simp add: send_def Let_def)
  then show ?thesis
    using assms(2) by (auto simp: send_mode_def split: prod.splits sum.splits tg_exit.splits)
qed

theorem send_stops_on_signal_witness:
  "\<exists>x out ks. send_mode ex_abi ex_kernel ''eth0'' (ex_io\<lparr>io_stop := stopChan (Some 2)\<rparr>) ((ex_send etGOOSE)\<lparr>sa_loop := True\<rparr>) 1 ex_kstate
      = (x, out, ks) \<and> length (frames_out out) \<le> 2 \<and> x \<noteq> Runs"
proof -
  let ?io = "ex_io\<lparr>io_stop := stopChan (Some 2)\<rparr>" and ?a = "(ex_send etGOOSE)\<lparr>sa_loop := True\<rparr>"
  obtain x out ks where m: "send_mode ex_abi ex_kernel ''eth0'' ?io ?a 1 ex_kstate = (x, out, ks)" by (metis prod_cases3)
  have "io_stop ?io = stopChan (Some 2)" by simp
  from send_stops_on_signal[OF this m] m show ?thesis by blast
qed



end
