(* ===== verification/Substation.thy ===== *)
theory Substation
  imports TrafficMain PRPNetwork
begin

text \<open>
  The whole system at work: a publisher (\<open>trafficgen send\<close>) behind one PRP RedBox, two LANs that lose,
  repeat and reorder, a second RedBox, and behind it a subscriber (\<open>trafficgen recv\<close>) that counts.
\<close>

unbundle bit_operations_syntax

section \<open>GOOSE frames are frames PRP carries\<close>

lemma assemble_hdr:
  obtains h r where "assembleFrame dst src appid apdu vid pcp et = h @ put16 et @ r" and "eth_hdr h"
    and "length h = (if 0 \<le> vid then 16 else 12)" and "length r = length apdu + 8"
proof (cases "0 \<le> vid")
  case True
  let ?tci = "push_bit 13 (word_of_int (pcp AND 0x07)) OR word_of_int (vid AND 0x0FFF) :: u16"
  have "[0x81, 0x00] = put16 0x8100" by (simp add: put16_def)
  then have "assembleFrame dst src appid apdu vid pcp et = (copy6 dst @ copy6 src @ put16 0x8100 @ put16 ?tci)
      @ put16 et @ (put16 appid @ put16 (of_nat (length apdu + 8)) @ put16 0 @ put16 0 @ apdu)"
    using True by (simp add: assembleFrame_def Let_def)
  then show thesis
    by (rule that) (use True get16_put16_append[of "copy6 dst @ copy6 src" 12 "0x8100" "put16 ?tci"] in
      \<open>simp_all add: eth_hdr_def is_tpid_def\<close>)
next
  case False
  then have "assembleFrame dst src appid apdu vid pcp et = (copy6 dst @ copy6 src)
      @ put16 et @ (put16 appid @ put16 (of_nat (length apdu + 8)) @ put16 0 @ put16 0 @ apdu)"
    by (simp add: assembleFrame_def Let_def)
  then show thesis by (rule that) (use False in \<open>simp_all add: eth_hdr_def\<close>)
qed

lemma assembled_frame:
  assumes "46 \<le> length apdu" and "length apdu \<le> 300"
  shows "prp_frame (assembleFrame dst src appid apdu vid pcp etGOOSE)"
    and "rct_padded (assembleFrame dst src appid apdu vid pcp etGOOSE) = assembleFrame dst src appid apdu vid pcp etGOOSE"
proof -
  obtain h r where f: "assembleFrame dst src appid apdu vid pcp etGOOSE = h @ put16 etGOOSE @ r" "eth_hdr h"
    and len: "length h = (if 0 \<le> vid then 16 else 12)" "length r = length apdu + 8"
    by (rule assemble_hdr)
  have et: "\<not> is_tpid etGOOSE" by (simp add: is_tpid_def etGOOSE_def)
  note v = IsVLANFrame_hdr[OF f(2) et, of r]
  show pad: "rct_padded (assembleFrame dst src appid apdu vid pcp etGOOSE) = assembleFrame dst src appid apdu vid pcp etGOOSE"
    using v len assms by (simp add: f rct_padded_def rct_minSize_def vlanEthMinLen_def ethMinLen_def)
  show "prp_frame (assembleFrame dst src appid apdu vid pcp etGOOSE)"
    using GetEtherType_hdr[OF f(2) et, of r] pad len assms unfolding prp_frame_def rct_lsdu_def f(1)
    by (simp add: RCTLen_def) (simp add: etGOOSE_def)
qed

lemma own_frame_assemble:
  "own_frame n (assembleFrame dst src appid apdu vid pcp et) \<longleftrightarrow> n_mac n = Some (copy6 src)"
  by (auto simp: own_frame_def srcMACBytes_def assembleFrame_def Let_def gslice_def split: option.splits)

section \<open>The subscriber\<close>

text \<open>What the subscriber gets, named by the frames of the publisher.\<close>

definition traced :: "nat list \<Rightarrow> (nat option \<times> time \<times> 'r) list \<Rightarrow> (nat option \<times> time \<times> 'r) list" where
  "traced order = map (\<lambda>(x, y). (map_option ((!) order) x, y))"

lemma traced_arrivals:
  assumes "arrivals delivers timed_out (map ((!) fs) order) rs" and "\<forall>i \<in> set order. i < length fs"
  shows "arrivals delivers timed_out fs (traced order rs)"
  using assms by (force simp: arrivals_def traced_def split: option.splits)

lemma traced_arrived: "arrived (traced order rs) = map ((!) order) (arrived rs)"
  by (induction rs) (auto simp: traced_def arrived_def map_filter_simps split: option.split)

lemma traced_snd [simp]: "map snd (traced order rs) = map snd rs"
  by (simp add: traced_def case_prod_beta)

section \<open>Properties\<close>

text \<open>
  C2. Redundancy that the applications do not see: a publisher sends \<open>cnt\<close> GOOSE events behind a PRP RedBox
  \<open>a\<close>. The LANs deliver any sequence \<open>as\<close> of the copies to the RedBox \<open>b\<close>, losing, repeating and
  reordering, within the duplicate window. Behind \<open>b\<close> a subscriber process takes what comes out, from a
  Linux socket, between any number of time-outs, until its deadline. It exits with status 0 and has
  printed that it got every frame of which some copy made it through either LAN, and no duplicate.
\<close>

theorem goose_over_prp:
  assumes pub: "io_fine io" "sa_et p = etGOOSE" "\<not> sa_loop p" "0 \<le> cnt" "cnt \<le> 65536"
      "openSocket Ap Kp ifp kp = (Inr sp, kp')" "frames_of xs = frames_out (fst (snd (send_mode Ap Kp ifp io p cnt kp)))"
    and tx: "\<forall>x \<in> set xs. san_ready a x" "run node_step xs a = Some a'" "sent PLanA a = []" "sent PLanB a = []"
    and rx: "\<not> IsHSRNode (n_Config b)" "bound PInterlink b" "ForwardAll (n_Config b)" "fresh_table b"
      "n_mac b \<noteq> Some (copy6 (sa_src p))" "sent PInterlink b = []"
    and lan: "\<forall>(e, i, lanB) \<in> set as. i < length xs \<and> map_range (env_rng e) \<and> (\<forall>p f. env_wr e p f)"
      "timely (pair_of a xs) (ms_dur (entryForgetMs (n_Config b))) as"
      "rx_room b (offered prp_pair rx_stamp (quiet b) (map (arrival a') as))"
    and sub: "want = 0 \<or> want = sa_appid p" "openSocket A K ifc ks = (Inr sock, ks')"
  shows "\<exists>b'. run node_step (map (arrival a') as) b = Some b'
    \<and> length (sent PInterlink b') = card ((\<lambda>(e, i, lanB). i) ` set as)
    \<and> (\<forall>rs d. arrivals (linux_delivers A) linux_timeout (sent PInterlink b') rs \<and> arrived rs = [0..<length (sent PInterlink b')]
        \<and> rt_expired d \<and> length rs \<le> 2 ^ 48 \<longrightarrow>
      (\<exists>out k. recv_mode version A K ifc want dur False t0 (capture (ls_Recv A) (map snd rs) (replicate 2048 0) @ [d]) ks = (Exit 0, out, ks')
        \<and> k = show_int (int (card ((\<lambda>(e, i, lanB). i) ` set as)))
        \<and> line (''recv: total='' @ k @ '' unique='' @ k @ '' dupes=0'') \<in> set out))"
proof -
  let ?fs = "frames_out (sd_out (snd (send io p cnt)))"
  have "fst (send io p cnt) = Done" using goose_stream_counted[OF pub(1-5) sub(1), of "[]"] by auto
  then have frames: "frames_of xs = ?fs"
    using pub(6,7) by (cases "send io p cnt") (simp add: send_mode_def)
  have frame: "prp_frame f" "rct_padded f = f" "\<not> own_frame b f" if f_in: "f \<in> set ?fs" for f
  proof -
    obtain apdu where f: "f = assembleFrame (sa_dst p) (sa_src p) (sa_appid p) apdu (sa_vid p) (sa_pcp p) etGOOSE"
      "46 \<le> length apdu" "length apdu \<le> 300"
      by (rule sent_goose_frames[OF pub(1-3) f_in])
    show "prp_frame f" "rct_padded f = f" unfolding f(1) using f(2,3) by (rule assembled_frame)+
    show "\<not> own_frame b f" unfolding f(1) own_frame_assemble using rx(5) .
  qed
  have "ev_frame (snd x) \<in> set ?fs" if "x \<in> set xs" for x
    unfolding frames[symmetric] using that by simp
  then have "\<forall>x \<in> set xs. san_ready a x \<and> prp_frame (ev_frame (snd x)) \<and> \<not> own_frame b (ev_frame (snd x))"
    using tx(1) frame by blast
  from prp_first_arrivals[OF this tx(2-4) rx(1-4) lan] rx(6) obtain b' where
    b': "run node_step (map (arrival a') as) b = Some b'"
    "sent PInterlink b' = map (\<lambda>i. rct_padded (?fs ! i)) (first_occ {} (map (\<lambda>(e, i, lanB). i) as))"
    unfolding frames by auto
  define order where "order = first_occ {} (map (\<lambda>(e, i, lanB). i) as)"
  have order: "distinct order" "set order = (\<lambda>(e, i, lanB). i) ` set as"
    by (simp_all add: order_def distinct_first_occ set_first_occ)
  have len: "length xs = length ?fs" using arg_cong[OF frames, of length] by simp
  then have in_range: "\<forall>i \<in> set order. i < length ?fs" using order(2) lan(1) by auto
  have out: "sent PInterlink b' = map ((!) ?fs) order"
    using in_range frame(2) unfolding b'(2) order_def[symmetric] by simp
  have "\<exists>out. recv_mode version A K ifc want dur False t0 (capture (ls_Recv A) (map snd rs) (replicate 2048 0) @ [d]) ks = (Exit 0, out, ks')
      \<and> line (''recv: total='' @ show_int (int (card (set order))) @ '' unique='' @ show_int (int (card (set order))) @ '' dupes=0'') \<in> set out"
    if rs: "arrivals (linux_delivers A) linux_timeout (sent PInterlink b') rs" "arrived rs = [0..<length (sent PInterlink b')]"
      and d: "rt_expired d" "length rs \<le> 2 ^ 48" for rs d
  proof -
    have "arrived (traced order rs) = order" unfolding traced_arrived rs(2) out by (simp add: map_nth)
    moreover have "arrivals (linux_delivers A) linux_timeout ?fs (traced order rs)"
      using traced_arrivals[OF rs(1)[unfolded out] in_range] .
    ultimately obtain r where r: "recv False want (capture (ls_Recv A) (map snd rs) (replicate 2048 0)) no_stats = (None, r)"
      "st_total r = int (card (set order))" "st_unique r = int (card (set order))" "st_dupes r = 0"
      using linux.stream_counted[OF pub(1-5) sub(1), of A "traced order rs"] order(1) by (auto simp: distinct_card)
    have show_zero: "show_int 0 = ''0''" by code_simp
    have "length (capture (ls_Recv A) (map snd rs) (replicate 2048 0)) \<le> 2 ^ 48"
      using d(2) by (simp add: capture_def)
    moreover have "''recv: '' @ partial r
        = ''recv: total='' @ show_int (int (card (set order))) @ '' unique='' @ show_int (int (card (set order))) @ '' dupes=0''"
      unfolding partial_def r(2-4) show_zero by simp
    ultimately show ?thesis using recv_mode_reports[OF sub(2) r(1) d(1)] by (simp only:)
  qed
  moreover have "length (sent PInterlink b') = card (set order)" using out order(1) by (simp add: distinct_card)
  ultimately show ?thesis using b'(1) unfolding order(2) by blast
qed

theorem goose_over_prp_witness:
  "\<exists>a' b' out ks. run node_step (map (\<lambda>f. (ex_env 0, mk_event ''interlink'' f))
        (frames_out (fst (snd (send_mode ex_abi ex_kernel ''eth7'' ex_io (ex_send etGOOSE) 1 ex_kstate))))) (ex_node ''prp-san'' 1) = Some a'
    \<and> run node_step (map (arrival a') [(ex_env 5, 3, True), (ex_env 6, 0, False), (ex_env 7, 3, False)]) (ex_node ''prp-san'' 2) = Some b'
    \<and> recv_mode Version ex_abi ex_kernel ''eth8'' 0x1001 15000000000 False 0 (capture (ls_Recv ex_abi)
        [(1, Inr \<lparr>rc_pkt = sent PInterlink b' ! 0, rc_oobn = 0, rc_msgs = None\<rparr>), (2, Inl EAGAIN),
         (3, Inr \<lparr>rc_pkt = sent PInterlink b' ! 1, rc_oobn = 0, rc_msgs = None\<rparr>)] (replicate 2048 0)
        @ [\<lparr>rt_expired = True, rt_stop = False, rt_now = 4, rt_recv = None\<rparr>]) ex_kstate = (Exit 0, out, ks)
    \<and> line ''recv: total=2 unique=2 dupes=0'' \<in> set out"
proof -
  let ?p = "ex_send etGOOSE" and ?a = "ex_node ''prp-san'' 1" and ?b = "ex_node ''prp-san'' 2"
  let ?as = "[(ex_env 5, 3 :: nat, True), (ex_env 6, 0, False), (ex_env 7, 3, False)]"
  define fs where "fs = frames_out (fst (snd (send_mode ex_abi ex_kernel ''eth7'' ex_io ?p 1 ex_kstate)))"
  define xs where "xs = map (\<lambda>f. (ex_env 0, mk_event ''interlink'' f)) fs"
  have p: "sa_et ?p = etGOOSE" "\<not> sa_loop ?p" "sa_appid ?p = 0x1001" "sa_burst ?p" by (simp_all add: ex_send_def)
  have fr: "frames_of xs = fs" by (simp add: xs_def comp_def)
  obtain sp kp where pub: "openSocket ex_abi ex_kernel ''eth7'' ex_kstate = (Inr sp, kp)"
    by (simp add: openSocket_def ex_kernel_def Let_def)
  obtain sock ks where sub: "openSocket ex_abi ex_kernel ''eth8'' ex_kstate = (Inr sock, ks)"
    by (simp add: openSocket_def ex_kernel_def Let_def)
  obtain s where s: "send ex_io ?p 1 = (Done, s)" "length (frames_out (sd_out s)) = 4"
    using goose_stream_counted[OF ex_io_fine p(1,2), of 1 "0x1001" "[]"] p by auto
  then have fs: "fs = frames_out (sd_out (snd (send ex_io ?p 1)))" by (simp add: fs_def send_mode_def pub)
  have len: "length xs = 4" using s by (simp add: xs_def fs)
  have "14 \<le> length f" if f: "f \<in> set fs" for f
    by (rule sent_goose_frames[OF ex_io_fine p(1,2) f[unfolded fs]]) (simp add: assembleFrame_def Let_def)
  then have tx: "\<forall>x \<in> set xs. san_ready ?a x" using ex_san_ready by (auto simp: xs_def)
  obtain a' where a': "run node_step xs ?a = Some a'" using prp_sends[OF tx] by blast
  have lan: "timely (pair_of ?a xs) (ms_dur (entryForgetMs (n_Config ?b))) ?as"
    by (rule timely_short) (simp_all add: len)
  have room: "rx_room ?b (offered prp_pair rx_stamp (quiet ?b) (map (arrival a') ?as))"
    by (rule ex_room) simp
  have mac: "n_mac ?b \<noteq> Some (copy6 (sa_src ?p))" by (simp add: ex_send_def copy6_def)
  have as: "\<forall>(e, i, lanB) \<in> set ?as. i < length xs \<and> map_range (env_rng e) \<and> (\<forall>p f. env_wr e p f)" by (simp add: len)
  have two: "card ((\<lambda>(e, i, lanB). i) ` set ?as) = 2" by (simp add: card_insert_if)
  have rx: "\<not> IsHSRNode (n_Config ?b)" "bound PInterlink ?b" "ForwardAll (n_Config ?b)" "fresh_table ?b" "sent PInterlink ?b = []"
    by (simp_all add: role_predicates)
  from goose_over_prp[OF ex_io_fine p(1,2) _ _ pub fr[unfolded fs_def] tx a' _ _ rx(1-4) mac rx(5) as lan room _ sub,
      of "0x1001" Version 15000000000 0] p(3) two
  obtain b' where b': "run node_step (map (arrival a') ?as) ?b = Some b'" "length (sent PInterlink b') = 2"
    "\<forall>rs d. arrivals (linux_delivers ex_abi) linux_timeout (sent PInterlink b') rs \<and> arrived rs = [0..<length (sent PInterlink b')]
        \<and> rt_expired d \<and> length rs \<le> 2 ^ 48 \<longrightarrow>
      (\<exists>out k. recv_mode Version ex_abi ex_kernel ''eth8'' 0x1001 15000000000 False 0
          (capture (ls_Recv ex_abi) (map snd rs) (replicate 2048 0) @ [d]) ex_kstate = (Exit 0, out, ks)
        \<and> k = show_int (int 2) \<and> line (''recv: total='' @ k @ '' unique='' @ k @ '' dupes=0'') \<in> set out)"
    by auto
  let ?P = "\<lambda>w. Inr \<lparr>rc_pkt = w, rc_oobn = 0, rc_msgs = None\<rparr> :: recv_error + recvd"
  let ?rs = "[(Some (0 :: nat), 1, ?P (sent PInterlink b' ! 0)), (None, 2, Inl EAGAIN), (Some 1, 3, ?P (sent PInterlink b' ! 1))]"
  let ?d = "\<lparr>rt_expired = True, rt_stop = False, rt_now = 4, rt_recv = None\<rparr>"
  have "arrivals (linux_delivers ex_abi) linux_timeout (sent PInterlink b') ?rs"
    using b'(2) by (simp add: arrivals_def linux_delivers_def linux_timeout_def inline_def)
  moreover have "arrived ?rs = [0..<length (sent PInterlink b')]" unfolding b'(2) by (simp add: upt_rec)
  ultimately obtain out where "recv_mode Version ex_abi ex_kernel ''eth8'' 0x1001 15000000000 False 0
      (capture (ls_Recv ex_abi) (map snd ?rs) (replicate 2048 0) @ [?d]) ex_kstate = (Exit 0, out, ks)"
    "line (''recv: total='' @ show_int (int 2) @ '' unique='' @ show_int (int 2) @ '' dupes=0'') \<in> set out"
    using b'(3)[rule_format, of ?rs ?d] by auto
  moreover have "show_int (int 2) = ''2''" by code_simp
  ultimately show ?thesis
    using a'[unfolded xs_def fs_def] b'(1)
    by (intro exI[of _ a'] exI[of _ b'] exI[of _ out] exI[of _ ks]) (simp only: list.map prod.sel simp_thms append.simps)
qed

end
