(* ===== verification/WinMemory.thy ===== *)
theory WinMemory
  imports WinSocket
begin

text \<open>
  The parts of \<open>cmd/trafficgen/socket_windows.go\<close> that read C memory through \<open>unsafe.Pointer\<close>: the list of
  devices of \<open>pcap_findalldevs\<close>, C strings and packet headers; and the loading of \<open>wpcap.dll\<close>.

  Memory maps 64-bit addresses to bytes; an address without a byte faults. The walks follow pointers as
  they find them, so that nothing bounds them: they are partial functions, and \<^const>\<open>None\<close> is a walk that
  faults or does not end. What the DLL answers is an argument.
\<close>

type_synonym addr = "64 word"
type_synonym mem = "addr \<Rightarrow> byte option"

definition load_bytes :: "mem \<Rightarrow> addr \<Rightarrow> nat \<Rightarrow> bytes option" where
  "load_bytes m p n = those (map (\<lambda>i. m (p + of_nat i)) [0..<n])"

text \<open>A little-endian number: \<open>*(*unsafe.Pointer)(p)\<close> and \<open>*(*uint32)(p)\<close>.\<close>

fun le_nat :: "bytes \<Rightarrow> nat" where
  "le_nat [] = 0"
| "le_nat (b # bs) = unat b + 256 * le_nat bs"

definition load_ptr :: "mem \<Rightarrow> addr \<Rightarrow> addr option" where
  "load_ptr m p = map_option (\<lambda>bs. of_nat (le_nat bs)) (load_bytes m p 8)"

definition load_uint32 :: "mem \<Rightarrow> addr \<Rightarrow> nat option" where
  "load_uint32 m p = map_option le_nat (load_bytes m p 4)"

section \<open>C strings\<close>

partial_function (option) ptrStr_loop :: "mem \<Rightarrow> addr \<Rightarrow> bytes \<Rightarrow> bytes option" where
  "ptrStr_loop m p b =
     (case m (p + of_nat (length b)) of
        None \<Rightarrow> None
      | Some c \<Rightarrow> if c = 0 then Some b else ptrStr_loop m p (b @ [c]))"

definition ptrStr :: "mem \<Rightarrow> addr \<Rightarrow> bytes option" where
  "ptrStr m p = (if p = 0 then Some [] else ptrStr_loop m p [])"

definition errstr :: "mem \<Rightarrow> addr \<Rightarrow> bytes option" where
  "errstr m r = (if r = 0 then Some (map of_char ''unknown pcap error'') else ptrStr m r)"

section \<open>The devices\<close>

partial_function (option) devices_loop :: "mem \<Rightarrow> addr \<Rightarrow> device list \<Rightarrow> device list option" where
  "devices_loop m p out =
     (if p = 0 then Some out
      else do { name \<leftarrow> load_ptr m (p + 8);
                desc \<leftarrow> load_ptr m (p + 16);
                n \<leftarrow> ptrStr m name;
                d \<leftarrow> (if desc \<noteq> 0 then ptrStr m desc else Some []);
                nxt \<leftarrow> load_ptr m p;
                devices_loop m nxt (out @ [\<lparr>d_name = n, d_description = d\<rparr>]) })"

text \<open>\<open>pcap_findalldevs\<close> fails with a message in its buffer (the process exits with it), or gives the first
  device. The second component has the pointers handed to \<open>pcap_freealldevs\<close>.\<close>

definition findDevices :: "mem \<Rightarrow> bytes + addr \<Rightarrow> ((bytes + device list) \<times> addr list) option" where
  "findDevices m res =
     (case res of
        Inl errbuf \<Rightarrow> Some (Inl (cStr errbuf), [])
      | Inr alldevs \<Rightarrow> do { out \<leftarrow> devices_loop m alldevs []; Some (Inr out, [alldevs]) })"

text \<open>What \<open>--list-devices\<close> prints, one line for each device.\<close>

definition win_listDevices :: "mem \<Rightarrow> bytes + addr \<Rightarrow> (bytes + bytes list) option" where
  "win_listDevices m res =
     do { (r, _) \<leftarrow> findDevices m res;
          Some (case r of Inl msg \<Rightarrow> Inl msg | Inr ds \<Rightarrow> Inr (map (\<lambda>d. d_name d @ [9] @ d_description d @ [10]) ds)) }"

text \<open>\<open>openSocket\<close> from the enumeration on.\<close>

datatype win_open_error = Enumerate bytes | Open open_error

definition win_open :: "mem \<Rightarrow> bytes + addr \<Rightarrow> (bytes \<Rightarrow> int) \<Rightarrow> bytes \<Rightarrow> ((win_open_error + windowsSocket) \<times> addr list) option" where
  "win_open m res pcap ifc =
     do { (r, freed) \<leftarrow> findDevices m res;
          Some (case r of
                  Inl msg \<Rightarrow> Inl (Enumerate msg)
                | Inr ds \<Rightarrow> (case win_openSocket pcap ds ifc of Inl e \<Rightarrow> Inl (Open e) | Inr s \<Rightarrow> Inr s), freed) }"

section \<open>Packets\<close>

text \<open>\<open>Recv\<close> with the header and the data where \<open>pcap_next_ex\<close> put them: the captured length is at offset 8 of
  the header.\<close>

definition ws_Recv_mem :: "mem \<Rightarrow> windowsSocket \<Rightarrow> int \<Rightarrow> addr \<Rightarrow> addr \<Rightarrow> bytes \<Rightarrow> ((win_error + nat) \<times> bytes) option" where
  "ws_Recv_mem m s r hdr data buf =
     (if ws_closed s then Some (Inl SocketClosed, buf)
      else if r = 1
      then do { caplen \<leftarrow> load_uint32 m (hdr + 8);
                let caplen = (if caplen > length buf then length buf else caplen);
                pkt \<leftarrow> load_bytes m data caplen;
                Some (Inr caplen, pkt @ drop caplen buf) }
      else if r = 0 then Some (Inr 0, buf)
      else Some (Inl PcapError, buf))"

section \<open>Loading \<open>wpcap.dll\<close>\<close>

text \<open>Handles and addresses are numbers; both errors end the process.\<close>

record wpcap =
  wp_dll :: nat
  wp_openLive :: addr
  wp_sendPkt :: addr
  wp_nextEx :: addr
  wp_findAll :: addr
  wp_freeAll :: addr
  wp_close :: addr
  wp_geterr :: addr

datatype load_error = NoDLL | MissingExport string

definition npcapDLL :: "(string \<Rightarrow> nat option) \<Rightarrow> nat option" where
  "npcapDLL LoadDLL = (case LoadDLL ''wpcap.dll'' of Some dll \<Rightarrow> Some dll | None \<Rightarrow> LoadDLL (''Npcap'' @ [CHR 0x5C] @ ''wpcap.dll''))"

definition loadWpcap :: "(string \<Rightarrow> nat option) \<Rightarrow> (nat \<Rightarrow> string \<Rightarrow> addr option) \<Rightarrow> load_error + wpcap" where
  "loadWpcap LoadDLL FindProc =
     (case npcapDLL LoadDLL of
        None \<Rightarrow> Inl NoDLL
      | Some dll \<Rightarrow>
        let proc = (\<lambda>name k. case FindProc dll name of None \<Rightarrow> Inl (MissingExport name) | Some p \<Rightarrow> k p)
        in proc ''pcap_open_live'' (\<lambda>openLive. proc ''pcap_sendpacket'' (\<lambda>sendPkt. proc ''pcap_next_ex'' (\<lambda>nextEx.
           proc ''pcap_findalldevs'' (\<lambda>findAll. proc ''pcap_freealldevs'' (\<lambda>freeAll. proc ''pcap_close'' (\<lambda>clos.
           proc ''pcap_geterr'' (\<lambda>geterr.
             Inr \<lparr>wp_dll = dll, wp_openLive = openLive, wp_sendPkt = sendPkt, wp_nextEx = nextEx, wp_findAll = findAll,
                  wp_freeAll = freeAll, wp_close = clos, wp_geterr = geterr\<rparr>))))))))"

section \<open>What the memory holds\<close>

text \<open>The zero-terminated string \<open>s\<close> at \<open>p\<close>, and a list of devices at \<open>p\<close>, linked by their first word.\<close>

definition string_at :: "mem \<Rightarrow> addr \<Rightarrow> bytes \<Rightarrow> bool" where
  "string_at m p s \<longleftrightarrow> (\<forall>i < length s. m (p + of_nat i) = Some (s ! i) \<and> s ! i \<noteq> 0) \<and> m (p + of_nat (length s)) = Some 0"

inductive devices_at :: "mem \<Rightarrow> addr \<Rightarrow> device list \<Rightarrow> bool" for m where
  none: "devices_at m 0 []"
| device: "p \<noteq> 0 \<Longrightarrow> load_ptr m (p + 8) = Some name \<Longrightarrow> load_ptr m (p + 16) = Some desc
    \<Longrightarrow> (if name = 0 then d_name d = [] else string_at m name (d_name d))
    \<Longrightarrow> (if desc = 0 then d_description d = [] else string_at m desc (d_description d))
    \<Longrightarrow> load_ptr m p = Some nxt \<Longrightarrow> devices_at m nxt ds \<Longrightarrow> devices_at m p (d # ds)"

lemma ptrStr_loop_string:
  assumes "string_at m p s" and "n \<le> length s"
  shows "ptrStr_loop m p (take n s) = Some s"
  using assms(2)
proof (induction n rule: inc_induct)
  case base
  then show ?case using assms(1) by (subst ptrStr_loop.simps) (simp add: string_at_def)
next
  case (step n)
  then have "m (p + of_nat n) = Some (s ! n)" "s ! n \<noteq> 0" using assms(1) by (simp_all add: string_at_def)
  then show ?case using step by (subst ptrStr_loop.simps) (simp add: take_Suc_conv_app_nth)
qed

lemma ptrStr_string: "(if p = 0 then s = [] else string_at m p s) \<Longrightarrow> ptrStr m p = Some s"
  using ptrStr_loop_string[of m p s 0] by (auto simp: ptrStr_def split: if_splits)

lemma devices_loop_list: "devices_at m p ds \<Longrightarrow> devices_loop m p out = Some (out @ ds)"
proof (induction arbitrary: out rule: devices_at.induct)
  case none
  then show ?case by (subst devices_loop.simps) simp
next
  case (device p name desc d nxt ds)
  have "(if desc \<noteq> 0 then ptrStr m desc else Some []) = Some (d_description d)"
    using device.hyps(5) ptrStr_string[of desc "d_description d" m] by (auto split: if_splits)
  then show ?case
    using device.hyps(1-3,6) device.IH[of "out @ [d]"] ptrStr_string[OF device.hyps(4)]
    by (cases d, subst devices_loop.simps) simp
qed

lemma those_map_Some: "those (map f xs) = Some ys \<longleftrightarrow> map f xs = map Some ys"
proof (induction xs arbitrary: ys)
  case (Cons x xs)
  then show ?case by (cases ys) (auto split: option.splits)
qed auto

lemma load_bytes_iff: "load_bytes m p n = Some bs \<longleftrightarrow> length bs = n \<and> (\<forall>i < n. m (p + of_nat i) = Some (bs ! i))"
  unfolding load_bytes_def those_map_Some by (auto simp: list_eq_iff_nth_eq)

section \<open>Properties\<close>

text \<open>
  C23. The walk over C memory ends, stays inside the list and reads what is there: when \<open>pcap_findalldevs\<close> gives a
  proper list of devices, \<open>openSocket\<close> opens the device its specification picks from that list, and the list is
  freed once.
\<close>

theorem win_open_devices:
  assumes "devices_at m alldevs ds"
  shows "win_open m (Inr alldevs) pcap ifc =
      Some (case resolveDevice ds ifc of
              Inl e \<Rightarrow> Inl (Open (Unresolved e))
            | Inr dev \<Rightarrow> if pcap (dev @ [0]) = 0 then Inl (Open (OpenLive dev))
                        else Inr \<lparr>ws_handle = pcap (dev @ [0]), ws_closed = False\<rparr>, [alldevs])"
  using devices_loop_list[OF assms, of "[]"]
  by (simp add: win_open_def findDevices_def win_openSocket_def Let_def split: sum.split)

text \<open>One device, without a description, whose name is the string \<open>a\<close>.\<close>

definition ex_mem :: mem where
  "ex_mem a = (if 0x1000 \<le> a \<and> a < 0x1018 then Some (if a = 0x1009 then 0x20 else 0)
     else if a = 0x2000 then Some 0x61 else if a = 0x2001 then Some 0 else None)"

theorem win_open_devices_witness:
  "win_open ex_mem (Inr 0x1000) (\<lambda>_. 7) [0x61] = Some (Inr \<lparr>ws_handle = 7, ws_closed = False\<rparr>, [0x1000])"
proof -
  let ?d = "\<lparr>d_name = [0x61], d_description = []\<rparr>"
  have "load_ptr ex_mem 0x1000 = Some 0" "load_ptr ex_mem (0x1000 + 8) = Some 0x2000" "load_ptr ex_mem (0x1000 + 16) = Some 0"
    by code_simp+
  moreover have "string_at ex_mem 0x2000 [0x61]" by (simp add: string_at_def ex_mem_def)
  ultimately have "devices_at ex_mem 0x1000 [?d]"
    by (intro devices_at.device[where name = "0x2000" and desc = 0 and nxt = 0] devices_at.none) simp_all
  moreover have "resolveDevice [?d] [0x61] = Inr [0x61]" by (simp add: resolveDevice_def)
  ultimately show ?thesis using win_open_devices[of ex_mem "0x1000" "[?d]" "\<lambda>_. 7" "[0x61]"] by simp
qed

text \<open>Receiving through the pointers of \<open>pcap_next_ex\<close> is receiving the packet they stand for.\<close>

lemma ws_Recv_packet:
  assumes "load_uint32 m (hdr + 8) = Some (length pkt)" and "load_bytes m data (length pkt) = Some pkt"
  shows "ws_Recv_mem m s r hdr data buf = Some (ws_Recv s r pkt buf)"
proof -
  have "load_bytes m data (min (length buf) (length pkt)) = Some (take (length buf) pkt)"
    using assms(2) by (auto simp: load_bytes_iff min_def)
  then show ?thesis
    using assms by (auto simp: ws_Recv_mem_def ws_Recv_def Let_def min_def)
qed

text \<open>The DLL is taken by its plain name first; every export has to be there.\<close>

lemma loadWpcap_exports:
  "loadWpcap LoadDLL FindProc = Inr w \<Longrightarrow> npcapDLL LoadDLL = Some (wp_dll w)
    \<and> FindProc (wp_dll w) ''pcap_findalldevs'' = Some (wp_findAll w) \<and> FindProc (wp_dll w) ''pcap_freealldevs'' = Some (wp_freeAll w)"
  by (auto simp: loadWpcap_def Let_def split: option.splits)

end
