(* ===== verification/Spec2Isabelle.thy ===== *)
theory Spec2Isabelle
  imports HSRCoupling NodePolicy Process Substation WinMemory
begin

text \<open>
  A verification library for prp-sim, a simulator of PRP/HSR redundancy boxes (IEC 62439-3) in Go, and of
  its IEC 61850 traffic generator.

  \<^bold>\<open>The program.\<close> The daemon \<open>prpd\<close> reads a configuration (\<open>internal/config\<close>), opens raw sockets on two
  redundancy ports and an interlink (\<open>internal/iface\<close>) and runs a node (\<open>internal/prp\<close>). Each port has a
  read loop that queues frames; one event loop takes them from the queue and handles them: it tags SAN
  frames with a redundancy trailer or an HSR tag (\<open>internal/engine\<close>), sends them twice, and on the
  other side accepts the first copy of each (source, sequence number) pair, which it records in a
  bounded table with expiry (\<open>internal/nodetable\<close>). Supervision frames (\<open>internal/supervision\<close>) tell
  peers that a node lives, or that it restarted. A timer cleans the tables, a ticker sends
  supervision, and a screen (\<open>internal/tui\<close>) shows counters and the log. \<open>trafficgen\<close> sends and counts
  GOOSE and Sampled Values frames (\<open>internal/iec\<close>).

  \<^bold>\<open>Theories and sources.\<close>

  \<^item> \<^verbatim>\<open>Prelude\<close>: Go's integers, big-endian access, slices, formats, maps as association lists, times, durations.
  \<^item> \<^verbatim>\<open>Engine\<close>, \<^verbatim>\<open>EngineHSR\<close>: \<open>internal/engine/engine.go\<close> and \<open>hsr.go\<close>: sequence numbers (\<open>sm_Next\<close>), the
    trailer (\<open>EncodeRCT\<close>, \<open>DecodeRCT\<close>), the HSR tag (\<open>EncodeHSR\<close>, \<open>DecodeHSR\<close>, \<open>RewriteHSRPathLane\<close>,
    \<open>StripHSR\<close>), VLAN and EtherType access.
  \<^item> \<^verbatim>\<open>NodeTable\<close>: \<open>internal/nodetable/nodetable.go\<close>: \<open>InsertWithExpiry\<close>, \<open>Find\<close>, \<open>FlushFor\<close>, \<open>Cleanup\<close>, \<open>Size\<close>.
    Its interface is stated as the locales \<^verbatim>\<open>dup_window\<close> and \<^verbatim>\<open>dup_table\<close>, interpreted on the table; the
    second says when a table that evicts cannot be told from a memory without bounds (\<open>stands_for\<close>).
  \<^item> \<^verbatim>\<open>Supervision\<close>, \<^verbatim>\<open>Role\<close>: \<open>internal/supervision/supervision.go\<close>, \<open>internal/prp/role.go\<close> and the \<open>Config\<close> struct.
  \<^item> \<^verbatim>\<open>Node\<close>, \<^verbatim>\<open>NodePRP\<close>, \<^verbatim>\<open>NodeHSR\<close>, \<^verbatim>\<open>NodeFrame\<close>: the \<open>Node\<close> struct (the record \<open>node\<close>), \<open>NewNode\<close>, the handlers of
    \<open>internal/prp/prp.go\<close> and \<open>hsr.go\<close>, each a function from an environment, an event and a node to a
    node, and the dispatcher \<open>handleFrame\<close>.
  \<^item> \<^verbatim>\<open>NodeLoop\<close>: \<open>Start\<close>, \<open>Stop\<close>, one iteration of \<open>readLoop\<close> and of \<open>processFrames\<close>, the clean-up timer and
    supervision, with their interleavings as the step relation \<open>node_moves\<close> and its closure \<open>node_reaches\<close>,
    and the end of the frame loops after \<open>Stop\<close>, \<open>shutdown_moves\<close>. What every handler keeps is stated once,
    in the locale \<^verbatim>\<open>node_kept\<close>, interpreted on the invariant and on the frame queue.
  \<^item> \<^verbatim>\<open>Receiver\<close>: the receive side of a redundancy protocol over any duplicate filter, as the locale
    \<^verbatim>\<open>dup_receiver\<close>, with its specification \<open>window_copies\<close>; \<^verbatim>\<open>PRPNetwork\<close> and \<^verbatim>\<open>HSRNetwork\<close> interpret it on the
    two receive paths.
  \<^item> \<^verbatim>\<open>HSRRing\<close>, \<^verbatim>\<open>HSRCoupling\<close>: rings of nodes, intact or with one link broken, and HSR-PRP coupling; \<^verbatim>\<open>NodePolicy\<close>: filters, proxy learning,
    restart detection, and the inputs on which a handler panics; \<^verbatim>\<open>Examples\<close>: concrete nodes and frames.
  \<^item> \<^verbatim>\<open>ConfigLoad\<close>: \<open>internal/config/config.go\<close> and the translation of the file to a node configuration in
    \<open>cmd/prpd/main.go\<close>.
  \<^item> \<^verbatim>\<open>Iface\<close>: \<open>internal/iface/iface.go\<close>; the setters share the locale \<^verbatim>\<open>fd_neutral\<close>.
  \<^item> \<^verbatim>\<open>RingBuffer\<close>, \<^verbatim>\<open>TUI\<close>: \<open>internal/tui/ringbuf.go\<close>, \<open>prpd.go\<close>, \<open>tui.go\<close> and \<open>isatty_*.go\<close>, \<open>internal/version\<close>.
  \<^item> \<^verbatim>\<open>Daemon\<close>, \<^verbatim>\<open>Process\<close>: \<open>cmd/prpd/main.go\<close>: \<open>prpd_main\<close> composes loading, static addresses, \<open>Start\<close> and the
    ticker; \<open>daemon_moves\<close> is the process from then on, with \<open>runTUILoop\<close>, status lines and the signal.
  \<^item> \<^verbatim>\<open>IEC\<close>: \<open>internal/iec\<close>; \<^verbatim>\<open>TrafficGen\<close>: \<open>cmd/trafficgen/main.go\<close> and \<open>socket_linux.go\<close>; \<^verbatim>\<open>WinSocket\<close>:
    \<open>cmd/trafficgen/socket_windows.go\<close>; \<^verbatim>\<open>PktSocket\<close>: the interface \<open>pktSocket\<close> of \<open>socket_iface.go\<close>, as a
    locale that both sockets interpret in \<^verbatim>\<open>Capture\<close>, where the receiver runs over them; \<^verbatim>\<open>WinMemory\<close>: the device
    list in C memory and the loading of \<open>wpcap.dll\<close>.
  \<^item> \<^verbatim>\<open>Report\<close>, \<^verbatim>\<open>TrafficMain\<close>: \<open>stats.report\<close>, the modes \<open>send\<close>, \<open>recv\<close> and \<open>ping\<close> as processes, and \<open>main\<close> of the traffic
    generator; \<^verbatim>\<open>Substation\<close>: publisher, RedBox, two LANs, RedBox and subscriber together.

  \<^bold>\<open>Conventions.\<close> A run-time panic is \<^const>\<open>None\<close>; a Go error is the left of a sum. A Go map is an association
  list with distinct keys; where the order of a range matters it is a parameter. An event
  is handled at one clock reading, \<open>env_now\<close>; writes that the kernel refuses are \<open>env_wr\<close>. Words have
  their width, \<open>int\<close> wraps where the code can overflow it (\<open>i64\<close>). The kernel, the operating system,
  the YAML decoder, \<open>net.ParseCIDR\<close>, \<open>time.ParseDuration\<close> and the environment variables are arguments
  (\<open>kernel\<close>, \<open>abi\<close>, \<open>os\<close>, \<open>sysenv\<close>, \<open>io\<close>), with no assumption on them except where a theorem names it.
  What a port was given to send is kept in the port. Log output has no effect and is left out.

  \<^bold>\<open>What the lemmas show.\<close> Codecs: round trips of trailer, HSR tag, supervision frames, GOOSE and SV
  APDUs, and what a decoder accepts. Table: the duplicate window, eviction of the oldest, clean-up
  that cannot be observed. Node: every reachable state keeps the invariant, and no interleaving
  panics on frames of at least 26 bytes; shorter ones that do panic are characterised; after \<open>Stop\<close> the
  frame loops end. Receive paths
  refine a receiver with an unbounded memory. Networks: exactly-once delivery across two lossy,
  reordering LANs, for streams of any length; around a ring in any interleaving, one link broken or not;
  and across a coupling; no reinjection, from the configuration files up; and a GOOSE publisher and
  subscriber that see none of it. Configuration: what a loaded file guarantees, and what the environment can
  break. Sockets: no descriptor is leaked, stripped VLAN tags are put back. Traffic generator: what
  is counted is what was sent, what is reported is what was measured, and a signal stops the publisher.
  Processes: no interleaving of the daemon panics; what an early exit leaves undone.

  \<^bold>\<open>Bounds.\<close> Functions are total; loops are structural or have a measure. Loops of the program that run
  until a signal are step relations, or functions of what each turn is answered; the walks over C memory
  are partial functions, proved to return on a proper list. Exactly-once holds inside the duplicate window,
  which the theorems state: two arrivals of one pair are within the expiry time exactly when they are
  copies of one frame, and fewer offers lie between them than the table holds. The ring theorem bounds the
  number of hops by the number of nodes. Percentile indices are exact up to \<open>2\<^sup>4\<^sup>8\<close> measurements.

  \<^bold>\<open>Not modelled.\<close> The text of log lines and of errors, and the progress lines of \<open>send\<close> and \<open>ping\<close>; data races
  (each handler is one atomic step); the quotient of \<open>--rate\<close>, whose interval is an argument; accessors that
  return a field, and \<open>SetClock\<close>, whose place is taken by the clock reading of each event.

  \<^bold>\<open>Plan.\<close> Next: supervision across a QuadBox, a stream of frames around the ring, and the ring of GOOSE
  publishers and subscribers.
\<close>

section \<open>From the configuration file to the ring\<close>

lemma Start_config: "Start os e n = (Inr loops, n') \<Longrightarrow> n_Config n' = n_Config n"
  by (auto simp: Start_def Let_def start_loops_def split: option.splits if_splits prod.splits)

lemma NewNode_config: "n_Config (NewNode seed cfg) = cfg"
  by (simp add: NewNode_def)

lemma booted_coupler:
  assumes "prpd_main sys A K os e seed s = (Running n, s')" and "sys_Getenv sys ''PRP_ROLE'' = ''''" and "set (sys_ports sys) = UNIV"
    and "Load sys (configPath sys) = Inr c" and "y_Node_Role c = ''hsr-prp''"
  shows "coupler n" and "n_Config n = prpConfig sys c"
proof -
  obtain loops where st: "Start os e (NewNode seed (prpConfig sys c)) = (Inr loops, n)"
    using Running_started[OF assms(1)] assms(4) by auto
  then show cfg: "n_Config n = prpConfig sys c" using Start_config NewNode_config by metis
  have r: "coupling_ready c" using Load_valid[OF assms(4,3)] assms(2,5) by (simp add: file_valid_def)
  have role: "role_of (prpConfig sys c) = RoleHSRPRP" using assms(5) role_of_name by simp
  have "good (\<lambda>f. True) n"
    using Start_good[OF st, of "\<lambda>f. True"] r role by (simp add: coupling_ready_def)
  then show "coupler n"
    using r role cfg by (simp add: coupler_def hsr_bound_def good_def ports_bound_def coupling_ready_def)
qed



end
